(* ===== verification/Go_Prelude.thy ===== *)
theory Go_Prelude
  imports Main "HOL-Library.Word"
begin

unbundle bit_operations_syntax

text \<open>
  What every component of the development shares: the machine types of the Go code,
  results with errors, a few facts on lists, and the collections of facts the
  component proofs call by name.

  A Go function that returns \<open>(T, error)\<close> is a function into \<open>'e + 'a\<close>: \<open>Inl e\<close> is a
  non-nil error (or a panic, where the error type has a constructor for it), \<open>Inr x\<close>
  is the value with a nil error. \<open>rbind\<close> is the early return \<open>if err != nil\<close>.
\<close>

section \<open>Types\<close>

type_synonym byte = "8 word"
type_synonym bytes = "byte list"
type_synonym uint64 = "64 word"
type_synonym uint32 = "32 word"

text \<open>
  A Go \<open>int\<close> is 64 bits wide on the platforms the programs are built for. \<open>int64 x\<close> is
  the value an \<open>int\<close> (or \<open>int64\<close>) variable holds after a computation whose exact result
  is \<open>x\<close>.
\<close>

definition int64 :: "int \<Rightarrow> int" where
  "int64 x = sint (word_of_int x :: 64 word)"

text \<open>The length of any Go slice or string is an \<open>int\<close>, so below \<open>2 ^ 63\<close>.\<close>

abbreviation max_len :: nat where
  "max_len \<equiv> 2 ^ 63"

text \<open>
  \<open>Err msg\<close> is a returned error, \<open>Panic msg\<close> a panic of the called function.
\<close>

datatype go_error = Err string | Panic string

type_synonym 'a result = "go_error + 'a"

definition rbind :: "'e + 'a \<Rightarrow> ('a \<Rightarrow> 'e + 'b) \<Rightarrow> 'e + 'b" where
  "rbind r f = (case r of Inl e \<Rightarrow> Inl e | Inr x \<Rightarrow> f x)"

named_theorems codec_simps "facts that evaluate the encoders and decoders on symbolic buffers"

section \<open>Results\<close>

lemma rbind_Inl [simp]: "rbind (Inl e) f = Inl e"
  by (simp add: rbind_def)

lemma rbind_Inr [simp]: "rbind (Inr x) f = f x"
  by (simp add: rbind_def)

lemma rbind_eq_Inr_iff: "rbind r f = Inr y \<longleftrightarrow> (\<exists>x. r = Inr x \<and> f x = Inr y)"
  by (cases r) auto

lemma rbind_eq_Inl_iff: "rbind r f = Inl e \<longleftrightarrow> r = Inl e \<or> (\<exists>x. r = Inr x \<and> f x = Inl e)"
  by (cases r) auto

lemma rbind_InrE [elim!]:
  assumes "rbind r f = Inr y"
  obtains x where "r = Inr x" and "f x = Inr y"
  using assms by (auto simp: rbind_eq_Inr_iff)

lemma rbind_assoc: "rbind (rbind r f) g = rbind r (\<lambda>x. rbind (f x) g)"
  by (cases r) simp_all

lemma rbind_case_prod: "rbind r (\<lambda>(a, b). f a b) = rbind r (\<lambda>p. f (fst p) (snd p))"
  by (simp add: case_prod_beta')

section \<open>Machine integers\<close>

lemma int64_id: "- (2 ^ 63) \<le> x \<Longrightarrow> x < 2 ^ 63 \<Longrightarrow> int64 x = x"
  by (simp add: int64_def sint_sbintrunc' signed_take_bit_int_eq_self)

lemma sint_of_nat_64: "n < max_len \<Longrightarrow> sint (word_of_nat n :: 64 word) = int n"
  using int64_id [of "int n"] by (simp add: int64_def)

lemma unat_of_nat_64: "n < 2 ^ 64 \<Longrightarrow> unat (word_of_nat n :: 64 word) = n"
  by (simp add: unat_of_nat take_bit_nat_eq_self)

section \<open>Lists\<close>

text \<open>Go's \<open>copy(dst[n:], src)\<close>: as many bytes as fit, the rest of \<open>dst\<close> unchanged.\<close>

definition copy_at :: "'a list \<Rightarrow> nat \<Rightarrow> 'a list \<Rightarrow> 'a list" where
  "copy_at d n src = take n d @ take (length d - n) src @ drop (n + length src) d"

lemma length_copy_at [simp]: "n \<le> length d \<Longrightarrow> length (copy_at d n src) = length d"
  by (auto simp: copy_at_def)

lemma copy_at_fits: "n + length src \<le> length d \<Longrightarrow>
    copy_at d n src = take n d @ src @ drop (n + length src) d"
  by (simp add: copy_at_def)

lemma nth_of_drop: "drop i d = x # ys \<Longrightarrow> i < length d \<and> d ! i = x"
proof -
  assume h: "drop i d = x # ys"
  then have "i < length d"
    by (metis drop_all list.distinct(1) not_le)
  moreover from h have "d ! i = x"
    using nth_via_drop by fastforce
  ultimately show ?thesis by simp
qed

lemma drop_add_append: "drop i d = xs @ ys \<Longrightarrow> drop (i + length xs) d = ys"
  by (metis append_eq_conv_conj drop_drop add.commute)

lemma drop_length_bound: "drop i d = xs @ ys \<Longrightarrow> xs \<noteq> [] \<Longrightarrow> i + length xs + length ys = length d"
proof -
  assume h: "drop i d = xs @ ys" and ne: "xs \<noteq> []"
  then have "length d - i = length xs + length ys"
    by (metis length_append length_drop)
  moreover from ne have "0 < length xs" by (cases xs) simp_all
  ultimately show ?thesis by linarith
qed

section \<open>Bit lengths\<close>

text \<open>
  The length of a number in bits: \<open>bits.Len64\<close> of \<open>math/bits\<close> and \<open>BitLen\<close> of
  \<open>math/big\<close>.
\<close>

fun bit_len :: "nat \<Rightarrow> nat" where
  "bit_len n = (if n = 0 then 0 else Suc (bit_len (n div 2)))"

declare bit_len.simps [simp del]

lemma bit_len_0 [simp]: "bit_len 0 = 0"
  by (simp add: bit_len.simps)

lemma bit_len_pos: "0 < n \<Longrightarrow> bit_len n = Suc (bit_len (n div 2))"
  by (simp add: bit_len.simps [of n])

lemma bit_len_le_iff: "bit_len n \<le> k \<longleftrightarrow> n < 2 ^ k"
proof (induction k arbitrary: n)
  case 0
  show ?case by (simp add: bit_len.simps [of n])
next
  case (Suc k)
  show ?case
  proof (cases "n = 0")
    case False
    then have "bit_len n \<le> Suc k \<longleftrightarrow> n div 2 < 2 ^ k"
      by (simp add: bit_len_pos Suc.IH)
    also have "\<dots> \<longleftrightarrow> n < 2 ^ Suc k" by auto
    finally show ?thesis .
  qed simp
qed

lemma bit_len_or_1: "0 < n \<Longrightarrow> bit_len (n OR 1) = bit_len n"
proof -
  assume n: "0 < n"
  have "n OR 1 = n + of_bool (even n)"
    by (simp add: or_Suc_0_eq)
  then have "(n OR 1) div 2 = n div 2" and "0 < n OR 1"
    using n by auto
  with n show ?thesis by (simp add: bit_len_pos)
qed

lemma bit_len_shift: "2 ^ k \<le> n \<Longrightarrow> bit_len n = k + bit_len (n div 2 ^ k)"
proof (induction k arbitrary: n)
  case 0
  then show ?case by simp
next
  case (Suc k)
  then have "0 < n" by (metis less_le_trans zero_less_numeral zero_less_power)
  moreover from Suc.prems have "2 ^ k \<le> n div 2" by simp
  ultimately show ?case
    using Suc.IH [of "n div 2"] by (simp add: bit_len_pos [of n] div_mult2_eq [symmetric] mult.commute)
qed

section \<open>Step relations\<close>

text \<open>
  The interface of the state machines of the development (the relayer's wait loop, the requests
  of the proving service): an invariant that steps keep and a measure that they decrease. The
  invariant then holds after any run, and a run has no more steps than the measure at its start.
\<close>

locale measured_steps =
  fixes move :: "'s \<Rightarrow> 's \<Rightarrow> bool" and inv :: "'s \<Rightarrow> bool" and rank :: "'s \<Rightarrow> nat"
  assumes inv_move: "move s s' \<Longrightarrow> inv s \<Longrightarrow> inv s'"
    and rank_move: "move s s' \<Longrightarrow> inv s \<Longrightarrow> rank s' < rank s"
begin

lemma run_inv: "(move ^^ n) s s' \<Longrightarrow> inv s \<Longrightarrow> inv s'"
  by (induction n arbitrary: s') (auto intro: inv_move)

lemma run_rank: "(move ^^ n) s s' \<Longrightarrow> inv s \<Longrightarrow> n + rank s' \<le> rank s"
proof (induction n arbitrary: s')
  case (Suc n)
  then obtain s1 where s1: "(move ^^ n) s s1" "move s1 s'" by auto
  with rank_move [OF s1(2) run_inv [OF s1(1)]] Suc show ?case by fastforce
qed simp

lemma run_length: "(move ^^ n) s s' \<Longrightarrow> inv s \<Longrightarrow> n \<le> rank s"
  using run_rank by fastforce

end

end
