(* ===== verification/Go_Std.thy ===== *)
theory Go_Std
  imports Go_Prelude
begin

text \<open>
  What the program uses of the Go standard library: strings as bytes, \<open>strings.TrimPrefix\<close>,
  \<open>encoding/hex\<close>, the byte forms of \<open>big.Int\<close> and \<open>encoding/binary\<close>, and
  \<open>time.ParseDuration\<close>. A \<open>string\<close> of HOL is a list of 8-bit characters, so it is a Go
  string. A non-negative \<open>big.Int\<close> is a \<open>nat\<close>.
\<close>

section \<open>Strings and bytes\<close>

definition byte_of :: "char \<Rightarrow> byte" where
  "byte_of c = word_of_nat (of_char c)"

definition char_of_byte :: "byte \<Rightarrow> char" where
  "char_of_byte b = char_of (unat b)"

definition string_bytes :: "string \<Rightarrow> bytes" where
  "string_bytes s = map byte_of s"

definition bytes_string :: "bytes \<Rightarrow> string" where
  "bytes_string bs = map char_of_byte bs"

lemma of_char_less: "(of_char c :: nat) < 256"
  by (cases c) (simp add: of_char_def split: if_splits)

lemma byte_less: "unat (b :: byte) < 256"
  by (rule unsigned_less [THEN less_le_trans]) simp

lemma char_of_byte_of [simp]: "char_of_byte (byte_of c) = c"
  using of_char_less [of c]
  by (simp add: char_of_byte_def byte_of_def unat_of_nat take_bit_nat_eq_self)

lemma byte_of_char_of [simp]: "byte_of (char_of_byte b) = b"
  using byte_less [of b] by (simp add: char_of_byte_def byte_of_def)

lemma bytes_string_of [simp]: "bytes_string (string_bytes s) = s"
  by (simp add: bytes_string_def string_bytes_def comp_def)

lemma string_bytes_of [simp]: "string_bytes (bytes_string bs) = bs"
  by (simp add: bytes_string_def string_bytes_def comp_def)

lemma length_string_bytes [simp]: "length (string_bytes s) = length s"
  by (simp add: string_bytes_def)

lemma string_bytes_Nil [simp]: "string_bytes [] = []" and bytes_string_Nil [simp]: "bytes_string [] = []"
  by (simp_all add: string_bytes_def bytes_string_def)

definition TrimPrefix :: "string \<Rightarrow> string \<Rightarrow> string" where
  "TrimPrefix s p = (if take (length p) s = p then drop (length p) s else s)"

lemma TrimPrefix_append [simp]: "TrimPrefix (p @ s) p = s"
  by (simp add: TrimPrefix_def)

section \<open>Hexadecimal\<close>

datatype hex_error = InvalidByteError byte | ErrLength

definition hex_char :: "nat \<Rightarrow> char" where
  "hex_char n = ''0123456789abcdef'' ! n"

definition from_hex_char :: "char \<Rightarrow> nat option" where
  "from_hex_char c = (let n = of_char c :: nat in
     if 48 \<le> n \<and> n \<le> 57 then Some (n - 48)
     else if 97 \<le> n \<and> n \<le> 102 then Some (n - 87)
     else if 65 \<le> n \<and> n \<le> 70 then Some (n - 55)
     else None)"

fun hex_EncodeToString :: "bytes \<Rightarrow> string" where
  "hex_EncodeToString [] = []"
| "hex_EncodeToString (b # bs) =
     hex_char (unat (drop_bit 4 b)) # hex_char (unat (b AND 0xF)) # hex_EncodeToString bs"

text \<open>An invalid character is reported before an odd length.\<close>

fun hex_DecodeString :: "string \<Rightarrow> hex_error + bytes" where
  "hex_DecodeString [] = Inr []"
| "hex_DecodeString [c] =
     (case from_hex_char c of None \<Rightarrow> Inl (InvalidByteError (byte_of c)) | Some a \<Rightarrow> Inl ErrLength)"
| "hex_DecodeString (c # d # s) =
     (case from_hex_char c of None \<Rightarrow> Inl (InvalidByteError (byte_of c)) | Some a \<Rightarrow>
      (case from_hex_char d of None \<Rightarrow> Inl (InvalidByteError (byte_of d)) | Some b \<Rightarrow>
       rbind (hex_DecodeString s) (\<lambda>bs. Inr (word_of_nat (16 * a + b) # bs))))"

lemma hex_chars: "list_all (\<lambda>n. from_hex_char (hex_char n) = Some n) [0..<16]"
  by (simp add: upt_rec from_hex_char_def hex_char_def)

lemma from_hex_char_hex_char: "n < 16 \<Longrightarrow> from_hex_char (hex_char n) = Some n"
  using hex_chars by (simp add: list_all_iff)

lemma low_nibble: "unat ((b :: byte) AND 0xF) = unat b mod 16"
  using take_bit_eq_mask [of 4 b] take_bit_eq_mod [of 4 "unat b"]
  by (simp add: mask_numeral unsigned_take_bit_eq [symmetric])

lemma high_nibble: "unat (drop_bit 4 (b :: byte)) = unat b div 16"
  using drop_bit_eq_div [of 4 "unat b"] by (simp add: unat_drop_bit_eq)

lemma nibble_bounds: "unat (drop_bit 4 (b :: byte)) < 16" "unat (b AND 0xF) < 16"
  using byte_less [of b] by (simp_all only: high_nibble low_nibble)

lemma nibbles: "16 * unat (drop_bit 4 b) + unat (b AND 0xF) = unat (b :: byte)"
  by (simp only: high_nibble low_nibble mult_div_mod_eq)

lemma hex_decode_encode: "hex_DecodeString (hex_EncodeToString bs) = Inr bs"
  by (induction bs) (simp_all add: from_hex_char_hex_char nibble_bounds nibbles)

lemma hex_not_prefixed: "TrimPrefix (hex_EncodeToString bs) ''0x'' = hex_EncodeToString bs"
proof (cases bs)
  case (Cons b bs')
  have "hex_char (unat (b AND 0xF)) \<noteq> CHR ''x''"
    using from_hex_char_hex_char [OF nibble_bounds(2) [of b]]
    by (auto simp: from_hex_char_def)
  with Cons show ?thesis by (simp add: TrimPrefix_def)
qed (simp add: TrimPrefix_def)

section \<open>Big-endian numbers\<close>

text \<open>
  \<open>be_nat\<close> is \<open>SetBytes\<close> of \<open>big.Int\<close> (and reading a big-endian integer), \<open>be_bytes\<close> its
  \<open>Bytes\<close>: no leading zero. \<open>PutUint64\<close> is that of \<open>binary.BigEndian\<close>.
\<close>

fun be_nat :: "bytes \<Rightarrow> nat" where
  "be_nat [] = 0"
| "be_nat (b # bs) = unat b * 256 ^ length bs + be_nat bs"

fun le_bytes :: "nat \<Rightarrow> bytes" where
  "le_bytes n = (if n = 0 then [] else word_of_nat (n mod 256) # le_bytes (n div 256))"

declare le_bytes.simps [simp del]

definition be_bytes :: "nat \<Rightarrow> bytes" where
  "be_bytes n = rev (le_bytes n)"

definition PutUint64 :: "uint64 \<Rightarrow> bytes" where
  "PutUint64 v = map (\<lambda>i. ucast (drop_bit (56 - 8 * i) v)) [0..<8]"

lemma be_nat_append: "be_nat (xs @ ys) = be_nat xs * 256 ^ length ys + be_nat ys"
  by (induction xs) (simp_all add: algebra_simps power_add)

lemma be_nat_less: "be_nat bs < 256 ^ length bs"
proof (induction bs)
  case (Cons b bs)
  have "unat b * 256 ^ length bs + be_nat bs < (unat b + 1) * 256 ^ length bs"
    using Cons.IH by simp
  also have "\<dots> \<le> 256 * 256 ^ length bs"
    using byte_less [of b] by (intro mult_right_mono) simp_all
  finally show ?case by simp
qed simp

lemma be_nat_inj: "length xs = length ys \<Longrightarrow> be_nat xs = be_nat ys \<Longrightarrow> xs = ys"
proof (induction xs ys rule: list_induct2)
  case (Cons x xs y ys)
  let ?n = "256 ^ length ys :: nat"
  have n: "be_nat xs < ?n" "be_nat ys < ?n" "0 < ?n"
    using be_nat_less [of xs] be_nat_less [of ys] Cons.hyps by simp_all
  have e: "unat x * ?n + be_nat xs = unat y * ?n + be_nat ys"
    using Cons.prems Cons.hyps by simp
  have "(unat x * ?n + be_nat xs) div ?n = unat x" and "(unat y * ?n + be_nat ys) div ?n = unat y"
    using n by simp_all
  with e have "unat x = unat y" by simp
  moreover with e have "be_nat xs = be_nat ys" by simp
  ultimately show ?case using Cons.IH by (auto intro: unsigned_word_eqI)
qed simp

lemma be_nat_zeros: "be_nat (replicate k 0 @ bs) = be_nat bs"
  by (induction k) simp_all

lemma be_nat_be_bytes [simp]: "be_nat (be_bytes n) = n"
proof (induction n rule: le_bytes.induct)
  case (1 n)
  show ?case
  proof (cases "n = 0")
    case False
    then have "be_nat (be_bytes (n div 256)) = n div 256" by (rule "1.IH")
    with False show ?thesis
      by (subst be_bytes_def, subst le_bytes.simps)
        (simp add: be_nat_append unat_of_nat take_bit_eq_mod flip: be_bytes_def)
  qed (simp add: be_bytes_def le_bytes.simps)
qed

lemma be_bytes_no_leading_zero: "be_bytes n = b # bs \<Longrightarrow> b \<noteq> 0"
proof (induction n arbitrary: b bs rule: le_bytes.induct)
  case (1 n)
  show ?case
  proof (cases "n < 256")
    case True
    with "1.prems" have "n \<noteq> 0" "b = word_of_nat n"
      by (auto simp: be_bytes_def le_bytes.simps [of n] le_bytes.simps [of 0] split: if_splits)
    moreover have "unat (word_of_nat n :: byte) = n"
      using True by (simp add: unat_of_nat take_bit_nat_eq_self)
    ultimately show ?thesis by auto
  next
    case False
    then have "n \<noteq> 0" "n div 256 \<noteq> 0" by auto
    then obtain c cs where c: "be_bytes (n div 256) = c # cs"
      by (metis be_nat.simps(1) be_nat_be_bytes neq_Nil_conv)
    have "be_bytes n = be_bytes (n div 256) @ [word_of_nat (n mod 256)]"
      using \<open>n \<noteq> 0\<close> by (simp add: be_bytes_def le_bytes.simps [of n])
    with "1.prems" c have "b = c" by simp
    with "1.IH" [OF \<open>n \<noteq> 0\<close> c] show ?thesis by simp
  qed
qed

lemma be_bytes_inj: "be_bytes m = be_bytes n \<longleftrightarrow> m = n"
  by (metis be_nat_be_bytes)

lemma length_PutUint64 [simp]: "length (PutUint64 v) = 8"
  by (simp add: PutUint64_def)

text \<open>A number in exactly \<open>k\<close> bytes.\<close>

definition be_pad :: "nat \<Rightarrow> nat \<Rightarrow> bytes" where
  "be_pad k n = replicate (k - length (be_bytes n)) 0 @ be_bytes n"

lemma be_nat_be_pad [simp]: "be_nat (be_pad k n) = n"
  by (simp add: be_pad_def be_nat_zeros)

lemma length_be_bytes: "n < 256 ^ k \<Longrightarrow> length (be_bytes n) \<le> k"
proof (induction k arbitrary: n)
  case 0
  then show ?case by (simp add: be_bytes_def le_bytes.simps)
next
  case (Suc k)
  then have "n div 256 < 256 ^ k" by (simp add: less_mult_imp_div_less mult.commute)
  then have "length (be_bytes (n div 256)) \<le> k" by (rule Suc.IH)
  then show ?case by (simp add: be_bytes_def le_bytes.simps [of n])
qed

lemma length_be_pad: "n < 256 ^ k \<Longrightarrow> length (be_pad k n) = k"
  using length_be_bytes by (simp add: be_pad_def)

lemma be_pad_be_nat: "be_pad (length bs) (be_nat bs) = bs"
  by (rule be_nat_inj) (simp_all add: length_be_pad be_nat_less)

section \<open>Slices\<close>

text \<open>
  A byte slice with its spare capacity: \<open>s[a:b]\<close> may reach beyond the length, up to the
  capacity, and panics (\<open>None\<close>) past it.
\<close>

type_synonym go_slice = "bytes \<times> bytes"

definition slice_expr :: "go_slice \<Rightarrow> nat \<Rightarrow> nat \<Rightarrow> bytes option" where
  "slice_expr s a b =
     (if a \<le> b \<and> b \<le> length (fst s @ snd s) then Some (take (b - a) (drop a (fst s @ snd s))) else None)"

section \<open>Durations\<close>

text \<open>
  \<open>time.ParseDuration\<close>: nanoseconds as an \<open>int64\<close>. The only floating point step, the
  nanoseconds of a decimal fraction \<open>f / 10 ^ k\<close> of a unit, is the argument \<open>frac\<close>.
\<close>

datatype duration_error = InvalidDuration | MissingUnit | UnknownUnit

type_synonym fraction = "uint64 \<Rightarrow> nat \<Rightarrow> uint64 \<Rightarrow> uint64"

definition is_digit :: "char \<Rightarrow> bool" where
  "is_digit c \<longleftrightarrow> 48 \<le> (of_char c :: nat) \<and> (of_char c :: nat) \<le> 57"

definition digit_value :: "char \<Rightarrow> uint64" where
  "digit_value c = word_of_nat (of_char c - 48)"

fun leadingInt :: "uint64 \<Rightarrow> string \<Rightarrow> (uint64 \<times> string) option" where
  "leadingInt x [] = Some (x, [])"
| "leadingInt x (c # s) =
     (if \<not> is_digit c then Some (x, c # s)
      else if 922337203685477580 < x then None
      else let x' = x * 10 + digit_value c in
        if 9223372036854775808 < x' then None else leadingInt x' s)"

fun leadingFraction :: "uint64 \<Rightarrow> nat \<Rightarrow> bool \<Rightarrow> string \<Rightarrow> uint64 \<times> nat \<times> string" where
  "leadingFraction x k overflow [] = (x, k, [])"
| "leadingFraction x k overflow (c # s) =
     (if \<not> is_digit c then (x, k, c # s)
      else if overflow \<or> 922337203685477580 < x then leadingFraction x k True s
      else let y = x * 10 + digit_value c in
        if 9223372036854775808 < y then leadingFraction x k True s
        else leadingFraction y (k + 1) False s)"

definition unitMap :: "string \<Rightarrow> uint64 option" where
  "unitMap = map_of
     [(''ns'', 1), (''us'', 1000), ([CHR 0xC2, CHR 0xB5, CHR ''s''], 1000),
      ([CHR 0xCE, CHR 0xBC, CHR ''s''], 1000), (''ms'', 1000000), (''s'', 1000000000),
      (''m'', 60000000000), (''h'', 3600000000000)]"

definition unit_char :: "char \<Rightarrow> bool" where
  "unit_char c \<longleftrightarrow> c \<noteq> CHR ''.'' \<and> \<not> is_digit c"

text \<open>One round of the loop: a number and its unit, added to \<open>d\<close>.\<close>

definition duration_step :: "fraction \<Rightarrow> uint64 \<Rightarrow> string \<Rightarrow> duration_error + (uint64 \<times> string)" where
  "duration_step frac d s =
     (if s = [] \<or> unit_char (hd s) then Inl InvalidDuration
      else case leadingInt 0 s of None \<Rightarrow> Inl InvalidDuration | Some (v, s1) \<Rightarrow>
        let pre = length s1 \<noteq> length s;
            point = (s1 \<noteq> [] \<and> hd s1 = CHR ''.'');
            (f, k, s2) = (if point then leadingFraction 0 0 False (tl s1) else (0, 0, s1));
            post = (point \<and> length s2 \<noteq> length (tl s1));
            u = takeWhile unit_char s2
        in if \<not> pre \<and> \<not> post then Inl InvalidDuration
           else if u = [] then Inl MissingUnit
           else case unitMap u of None \<Rightarrow> Inl UnknownUnit | Some unit \<Rightarrow>
             if 9223372036854775808 div unit < v then Inl InvalidDuration
             else let v' = (if 0 < f then v * unit + frac f k unit else v * unit) in
               if 0 < f \<and> 9223372036854775808 < v' then Inl InvalidDuration
               else if 9223372036854775808 < d + v' then Inl InvalidDuration
               else Inr (d + v', dropWhile unit_char s2))"

lemma leadingInt_length: "leadingInt x s = Some (v, s') \<Longrightarrow> length s' \<le> length s"
  by (induction x s rule: leadingInt.induct) (auto simp: Let_def split: if_splits)

lemma leadingFraction_length: "leadingFraction x k ov s = (f, k', s') \<Longrightarrow> length s' \<le> length s"
  by (induction x k ov s rule: leadingFraction.induct) (auto simp: Let_def split: if_splits)

lemma takeWhile_length_less: "takeWhile P xs \<noteq> [] \<Longrightarrow> length (dropWhile P xs) < length xs"
  by (cases xs) (auto simp: length_dropWhile_le less_Suc_eq_le split: if_splits)

lemma duration_step_length:
  assumes "duration_step frac d s = Inr (d', s')"
  shows "length s' < length s"
proof -
  from assms obtain v s1 where 1: "leadingInt 0 s = Some (v, s1)"
    by (auto simp: duration_step_def split: if_splits option.splits)
  define point where "point \<longleftrightarrow> s1 \<noteq> [] \<and> hd s1 = CHR ''.''"
  obtain f k s2 where 2: "(if point then leadingFraction 0 0 False (tl s1) else (0, 0, s1)) = (f, k, s2)"
    by (metis prod_cases3)
  from assms have "takeWhile unit_char s2 \<noteq> []" and 3: "s' = dropWhile unit_char s2"
    by (auto simp: duration_step_def 1 Let_def 2 [unfolded point_def] split: if_splits option.splits)
  then have "length s' < length s2" by (simp add: takeWhile_length_less)
  also have "length s2 \<le> length s1"
    using 2 leadingFraction_length [of 0 0 False "tl s1" f k s2] by (auto split: if_splits)
  also have "length s1 \<le> length s" by (rule leadingInt_length [OF 1])
  finally show ?thesis .
qed

function duration_loop :: "fraction \<Rightarrow> uint64 \<Rightarrow> string \<Rightarrow> duration_error + uint64" where
  "duration_loop frac d s =
     (if s = [] then Inr d
      else case duration_step frac d s of
        Inl e \<Rightarrow> Inl e
      | Inr (d', s') \<Rightarrow> duration_loop frac d' s')"
  by pat_completeness auto
termination
  by (relation "measure (\<lambda>(frac, d, s). length s)") (auto dest: duration_step_length)

declare duration_loop.simps [simp del]

definition ParseDuration :: "fraction \<Rightarrow> string \<Rightarrow> duration_error + int" where
  "ParseDuration frac orig =
     (let signed = (orig \<noteq> [] \<and> (hd orig = CHR ''-'' \<or> hd orig = CHR ''+''));
          neg = (orig \<noteq> [] \<and> hd orig = CHR ''-'');
          s = (if signed then tl orig else orig)
      in if s = ''0'' then Inr 0
         else if s = [] then Inl InvalidDuration
         else rbind (duration_loop frac 0 s) (\<lambda>d.
           if neg then Inr (sint (- d))
           else if 9223372036854775807 < d then Inl InvalidDuration
           else Inr (sint d)))"

end
