(* ===== verification/Sha256.thy ===== *)
theory Sha256
  imports Go_Std
begin

text \<open>
  \<open>crypto/sha256\<close>: \<open>Sum256\<close> as FIPS 180-4 gives it, executable. The block hashes, the
  Merkle tree of a header and the public inputs of the zero knowledge proof are all
  computed with it.
\<close>

definition sha256_K :: "uint32 list" where
  "sha256_K =
    [1116352408, 1899447441, 3049323471, 3921009573, 961987163, 1508970993,
     2453635748, 2870763221, 3624381080, 310598401, 607225278, 1426881987,
     1925078388, 2162078206, 2614888103, 3248222580, 3835390401, 4022224774,
     264347078, 604807628, 770255983, 1249150122, 1555081692, 1996064986,
     2554220882, 2821834349, 2952996808, 3210313671, 3336571891, 3584528711,
     113926993, 338241895, 666307205, 773529912, 1294757372, 1396182291,
     1695183700, 1986661051, 2177026350, 2456956037, 2730485921, 2820302411,
     3259730800, 3345764771, 3516065817, 3600352804, 4094571909, 275423344,
     430227734, 506948616, 659060556, 883997877, 958139571, 1322822218,
     1537002063, 1747873779, 1955562222, 2024104815, 2227730452, 2361852424,
     2428436474, 2756734187, 3204031479, 3329325298]"

record sha_state =
  sA :: uint32
  sB :: uint32
  sC :: uint32
  sD :: uint32
  sE :: uint32
  sF :: uint32
  sG :: uint32
  sH :: uint32

definition sha256_init :: sha_state where
  "sha256_init = \<lparr>sA = 0x6a09e667, sB = 0xbb67ae85, sC = 0x3c6ef372, sD = 0xa54ff53a,
     sE = 0x510e527f, sF = 0x9b05688c, sG = 0x1f83d9ab, sH = 0x5be0cd19\<rparr>"

definition rotr32 :: "nat \<Rightarrow> uint32 \<Rightarrow> uint32" where
  "rotr32 n x = drop_bit n x OR push_bit (32 - n) x"

text \<open>The message schedule: sixteen words of the block, then \<open>n\<close> more.\<close>

fun sha256_schedule :: "nat \<Rightarrow> uint32 list \<Rightarrow> uint32 list" where
  "sha256_schedule 0 w = w"
| "sha256_schedule (Suc n) w =
     (let i = length w; v1 = w ! (i - 2); v2 = w ! (i - 15);
          t1 = rotr32 17 v1 XOR rotr32 19 v1 XOR drop_bit 10 v1;
          t2 = rotr32 7 v2 XOR rotr32 18 v2 XOR drop_bit 3 v2
      in sha256_schedule n (w @ [t1 + w ! (i - 7) + t2 + w ! (i - 16)]))"

definition sha256_round :: "uint32 \<times> uint32 \<Rightarrow> sha_state \<Rightarrow> sha_state" where
  "sha256_round kw s =
     (let t1 = sH s + (rotr32 6 (sE s) XOR rotr32 11 (sE s) XOR rotr32 25 (sE s))
              + ((sE s AND sF s) XOR (NOT (sE s) AND sG s)) + fst kw + snd kw;
          t2 = (rotr32 2 (sA s) XOR rotr32 13 (sA s) XOR rotr32 22 (sA s))
              + ((sA s AND sB s) XOR (sA s AND sC s) XOR (sB s AND sC s))
      in \<lparr>sA = t1 + t2, sB = sA s, sC = sB s, sD = sC s,
          sE = sD s + t1, sF = sE s, sG = sF s, sH = sG s\<rparr>)"

definition word32_at :: "bytes \<Rightarrow> nat \<Rightarrow> uint32" where
  "word32_at p i = push_bit 24 (ucast (p ! (4 * i))) OR push_bit 16 (ucast (p ! (4 * i + 1)))
     OR push_bit 8 (ucast (p ! (4 * i + 2))) OR ucast (p ! (4 * i + 3))"

definition sha256_block :: "bytes \<Rightarrow> sha_state \<Rightarrow> sha_state" where
  "sha256_block p h =
     (let w = sha256_schedule 48 (map (word32_at p) [0..<16]);
          s = fold sha256_round (zip sha256_K w) h
      in \<lparr>sA = sA h + sA s, sB = sB h + sB s, sC = sC h + sC s, sD = sD h + sD s,
          sE = sE h + sE s, sF = sF h + sF s, sG = sG h + sG s, sH = sH h + sH s\<rparr>)"

text \<open>The padded message: a one bit, zeros, and the length in bits as 64-bit integer.\<close>

definition sha256_pad :: "bytes \<Rightarrow> bytes" where
  "sha256_pad m = m @ [0x80] @ replicate ((119 - length m mod 64) mod 64) 0
     @ PutUint64 (word_of_nat (8 * length m))"

fun sha256_blocks :: "nat \<Rightarrow> bytes \<Rightarrow> sha_state \<Rightarrow> sha_state" where
  "sha256_blocks 0 p h = h"
| "sha256_blocks (Suc n) p h = sha256_blocks n (drop 64 p) (sha256_block (take 64 p) h)"

definition PutUint32 :: "uint32 \<Rightarrow> bytes" where
  "PutUint32 v = map (\<lambda>i. ucast (drop_bit (24 - 8 * i) v)) [0..<4]"

definition Sum256 :: "bytes \<Rightarrow> bytes" where
  "Sum256 m =
     (let p = sha256_pad m; s = sha256_blocks (length p div 64) p sha256_init
      in concat (map PutUint32 [sA s, sB s, sC s, sD s, sE s, sF s, sG s, sH s]))"

lemma length_PutUint32 [simp]: "length (PutUint32 v) = 4"
  by (simp add: PutUint32_def)

lemma length_PutUint32s: "length (concat (map PutUint32 xs)) = 4 * length xs"
  by (induction xs) simp_all

lemma length_Sum256 [simp]: "length (Sum256 m) = 32"
  by (simp only: Sum256_def Let_def length_PutUint32s) simp

text \<open>The padding fills whole blocks.\<close>

lemma length_sha256_pad: "length (sha256_pad m) mod 64 = 0"
proof -
  define r where "r = length m mod 64"
  then have "r < 64" by simp
  then have e: "r + 9 + (119 - r) = 128" by simp
  have "(length m + 9 + (119 - r)) mod 64 = (r + 9 + (119 - r)) mod 64"
    using mod_add_left_eq [of "length m" 64 "9 + (119 - r)"] by (simp only: r_def add.assoc)
  then have "(length m + 9 + (119 - r) mod 64) mod 64 = 0"
    by (simp only: mod_add_right_eq e) simp
  moreover have "length (sha256_pad m) = length m + 9 + (119 - r) mod 64"
    by (simp add: sha256_pad_def r_def)
  ultimately show ?thesis by simp
qed

end
