(* ===== verification/Proto_Wire.thy ===== *)
theory Proto_Wire
  imports Go_Prelude
begin

text \<open>
  The wire format helpers of the generated message code
  (\<open>go/relay/TendermintZKLightClient.pb.go\<close>; \<open>config.pb.go\<close> holds the same helpers under
  other names): varints, the backwards writer that fills a buffer of the exact size, the
  field loop of \<open>Unmarshal\<close> and \<open>skip\<close>.

  A Go slice of bytes is a list of bytes; a nil slice and an empty one are the same list.
  An index is a \<open>nat\<close>; sums of an index and a length read from the wire are computed as
  64-bit integers (\<open>int64\<close>) and tested for being negative as the code does. An index
  out of range is \<open>PbPanic\<close>.
\<close>

section \<open>Errors\<close>

datatype pb_error =
    ErrIntOverflow
  | ErrInvalidLength
  | ErrUnexpectedEndOfGroup
  | ErrUnexpectedEOF
  | ErrEndGroup string
  | ErrIllegalTag string int uint64
  | ErrWrongWireType int string
  | ErrIllegalWireType int
  | ErrSubmessage string
  | PbPanic

section \<open>Varints\<close>

text \<open>The number of bytes of a varint.\<close>

definition sov :: "uint64 \<Rightarrow> nat" where
  "sov x = (bit_len (unat (x OR 1)) + 6) div 7"

definition soz :: "uint64 \<Rightarrow> nat" where
  "soz x = sov (push_bit 1 x XOR signed_drop_bit 63 x)"

text \<open>
  The writing loop of \<open>encodeVarint\<close>: the bytes of \<open>v\<close> from \<open>offset\<close> on, low groups of
  seven bits first.
\<close>

function put_varint_loop :: "bytes \<Rightarrow> int \<Rightarrow> uint64 \<Rightarrow> pb_error + bytes" where
  "put_varint_loop dAtA offset v =
     (if offset < 0 \<or> int (length dAtA) \<le> offset then Inl PbPanic
      else if 0x80 \<le> v then
        put_varint_loop (dAtA[nat offset := ucast (v AND 0x7F OR 0x80)]) (offset + 1) (drop_bit 7 v)
      else Inr (dAtA[nat offset := ucast v]))"
  by pat_completeness auto
termination
  by (relation "measure (\<lambda>(d, off, v). nat (int (length d) - off))") auto

declare put_varint_loop.simps [simp del]

definition encodeVarint :: "bytes \<Rightarrow> int \<Rightarrow> uint64 \<Rightarrow> pb_error + (bytes \<times> int)" where
  "encodeVarint dAtA offset v =
     (let base = offset - int (sov v) in
      rbind (put_varint_loop dAtA base v) (\<lambda>d. Inr (d, base)))"

text \<open>
  The reading loop: \<open>shift\<close> counts the bits read so far, \<open>acc\<close> is the variable the loop
  fills, of any width (\<open>uint64\<close>, \<open>int\<close>, \<open>int64\<close>: 64 bits, \<open>int32\<close>: 32 bits).
\<close>

function read_varint :: "bytes \<Rightarrow> nat \<Rightarrow> nat \<Rightarrow> 'w::len word \<Rightarrow> pb_error + ('w word \<times> nat)" where
  "read_varint dAtA iNdEx shift acc =
     (if 64 \<le> shift then Inl ErrIntOverflow
      else if length dAtA \<le> iNdEx then Inl ErrUnexpectedEOF
      else
        let b = dAtA ! iNdEx; acc' = acc OR push_bit shift (ucast (b AND 0x7F)) in
        if b < 0x80 then Inr (acc', iNdEx + 1)
        else read_varint dAtA (iNdEx + 1) (shift + 7) acc')"
  by pat_completeness auto
termination
  by (relation "measure (\<lambda>(d, i, s, a). 64 - s)") auto

declare read_varint.simps [simp del]

text \<open>The loop of \<open>skip\<close> that passes over a varint without reading it.\<close>

function skip_varint :: "bytes \<Rightarrow> nat \<Rightarrow> nat \<Rightarrow> pb_error + nat" where
  "skip_varint dAtA iNdEx shift =
     (if 64 \<le> shift then Inl ErrIntOverflow
      else if length dAtA \<le> iNdEx then Inl ErrUnexpectedEOF
      else if dAtA ! iNdEx < 0x80 then Inr (iNdEx + 1)
      else skip_varint dAtA (iNdEx + 1) (shift + 7))"
  by pat_completeness auto
termination
  by (relation "measure (\<lambda>(d, i, s). 64 - s)") auto

declare skip_varint.simps [simp del]

section \<open>The backwards writer\<close>

text \<open>
  \<open>MarshalToSizedBuffer\<close> fills its buffer from the end: its state is the buffer and the
  index \<open>i\<close> of the last byte written. \<open>put_byte\<close> is \<open>i--; dAtA[i] = b\<close>, \<open>put_bytes\<close> is
  \<open>i -= len(bs); copy(dAtA[i:], bs)\<close>, \<open>put_varint\<close> is \<open>i = encodeVarint(dAtA, i, v)\<close>.
\<close>

type_synonym wstate = "bytes \<times> int"
type_synonym writer = "wstate \<Rightarrow> pb_error + wstate"

definition put_byte :: "byte \<Rightarrow> writer" where
  "put_byte b = (\<lambda>(d, i).
     if 0 \<le> i - 1 \<and> i - 1 < int (length d) then Inr (d[nat (i - 1) := b], i - 1) else Inl PbPanic)"

definition put_bytes :: "bytes \<Rightarrow> writer" where
  "put_bytes bs = (\<lambda>(d, i).
     let i' = i - int (length bs) in
     if 0 \<le> i' \<and> i' \<le> int (length d) then Inr (copy_at d (nat i') bs, i') else Inl PbPanic)"

definition put_varint :: "uint64 \<Rightarrow> writer" where
  "put_varint v = (\<lambda>(d, i). encodeVarint d i v)"

fun puts :: "writer list \<Rightarrow> writer" where
  "puts [] st = Inr st"
| "puts (p # ps) st = rbind (p st) (puts ps)"

definition put_when :: "bool \<Rightarrow> writer \<Rightarrow> writer" where
  "put_when c p = (if c then p else Inr)"

text \<open>The three shapes of a field: length-delimited, varint and repeated length-delimited.\<close>

definition put_len_delim :: "byte \<Rightarrow> bytes \<Rightarrow> writer" where
  "put_len_delim tag bs = puts [put_bytes bs, put_varint (word_of_nat (length bs)), put_byte tag]"

definition put_uint :: "byte \<Rightarrow> uint64 \<Rightarrow> writer" where
  "put_uint tag v = puts [put_varint v, put_byte tag]"

definition put_repeated :: "byte \<Rightarrow> bytes list \<Rightarrow> writer" where
  "put_repeated tag bss = puts (map (\<lambda>iNdEx. put_len_delim tag (bss ! iNdEx)) (rev [0..<length bss]))"

text \<open>Running a writer on a whole buffer gives the buffer and \<open>len(dAtA) - i\<close>.\<close>

definition sized_buffer :: "writer \<Rightarrow> bytes \<Rightarrow> pb_error + (bytes \<times> nat)" where
  "sized_buffer w dAtA =
     rbind (w (dAtA, int (length dAtA))) (\<lambda>(d, i). Inr (d, nat (int (length dAtA) - i)))"

text \<open>
  \<open>Marshal\<close>, \<open>MarshalTo\<close> and \<open>XXX_Marshal\<close> (the branch that is not deterministic), over
  the \<open>Size\<close> and the \<open>MarshalToSizedBuffer\<close> of a message. \<open>MarshalTo\<close> slices its buffer
  to the size and panics when the buffer is shorter.
\<close>

definition marshal :: "nat \<Rightarrow> (bytes \<Rightarrow> pb_error + (bytes \<times> nat)) \<Rightarrow> pb_error + bytes" where
  "marshal sz to_sized =
     rbind (to_sized (replicate sz 0)) (\<lambda>(d, n). Inr (take n d))"

definition marshal_to ::
    "nat \<Rightarrow> (bytes \<Rightarrow> pb_error + (bytes \<times> nat)) \<Rightarrow> bytes \<Rightarrow> pb_error + (bytes \<times> nat)" where
  "marshal_to sz to_sized dAtA =
     (if length dAtA < sz then Inl PbPanic
      else rbind (to_sized (take sz dAtA)) (\<lambda>(d, n). Inr (d @ drop sz dAtA, n)))"

definition xxx_marshal :: "(bytes \<Rightarrow> pb_error + (bytes \<times> nat)) \<Rightarrow> bytes \<Rightarrow> pb_error + bytes" where
  "xxx_marshal to_sized b = rbind (to_sized b) (\<lambda>(d, n). Inr (take n d))"


section \<open>Reading fields\<close>

text \<open>
  A field handler is the \<open>switch fieldNum\<close> of one message: from the field number, the
  wire type, the buffer, the index after the tag and the message read so far it gives
  the message with the field stored and the index after the field, an error, or \<open>None\<close>
  for the \<open>default\<close> case.
\<close>

type_synonym 'm handler = "int \<Rightarrow> int \<Rightarrow> bytes \<Rightarrow> nat \<Rightarrow> 'm \<Rightarrow> (pb_error + ('m \<times> nat)) option"

text \<open>The length check and slice of the length-delimited cases.\<close>

definition read_bytes :: "bytes \<Rightarrow> nat \<Rightarrow> pb_error + (bytes \<times> nat)" where
  "read_bytes dAtA iNdEx =
     rbind (read_varint dAtA iNdEx 0 (0 :: 64 word)) (\<lambda>(byteLen, iNdEx).
       if sint byteLen < 0 then Inl ErrInvalidLength
       else
         let postIndex = int64 (int iNdEx + sint byteLen) in
         if postIndex < 0 then Inl ErrInvalidLength
         else if int (length dAtA) < postIndex then Inl ErrUnexpectedEOF
         else Inr (take (nat postIndex - iNdEx) (drop iNdEx dAtA), nat postIndex))"

text \<open>
  The cases of a handler: the wire type test, then the payload; \<open>store\<close> is what the case
  does with it. A submessage is decoded from its slice and may fail.
\<close>

definition bytes_field ::
    "int \<Rightarrow> string \<Rightarrow> bytes \<Rightarrow> nat \<Rightarrow> (bytes \<Rightarrow> 'm) \<Rightarrow> pb_error + ('m \<times> nat)" where
  "bytes_field wireType name dAtA iNdEx store =
     (if wireType \<noteq> 2 then Inl (ErrWrongWireType wireType name)
      else rbind (read_bytes dAtA iNdEx) (\<lambda>(bs, iNdEx). Inr (store bs, iNdEx)))"

definition message_field ::
    "int \<Rightarrow> string \<Rightarrow> bytes \<Rightarrow> nat \<Rightarrow> (bytes \<Rightarrow> pb_error + 'm) \<Rightarrow> pb_error + ('m \<times> nat)" where
  "message_field wireType name dAtA iNdEx store =
     (if wireType \<noteq> 2 then Inl (ErrWrongWireType wireType name)
      else rbind (read_bytes dAtA iNdEx) (\<lambda>(bs, iNdEx).
        rbind (store bs) (\<lambda>m. Inr (m, iNdEx))))"

definition varint_field ::
    "int \<Rightarrow> string \<Rightarrow> bytes \<Rightarrow> nat \<Rightarrow> ('w::len word \<Rightarrow> 'm) \<Rightarrow> pb_error + ('m \<times> nat)" where
  "varint_field wireType name dAtA iNdEx store =
     (if wireType \<noteq> 0 then Inl (ErrWrongWireType wireType name)
      else rbind (read_varint dAtA iNdEx 0 0) (\<lambda>(v, iNdEx). Inr (store v, iNdEx)))"

section \<open>Skipping a field\<close>

text \<open>
  One iteration of \<open>skip\<close>: the tag, then what the wire type says. The index is an \<open>int\<close>
  that \<open>iNdEx += length\<close> may wrap; the test for a negative index comes right after.
\<close>

definition skip_check :: "int \<Rightarrow> nat \<Rightarrow> pb_error + (nat \<times> nat)" where
  "skip_check iNdEx depth = (if iNdEx < 0 then Inl ErrInvalidLength else Inr (nat iNdEx, depth))"

definition skip_step :: "bytes \<Rightarrow> nat \<Rightarrow> nat \<Rightarrow> pb_error + (nat \<times> nat)" where
  "skip_step dAtA iNdEx depth =
     rbind (read_varint dAtA iNdEx 0 (0 :: 64 word)) (\<lambda>(wire, iNdEx).
       let wireType = wire AND 7 in
       if wireType = 0 then
         rbind (skip_varint dAtA iNdEx 0) (\<lambda>iNdEx. skip_check (int iNdEx) depth)
       else if wireType = 1 then skip_check (int64 (int iNdEx + 8)) depth
       else if wireType = 2 then
         rbind (read_varint dAtA iNdEx 0 (0 :: 64 word)) (\<lambda>(len, iNdEx).
           if sint len < 0 then Inl ErrInvalidLength
           else skip_check (int64 (int iNdEx + sint len)) depth)
       else if wireType = 3 then skip_check (int iNdEx) (depth + 1)
       else if wireType = 4 then
         (if depth = 0 then Inl ErrUnexpectedEndOfGroup else skip_check (int iNdEx) (depth - 1))
       else if wireType = 5 then skip_check (int64 (int iNdEx + 4)) depth
       else Inl (ErrIllegalWireType (uint wireType)))"

lemma read_varint_bounds:
  "read_varint d i s a = Inr (v, j) \<Longrightarrow> i < j \<and> j \<le> length d"
proof (induction d i s a rule: read_varint.induct)
  case (1 d i s a)
  show ?case
  proof (cases "64 \<le> s \<or> length d \<le> i \<or> d ! i < 0x80")
    case True
    with "1.prems" show ?thesis
      by (subst (asm) read_varint.simps) (auto simp: Let_def split: if_splits)
  next
    case False
    with "1.prems" have
      "read_varint d (i + 1) (s + 7) (a OR push_bit s (ucast (d ! i AND 0x7F))) = Inr (v, j)"
      by (subst (asm) read_varint.simps) (simp add: Let_def)
    with "1.IH" [OF _ _ refl refl] False have "i + 1 < j \<and> j \<le> length d" by simp
    then show ?thesis by simp
  qed
qed

lemma skip_varint_bounds: "skip_varint d i s = Inr j \<Longrightarrow> i < j \<and> j \<le> length d"
proof (induction d i s rule: skip_varint.induct)
  case (1 d i s)
  show ?case
  proof (cases "64 \<le> s \<or> length d \<le> i \<or> d ! i < 0x80")
    case True
    with "1.prems" show ?thesis
      by (subst (asm) skip_varint.simps) (auto split: if_splits)
  next
    case False
    with "1.prems" have "skip_varint d (i + 1) (s + 7) = Inr j"
      by (subst (asm) skip_varint.simps) simp
    with "1.IH" False have "i + 1 < j \<and> j \<le> length d" by simp
    then show ?thesis by simp
  qed
qed

text \<open>A sum of an index of a slice and a length: it fits, or it wraps to a negative number.\<close>

lemma int64_add_cases:
  assumes "i < max_len" and "0 \<le> k" and "k < 2 ^ 63"
  shows "int64 (int i + k) < 0 \<or> int64 (int i + k) = int i + k"
proof (cases "int i + k < 2 ^ 63")
  case True
  with assms show ?thesis by (simp add: int64_id)
next
  case False
  have "(word_of_int (int i + k) :: 64 word) = word_of_int (int i + k - 2 ^ 64)"
    by (simp only: word_of_int_eq_iff take_bit_eq_mod) simp
  then have "int64 (int i + k) = int64 (int i + k - 2 ^ 64)"
    by (simp only: int64_def)
  also have "\<dots> = int i + k - 2 ^ 64"
    using False assms by (intro int64_id) simp_all
  finally show ?thesis using assms by simp
qed

lemma sint64_bounds: "0 \<le> sint (w :: 64 word) \<Longrightarrow> sint w < 2 ^ 63"
  using sint_lt [of w] by simp

lemma skip_check_Inr: "skip_check x depth = Inr (j, d') \<Longrightarrow> 0 \<le> x \<and> j = nat x \<and> d' = depth"
  by (simp add: skip_check_def split: if_splits)

lemma skip_check_add:
  "skip_check (int64 (int i + k)) depth = Inr (j, d') \<Longrightarrow> i < max_len \<Longrightarrow> 0 \<le> k \<Longrightarrow> k < 2 ^ 63
     \<Longrightarrow> i \<le> j"
  using int64_add_cases [of i k] by (auto dest!: skip_check_Inr)

lemma int64_less: "int64 x < 2 ^ 63"
  using sint_lt [of "word_of_int x :: 64 word"] by (simp add: int64_def)

lemma skip_step_range:
  assumes step: "skip_step d i depth = Inr (j, depth')" and len: "length d < max_len"
  shows "j < max_len"
proof -
  from step obtain x n where c: "skip_check x n = Inr (j, depth')" and x: "x < 2 ^ 63"
  proof -
    from step obtain wire k where w: "read_varint d i 0 (0 :: 64 word) = Inr (wire, k)"
      by (auto simp: skip_step_def)
    then have "k < max_len" using read_varint_bounds len by fastforce
    moreover have "skip_varint d k 0 = Inr k' \<Longrightarrow> k' < max_len" for k'
      using skip_varint_bounds len by fastforce
    ultimately show ?thesis
      using step that int64_less by (auto simp: skip_step_def w Let_def split: if_splits)
  qed
  from skip_check_Inr [OF c] x show ?thesis by auto
qed

lemma skip_step_progress:
  assumes step: "skip_step d i depth = Inr (j, depth')" and len: "length d < max_len"
  shows "i < j"
proof -
  from step obtain wire k where w: "read_varint d i 0 (0 :: 64 word) = Inr (wire, k)"
    by (auto simp: skip_step_def)
  then have k: "i < k" "k < max_len" using read_varint_bounds len by fastforce+
  consider k' where "skip_varint d k 0 = Inr k'" "skip_check (int k') depth = Inr (j, depth')"
    | n where "skip_check (int64 (int k + n)) depth = Inr (j, depth')" "0 \<le> n" "n < 2 ^ 63"
    | v :: "64 word" and k' where "read_varint d k 0 0 = Inr (v, k')" "0 \<le> sint v"
        "skip_check (int64 (int k' + sint v)) depth = Inr (j, depth')"
    | n where "skip_check (int k) n = Inr (j, depth')"
    using step by (auto simp: skip_step_def w Let_def not_less split: if_splits)
  then show ?thesis
  proof cases
    case 1
    with k show ?thesis by (auto dest!: skip_varint_bounds skip_check_Inr)
  next
    case 2
    with k skip_check_add show ?thesis by (meson less_le_trans)
  next
    case 3
    from read_varint_bounds [OF 3(1)] k len have "k < k'" "k' < max_len" by simp_all
    with 3 k skip_check_add sint64_bounds show ?thesis by (meson less_le_trans less_trans)
  next
    case 4
    with k show ?thesis by (auto dest!: skip_check_Inr)
  qed
qed

text \<open>
  \<open>skip\<close> gives the number of bytes of one field, nested groups included. The second
  conjunct of the guard holds of every Go slice.
\<close>

function skip_loop :: "bytes \<Rightarrow> nat \<Rightarrow> nat \<Rightarrow> pb_error + nat" where
  "skip_loop dAtA iNdEx depth =
     (if iNdEx < length dAtA \<and> length dAtA < max_len then
        (case skip_step dAtA iNdEx depth of
           Inl e \<Rightarrow> Inl e
         | Inr (iNdEx', depth') \<Rightarrow>
             if depth' = 0 then Inr iNdEx' else skip_loop dAtA iNdEx' depth')
      else Inl ErrUnexpectedEOF)"
  by pat_completeness auto
termination
  by (relation "measure (\<lambda>(d, i, n). length d - i)") (auto dest: skip_step_progress)

declare skip_loop.simps [simp del]

definition skip :: "bytes \<Rightarrow> pb_error + nat" where
  "skip dAtA = skip_loop dAtA 0 0"

lemma skip_loop_progress: "skip_loop d i n = Inr j \<Longrightarrow> i < j"
proof (induction d i n rule: skip_loop.induct)
  case (1 d i n)
  from "1.prems" have g: "i < length d" "length d < max_len"
    by (subst (asm) skip_loop.simps, simp split: if_splits)+
  from "1.prems" g obtain i' n' where st: "skip_step d i n = Inr (i', n')"
    and r: "(if n' = 0 then Inr i' else skip_loop d i' n') = Inr j"
    by (subst (asm) skip_loop.simps) (auto split: sum.splits)
  have "i < i'" by (rule skip_step_progress [OF st g(2)])
  with r "1.IH" [OF conjI [OF g] st refl] show ?case by (fastforce split: if_splits)
qed

lemma skip_loop_range: "skip_loop d i n = Inr j \<Longrightarrow> j < max_len"
proof (induction d i n rule: skip_loop.induct)
  case (1 d i n)
  from "1.prems" have g: "i < length d" "length d < max_len"
    by (subst (asm) skip_loop.simps, simp split: if_splits)+
  from "1.prems" g obtain i' n' where st: "skip_step d i n = Inr (i', n')"
    and r: "(if n' = 0 then Inr i' else skip_loop d i' n') = Inr j"
    by (subst (asm) skip_loop.simps) (auto split: sum.splits)
  have "i' < max_len" by (rule skip_step_range [OF st g(2)])
  with r "1.IH" [OF conjI [OF g] st refl] show ?case by (fastforce split: if_splits)
qed

section \<open>The field loop\<close>

text \<open>
  One iteration of \<open>Unmarshal\<close>: the tag, the checks on it, the field, or \<open>skip\<close> from the
  index before the tag.
\<close>

definition unmarshal_step ::
    "string \<Rightarrow> 'm handler \<Rightarrow> bytes \<Rightarrow> nat \<Rightarrow> 'm \<Rightarrow> pb_error + ('m \<times> nat)" where
  "unmarshal_step name fld dAtA preIndex m =
     rbind (read_varint dAtA preIndex 0 (0 :: 64 word)) (\<lambda>(wire, iNdEx).
       let fieldNum = sint (ucast (drop_bit 3 wire) :: 32 word); wireType = uint (wire AND 7) in
       if wireType = 4 then Inl (ErrEndGroup name)
       else if fieldNum \<le> 0 then Inl (ErrIllegalTag name fieldNum wire)
       else
         (case fld fieldNum wireType dAtA iNdEx m of
            Some r \<Rightarrow> r
          | None \<Rightarrow>
              rbind (skip (drop preIndex dAtA)) (\<lambda>skippy.
                let next = int64 (int preIndex + int skippy) in
                if next < 0 then Inl ErrInvalidLength
                else if int (length dAtA) < next then Inl ErrUnexpectedEOF
                else Inr (m, nat next))))"

partial_function (option) unmarshal_loop ::
    "string \<Rightarrow> 'm handler \<Rightarrow> bytes \<Rightarrow> nat \<Rightarrow> 'm \<Rightarrow> (pb_error + 'm) option" where
  "unmarshal_loop name fld dAtA iNdEx m =
     (if iNdEx < length dAtA then
        (case unmarshal_step name fld dAtA iNdEx m of
           Inl e \<Rightarrow> Some (Inl e)
         | Inr p \<Rightarrow> unmarshal_loop name fld dAtA (snd p) (fst p))
      else if length dAtA < iNdEx then Some (Inl ErrUnexpectedEOF)
      else Some (Inr m))"

text \<open>\<open>Unmarshal\<close> of a receiver \<open>m\<close>; \<open>None\<close> is "does not return".\<close>

definition unmarshal :: "string \<Rightarrow> 'm handler \<Rightarrow> bytes \<Rightarrow> 'm \<Rightarrow> (pb_error + 'm) option" where
  "unmarshal name fld dAtA m = unmarshal_loop name fld dAtA 0 m"

section \<open>The encodings as byte strings\<close>

text \<open>
  The specification the writers are compared with: the bytes of a varint, in order, and
  the fields as a tag byte followed by their payload.
\<close>

lemma unat_drop_7: "unat (drop_bit 7 (v :: uint64)) = unat v div 128"
  using unat_drop_bit_eq [of 7 v] by (simp only: drop_bit_eq_div [of 7 "unat v"]) simp

lemma unat_or_1: "unat (v OR 1 :: uint64) = unat v OR 1"
  by (simp add: unsigned_or_eq)

function uvarint :: "uint64 \<Rightarrow> bytes" where
  "uvarint v = (if 0x80 \<le> v then ucast (v AND 0x7F OR 0x80) # uvarint (drop_bit 7 v) else [ucast v])"
  by pat_completeness auto
termination
proof (relation "measure unat")
  fix v :: uint64
  assume "0x80 \<le> v"
  then have "128 \<le> unat v" by (simp add: word_le_nat_alt)
  then show "(drop_bit 7 v, v) \<in> measure unat"
    by (simp add: unat_drop_7)
qed auto

declare uvarint.simps [simp del]

definition enc_bytes :: "byte \<Rightarrow> bytes \<Rightarrow> bytes" where
  "enc_bytes tag bs = tag # uvarint (word_of_nat (length bs)) @ bs"

definition enc_uint :: "byte \<Rightarrow> uint64 \<Rightarrow> bytes" where
  "enc_uint tag v = tag # uvarint v"

definition enc_opt_bytes :: "byte \<Rightarrow> bytes \<Rightarrow> bytes" where
  "enc_opt_bytes tag bs = (if bs = [] then [] else enc_bytes tag bs)"

definition enc_opt_uint :: "byte \<Rightarrow> uint64 \<Rightarrow> bytes" where
  "enc_opt_uint tag v = (if v = 0 then [] else enc_uint tag v)"

definition enc_repeated :: "byte \<Rightarrow> bytes list \<Rightarrow> bytes" where
  "enc_repeated tag bss = concat (map (enc_bytes tag) bss)"

lemma uvarint_big: "0x80 \<le> v \<Longrightarrow> uvarint v = ucast (v AND 0x7F OR 0x80) # uvarint (drop_bit 7 v)"
  by (subst uvarint.simps) simp

lemma uvarint_small: "v < 0x80 \<Longrightarrow> uvarint v = [ucast v]"
  by (subst uvarint.simps) (simp add: not_le [symmetric])

lemma uvarint_not_Nil [simp]: "uvarint v \<noteq> []"
  by (subst uvarint.simps) simp

lemma sov_small: "v < 0x80 \<Longrightarrow> sov v = 1"
proof -
  assume "v < 0x80"
  then have n: "unat v < 2 ^ 7" by (simp add: word_less_nat_alt)
  let ?n = "unat v OR 1"
  have eq: "?n = unat v + of_bool (even (unat v))"
    by (simp add: or_Suc_0_eq)
  with n have "?n < 2 ^ 7" and "0 < ?n" by (auto intro: odd_pos)
  then have "bit_len ?n \<le> 7" and "0 < bit_len ?n"
    by (simp_all only: bit_len_le_iff) (simp only: bit_len_pos)
  then show ?thesis by (simp add: sov_def unat_or_1)
qed

lemma sov_big: "0x80 \<le> v \<Longrightarrow> sov v = 1 + sov (drop_bit 7 v)"
proof -
  assume "0x80 \<le> v"
  then have n: "2 ^ 7 \<le> unat v" by (simp add: word_le_nat_alt)
  then have pos: "0 < unat v" "0 < unat v div 128" by simp_all
  have "bit_len (unat v) = 7 + bit_len (unat v div 128)"
    using bit_len_shift [OF n] by simp
  then show ?thesis
    using pos by (simp add: sov_def unat_or_1 unat_drop_7 bit_len_or_1 del: One_nat_def)
qed

lemma sov_le: "sov v \<le> 10"
proof -
  have "unat (v OR 1) < 2 ^ 64" using unsigned_less [of "v OR 1"] by simp
  then have "bit_len (unat (v OR 1)) \<le> 64" by (simp add: bit_len_le_iff)
  then show ?thesis by (simp add: sov_def)
qed

lemma length_uvarint: "length (uvarint v) = sov v"
proof (induction v rule: uvarint.induct)
  case (1 v)
  then show ?case
  proof (cases "0x80 \<le> v")
    case True
    with 1 show ?thesis by (simp add: uvarint_big sov_big)
  next
    case False
    then have "v < 0x80" by simp
    then show ?thesis by (simp add: uvarint_small sov_small)
  qed
qed

section \<open>Writers write their encoding\<close>

text \<open>
  \<open>writes w e\<close>: from any buffer with room for \<open>e\<close> before the index, \<open>w\<close> puts \<open>e\<close> there,
  moves the index to its first byte and leaves every other byte alone. It never panics
  there.
\<close>

definition writes :: "writer \<Rightarrow> bytes \<Rightarrow> bool" where
  "writes w e \<longleftrightarrow> (\<forall>d j. j + length e \<le> length d \<longrightarrow>
     w (d, int (j + length e)) = Inr (take j d @ e @ drop (j + length e) d, int j))"

named_theorems writes_intros "what each writer writes"

lemma writesI:
  assumes "\<And>d j. j + length e \<le> length d \<Longrightarrow>
     w (d, int (j + length e)) = Inr (take j d @ e @ drop (j + length e) d, int j)"
  shows "writes w e"
  using assms by (simp add: writes_def)

lemma writesD:
  "writes w e \<Longrightarrow> j + length e \<le> length d \<Longrightarrow>
     w (d, int (j + length e)) = Inr (take j d @ e @ drop (j + length e) d, int j)"
  by (simp add: writes_def)

lemma writes_put_byte [writes_intros]: "writes (put_byte b) [b]"
  by (rule writesI) (simp add: put_byte_def upd_conv_take_nth_drop)

lemma writes_put_bytes [writes_intros]: "writes (put_bytes bs) bs"
  by (rule writesI) (simp add: put_bytes_def copy_at_fits Let_def)

lemma put_varint_loop_eq:
  "off + length (uvarint v) \<le> length d \<Longrightarrow>
     put_varint_loop d (int off) v = Inr (take off d @ uvarint v @ drop (off + length (uvarint v)) d)"
proof (induction v arbitrary: d off rule: uvarint.induct)
  case (1 v)
  show ?case
  proof (cases "0x80 \<le> v")
    case True
    let ?b = "ucast (v AND 0x7F OR 0x80) :: byte"
    have off: "off < length d" "Suc off + length (uvarint (drop_bit 7 v)) \<le> length (d[off := ?b])"
      using "1.prems" by (simp_all add: uvarint_big [OF True])
    have "put_varint_loop d (int off) v = put_varint_loop (d[off := ?b]) (int (Suc off)) (drop_bit 7 v)"
      using True off(1) by (subst put_varint_loop.simps) (simp add: add.commute)
    also have "\<dots> = Inr (take (Suc off) (d[off := ?b]) @ uvarint (drop_bit 7 v)
        @ drop (Suc off + length (uvarint (drop_bit 7 v))) (d[off := ?b]))"
      by (rule "1.IH" [OF True off(2)])
    finally show ?thesis
      using off(1) by (simp add: uvarint_big [OF True] take_Suc_conv_app_nth)
  next
    case False
    then have v: "v < 0x80" by simp
    with False show ?thesis
      using "1.prems" by (subst put_varint_loop.simps)
        (simp add: uvarint_small [OF v] upd_conv_take_nth_drop)
  qed
qed

lemma writes_put_varint [writes_intros]: "writes (put_varint v) (uvarint v)"
proof (rule writesI)
  fix d :: bytes and j
  assume h: "j + length (uvarint v) \<le> length d"
  have "int (j + length (uvarint v)) - int (sov v) = int j"
    by (simp add: length_uvarint)
  then show "put_varint v (d, int (j + length (uvarint v))) =
      Inr (take j d @ uvarint v @ drop (j + length (uvarint v)) d, int j)"
    by (simp only: put_varint_def encodeVarint_def Let_def case_prod_conv
        put_varint_loop_eq [OF h] rbind_Inr)
qed

lemma writes_Nil [writes_intros]: "writes (puts []) []"
  by (rule writesI) simp

lemma writes_Cons:
  assumes p: "writes p e" and ps: "writes (puts ps) es"
  shows "writes (puts (p # ps)) (es @ e)"
proof (rule writesI)
  fix d :: bytes and j
  assume h: "j + length (es @ e) \<le> length d"
  let ?k = "j + length es"
  let ?d = "take ?k d @ e @ drop (?k + length e) d"
  have "p (d, int (?k + length e)) = Inr (?d, int ?k)"
    using h by (intro writesD [OF p]) simp
  moreover have "puts ps (?d, int ?k) = Inr (take j ?d @ es @ drop ?k ?d, int j)"
    using h by (intro writesD [OF ps]) simp
  moreover have "j + length (es @ e) = ?k + length e" by simp
  ultimately show "puts (p # ps) (d, int (j + length (es @ e))) =
      Inr (take j d @ (es @ e) @ drop (j + length (es @ e)) d, int j)"
    using h by (simp add: add.assoc del: of_nat_add)
qed

lemma writes_when [writes_intros]: "writes p e \<Longrightarrow> writes (put_when c p) (if c then e else [])"
  by (simp add: put_when_def writes_def)

lemma writes_puts_map:
  assumes "\<And>x. x \<in> set xs \<Longrightarrow> writes (f x) (e x)"
  shows "writes (puts (map f xs)) (concat (map e (rev xs)))"
  using assms
proof (induction xs)
  case Nil
  then show ?case by (simp add: writes_def)
next
  case (Cons x xs)
  then have "writes (puts (f x # map f xs)) (concat (map e (rev xs)) @ e x)"
    by (intro writes_Cons) simp_all
  then show ?case by (simp del: puts.simps)
qed

lemma writes_len_delim [writes_intros]: "writes (put_len_delim tag bs) (enc_bytes tag bs)"
  using writes_Cons [OF writes_put_bytes writes_Cons [OF writes_put_varint writes_Cons [OF writes_put_byte writes_Nil]]]
  by (simp add: put_len_delim_def enc_bytes_def)

lemma writes_uint [writes_intros]: "writes (put_uint tag v) (enc_uint tag v)"
  using writes_Cons [OF writes_put_varint writes_Cons [OF writes_put_byte writes_Nil]]
  by (simp add: put_uint_def enc_uint_def)

lemma writes_opt_bytes [writes_intros]:
  "writes (put_when (0 < length bs) (put_len_delim tag bs)) (enc_opt_bytes tag bs)"
  using writes_when [OF writes_len_delim, of "0 < length bs" tag bs]
  by (simp add: enc_opt_bytes_def split: if_splits)

lemma writes_opt_uint [writes_intros]: "writes (put_when (v \<noteq> 0) (put_uint tag v)) (enc_opt_uint tag v)"
  using writes_when [OF writes_uint, of "v \<noteq> 0" tag v] by (simp add: enc_opt_uint_def split: if_splits)

lemma writes_repeated [writes_intros]: "writes (put_repeated tag bss) (enc_repeated tag bss)"
proof -
  have "writes (put_repeated tag bss)
      (concat (map (\<lambda>k. enc_bytes tag (bss ! k)) (rev (rev [0..<length bss]))))"
    unfolding put_repeated_def by (rule writes_puts_map) (rule writes_len_delim)
  moreover have "map (\<lambda>k. enc_bytes tag (bss ! k)) [0..<length bss] = map (enc_bytes tag) bss"
    by (rule nth_equalityI) simp_all
  ultimately show ?thesis by (simp add: enc_repeated_def)
qed

text \<open>A writer on a buffer with room for its encoding.\<close>

lemma sized_buffer_eq:
  assumes "writes w e" and "length e \<le> length d"
  shows "sized_buffer w d = Inr (take (length d - length e) d @ e, length e)"
proof -
  have n: "(length d - length e) + length e = length d" using assms(2) by simp
  have "w (d, int (length d)) = Inr (take (length d - length e) d @ e, int (length d - length e))"
    using writesD [OF assms(1), of "length d - length e" d] by (simp only: n) simp
  then show ?thesis using assms(2) by (simp add: sized_buffer_def)
qed

section \<open>Reading what was written\<close>

lemma mask_7: "(0x7F :: 'a::len word) = mask 7"
  by (simp add: mask_eq_exp_minus_1)

lemma bit_128: "bit (0x80 :: 'a::len word) n \<longleftrightarrow> n = 7 \<and> n < LENGTH('a)"
proof -
  have "(0x80 :: 'a word) = 2 ^ 7" by simp
  then show ?thesis by (simp only: bit_exp_iff possible_bit_word) auto
qed

lemma low_group:
  "ucast ((ucast (v AND 0x7F OR 0x80 :: uint64) :: byte) AND 0x7F) = (ucast (v AND 0x7F) :: 'w::len word)"
proof (rule bit_word_eqI)
  fix n
  have "n < 7 \<Longrightarrow> \<not> bit (0x80 :: uint64) n"
    by (subst bit_128) simp
  moreover have "n < 7 \<Longrightarrow> \<not> bit (0x80 :: byte) n"
    by (subst bit_128) simp
  ultimately show "bit (ucast ((ucast (v AND 0x7F OR 0x80) :: byte) AND 0x7F) :: 'w word) n \<longleftrightarrow>
      bit (ucast (v AND 0x7F) :: 'w word) n"
    by (auto simp: mask_7 bit_simps)
qed

lemma join_groups:
  "ucast (v AND 0x7F :: uint64) OR push_bit 7 (ucast (drop_bit 7 v)) = (ucast v :: 'w::len word)"
proof (rule bit_word_eqI)
  fix n
  assume "n < LENGTH('w)"
  then show "bit (ucast (v AND 0x7F) OR push_bit 7 (ucast (drop_bit 7 v)) :: 'w word) n \<longleftrightarrow>
      bit (ucast v :: 'w word) n"
    using bit_imp_le_length [of v n] by (cases "n < 7") (auto simp: mask_7 bit_simps)
qed

lemma small_group: "v < 0x80 \<Longrightarrow> ucast ((ucast (v :: uint64) :: byte) AND 0x7F) = (ucast v :: 'w::len word)"
proof -
  assume "v < 0x80"
  then have "unat (take_bit 7 v) = unat v"
    by (simp add: word_less_nat_alt unsigned_take_bit_eq take_bit_nat_eq_self)
  then have "v AND mask 7 = v"
    by (simp only: word_unat_eq_iff flip: take_bit_eq_mask)
  moreover have "ucast ((ucast (v :: uint64) :: byte) AND mask 7) = (ucast (v AND mask 7) :: 'w word)"
    by (rule bit_word_eqI) (auto simp: bit_simps)
  ultimately show ?thesis by (simp add: mask_7)
qed

lemma continuation_byte:
  "\<not> (ucast (v AND 0x7F OR 0x80 :: uint64) :: byte) < 0x80"
proof -
  have "bit (ucast (v AND 0x7F OR 0x80 :: uint64) :: byte) 7"
    by (simp add: bit_simps bit_128)
  moreover have "\<not> bit b 7" if "b < 0x80" for b :: byte
  proof -
    from that have "unat b div 2 ^ 7 = 0" by (simp add: word_less_nat_alt)
    then have "\<not> bit (unat b) 7" by (simp only: bit_iff_odd) simp
    then show ?thesis by (simp add: bit_unsigned_iff)
  qed
  ultimately show ?thesis by blast
qed

lemma groups_left:
  fixes v :: "64 word"
  assumes "0x80 \<le> v" and "unat v < 2 ^ (64 - s)"
  shows "s + 7 < 64" "unat (drop_bit 7 v) < 2 ^ (64 - (s + 7))"
proof -
  have "2 ^ 7 \<le> unat v" using assms(1) by (simp add: word_le_nat_alt)
  with assms(2) have "(2 :: nat) ^ 7 < 2 ^ (64 - s)" by linarith
  then have "7 < 64 - s" by (rule power_less_imp_less_exp [rotated]) simp
  then show s: "s + 7 < 64" by simp
  have "(2 :: nat) ^ (64 - s) = 128 * 2 ^ (64 - (s + 7))"
    using s power_add [of "2 :: nat" 7 "64 - (s + 7)"] by simp
  with assms(2) show "unat (drop_bit 7 v) < 2 ^ (64 - (s + 7))"
    by (simp add: unat_drop_7 less_mult_imp_div_less mult.commute)
qed

lemma read_varint_uvarint:
  assumes "drop i d = uvarint v @ rest" and "s < 64" and "unat v < 2 ^ (64 - s)"
  shows "read_varint d i s (acc :: 'w::len word) =
    Inr (acc OR push_bit s (ucast v), i + length (uvarint v))"
  using assms
proof (induction v arbitrary: i s acc rule: uvarint.induct)
  case (1 v)
  show ?case
  proof (cases "0x80 \<le> v")
    case True
    let ?b = "ucast (v AND 0x7F OR 0x80) :: byte"
    from "1.prems"(1) have d: "drop i d = ?b # uvarint (drop_bit 7 v) @ rest"
      by (simp add: uvarint_big [OF True])
    then have i: "i < length d" "d ! i = ?b" by (auto dest: nth_of_drop)
    have d': "drop (i + 1) d = uvarint (drop_bit 7 v) @ rest"
      using drop_add_append [of i d "[?b]"] d by simp
    note s = groups_left [OF True "1.prems"(3)]
    from s(2) have "read_varint d (i + 1) (s + 7) (acc OR push_bit s (ucast (?b AND 0x7F))) =
        Inr ((acc OR push_bit s (ucast (?b AND 0x7F))) OR push_bit (s + 7) (ucast (drop_bit 7 v)),
          i + 1 + length (uvarint (drop_bit 7 v)))"
      by (rule "1.IH" [OF True d' s(1)])
    moreover have "push_bit s (ucast (?b AND 0x7F)) OR push_bit (s + 7) (ucast (drop_bit 7 v)) =
        (push_bit s (ucast v) :: 'w word)"
      by (simp only: low_group push_bit_push_bit [symmetric] join_groups flip: push_bit_or)
    ultimately show ?thesis
      using "1.prems"(2) i continuation_byte [of v]
      by (subst read_varint.simps) (simp add: uvarint_big [OF True] Let_def or.assoc)
  next
    case False
    then have v: "v < 0x80" by simp
    from "1.prems"(1) have d: "drop i d = ucast v # rest"
      by (simp add: uvarint_small [OF v])
    then have i: "i < length d" "d ! i = ucast v" by (auto dest: nth_of_drop)
    have "(ucast v :: byte) < 0x80"
      using v by (simp add: word_less_nat_alt unsigned_ucast_eq take_bit_nat_eq_self)
    then show ?thesis
      using "1.prems"(2) i by (subst read_varint.simps) (simp add: uvarint_small [OF v] small_group [OF v] Let_def)
  qed
qed

corollary read_varint_0:
  "drop i d = uvarint v @ rest \<Longrightarrow> read_varint d i 0 (0 :: 'w::len word) = Inr (ucast v, i + length (uvarint v))"
  using read_varint_uvarint [of i d v rest 0 0] unsigned_less [of v] by simp

section \<open>Handlers consume what was written\<close>

text \<open>
  \<open>feeds name fld e m m'\<close>: wherever the bytes \<open>e\<close> stand in a buffer, the field loop moves
  over them and turns the message \<open>m\<close> into \<open>m'\<close>. It is the reading side of \<open>writes\<close>.
\<close>

definition feeds :: "string \<Rightarrow> 'm handler \<Rightarrow> bytes \<Rightarrow> 'm \<Rightarrow> 'm \<Rightarrow> bool" where
  "feeds name fld e m m' \<longleftrightarrow> (\<forall>d i rest. length d < max_len \<longrightarrow> drop i d = e @ rest \<longrightarrow>
     unmarshal_loop name fld d i m = unmarshal_loop name fld d (i + length e) m')"

named_theorems feeds_intros "what the field loop does with each kind of field"

lemma feedsI:
  assumes "\<And>d i rest. length d < max_len \<Longrightarrow> drop i d = e @ rest \<Longrightarrow>
     unmarshal_loop name fld d i m = unmarshal_loop name fld d (i + length e) m'"
  shows "feeds name fld e m m'"
  using assms unfolding feeds_def by blast

lemma feedsD:
  "feeds name fld e m m' \<Longrightarrow> length d < max_len \<Longrightarrow> drop i d = e @ rest \<Longrightarrow>
     unmarshal_loop name fld d i m = unmarshal_loop name fld d (i + length e) m'"
  unfolding feeds_def by blast

lemma feeds_Nil: "feeds name fld [] m m"
  by (rule feedsI) simp

lemma feeds_append:
  assumes "feeds name fld e m m'" and "feeds name fld e' m' m''"
  shows "feeds name fld (e @ e') m m''"
proof (rule feedsI)
  fix d i rest
  assume d: "length d < max_len" "drop i d = (e @ e') @ rest"
  then have d1: "drop i d = e @ (e' @ rest)" by simp
  from feedsD [OF assms(1) d(1) d1] feedsD [OF assms(2) d(1) drop_add_append [OF d1]]
  show "unmarshal_loop name fld d i m = unmarshal_loop name fld d (i + length (e @ e')) m''"
    by (simp add: add.assoc)
qed

lemma unmarshal_loop_end: "unmarshal_loop name fld d (length d) m = Some (Inr m)"
  by (subst unmarshal_loop.simps) simp

lemma unmarshal_loop_step:
  "i < length d \<Longrightarrow> unmarshal_step name fld d i m = Inr (m', j) \<Longrightarrow>
     unmarshal_loop name fld d i m = unmarshal_loop name fld d j m'"
  by (subst unmarshal_loop.simps) simp

lemma unmarshal_loop_error:
  "i < length d \<Longrightarrow> unmarshal_step name fld d i m = Inl e \<Longrightarrow>
     unmarshal_loop name fld d i m = Some (Inl e)"
  by (subst unmarshal_loop.simps) simp

lemma unmarshal_feeds:
  "feeds name fld e m m' \<Longrightarrow> length e < max_len \<Longrightarrow> unmarshal name fld e m = Some (Inr m')"
  using feedsD [of name fld e m m' e 0 "[]"] by (simp add: unmarshal_def unmarshal_loop_end)

text \<open>A tag byte below \<open>0x80\<close> holds the field number and the wire type.\<close>

definition tag_num :: "byte \<Rightarrow> int" where
  "tag_num t = sint (ucast (drop_bit 3 (ucast t :: uint64)) :: 32 word)"

definition tag_type :: "byte \<Rightarrow> int" where
  "tag_type t = uint ((ucast t :: uint64) AND 7)"

lemma uvarint_tag: "t < 0x80 \<Longrightarrow> uvarint (ucast (t :: byte)) = [t]"
proof -
  assume "t < 0x80"
  then have "(ucast t :: uint64) < 0x80"
    by (simp add: word_less_nat_alt unsigned_ucast_eq take_bit_nat_eq_self
        less_trans [OF unsigned_less])
  moreover have "(ucast (ucast t :: uint64) :: byte) = t"
    by (rule bit_word_eqI) (simp add: bit_simps)
  ultimately show ?thesis by (simp add: uvarint_small)
qed

lemma read_tag:
  "t < 0x80 \<Longrightarrow> drop i d = t # rest \<Longrightarrow> read_varint d i 0 (0 :: uint64) = Inr (ucast t, i + 1)"
  using read_varint_0 [of i d "ucast t" rest, where ?'w = 64] by (simp add: uvarint_tag)

lemma unmarshal_step_field:
  assumes "t < 0x80" and "tag_type t \<noteq> 4" and "0 < tag_num t" and "drop i d = t # rest"
    and "fld (tag_num t) (tag_type t) d (i + 1) m = Some r"
  shows "unmarshal_step name fld d i m = r"
  using assms by (simp add: unmarshal_step_def read_tag Let_def tag_num_def tag_type_def)

lemma feeds_field:
  assumes "t < 0x80" and "tag_type t \<noteq> 4" and "0 < tag_num t"
    and "\<And>d i rest. length d < max_len \<Longrightarrow> drop i d = payload @ rest \<Longrightarrow>
       fld (tag_num t) (tag_type t) d i m = Some (Inr (m', i + length payload))"
  shows "feeds name fld (t # payload) m m'"
proof (rule feedsI)
  fix d i rest
  assume d: "length d < max_len" "drop i d = (t # payload) @ rest"
  then have "drop (i + 1) d = payload @ rest"
    using drop_add_append [of i d "[t]"] by simp
  from assms(4) [OF d(1) this]
  have "unmarshal_step name fld d i m = Inr (m', i + 1 + length payload)"
    using d(2) by (intro unmarshal_step_field [OF assms(1-3)]) simp_all
  moreover have "i < length d" using nth_of_drop d(2) by fastforce
  ultimately show "unmarshal_loop name fld d i m = unmarshal_loop name fld d (i + length (t # payload)) m'"
    by (simp add: unmarshal_loop_step)
qed

lemma read_bytes_enc:
  assumes d: "drop i d = uvarint (word_of_nat (length bs)) @ bs @ rest" and len: "length d < max_len"
  shows "read_bytes d i = Inr (bs, i + length (uvarint (word_of_nat (length bs))) + length bs)"
proof -
  let ?l = "word_of_nat (length bs) :: 64 word"
  let ?k = "i + length (uvarint ?l)"
  have tot: "?k + length bs \<le> length d"
    using drop_length_bound [OF d] by simp
  with len have "length bs < max_len" by simp
  then have "sint ?l = int (length bs)" by (rule sint_of_nat_64)
  moreover have "int64 (int ?k + int (length bs)) = int (?k + length bs)"
    using tot len by (subst int64_id) simp_all
  moreover have "drop ?k d = bs @ rest" using drop_add_append [OF d] .
  ultimately show ?thesis
    using tot by (simp add: read_bytes_def read_varint_0 [OF d] Let_def nat_add_distrib)
qed

lemma bytes_field_enc:
  "drop i d = uvarint (word_of_nat (length bs)) @ bs @ rest \<Longrightarrow> length d < max_len \<Longrightarrow>
     bytes_field 2 name d i store = Inr (store bs, i + length (uvarint (word_of_nat (length bs)) @ bs))"
  by (simp add: bytes_field_def read_bytes_enc)

lemma message_field_enc:
  "drop i d = uvarint (word_of_nat (length bs)) @ bs @ rest \<Longrightarrow> length d < max_len \<Longrightarrow> store bs = Inr m' \<Longrightarrow>
     message_field 2 name d i store = Inr (m', i + length (uvarint (word_of_nat (length bs)) @ bs))"
  by (simp add: message_field_def read_bytes_enc)

lemma varint_field_enc:
  "drop i d = uvarint v @ rest \<Longrightarrow>
     varint_field 0 name d i store = Inr (store (ucast v), i + length (uvarint v))"
  by (simp add: varint_field_def read_varint_0)

text \<open>The three kinds of field, for a handler whose case stores the payload with \<open>upd\<close>.\<close>

lemma feeds_enc_bytes:
  assumes "t < 0x80" and "tag_type t = 2" and "0 < tag_num t"
    and "\<And>d i. fld (tag_num t) 2 d i m = Some (bytes_field 2 fname d i store)"
  shows "feeds name fld (enc_bytes t bs) m (store bs)"
  unfolding enc_bytes_def
  by (rule feeds_field) (use assms in \<open>simp_all add: bytes_field_enc\<close>)

lemma feeds_enc_uint:
  assumes "t < 0x80" and "tag_type t = 0" and "0 < tag_num t"
    and "\<And>d i. fld (tag_num t) 0 d i m = Some (varint_field 0 fname d i store)"
  shows "feeds name fld (enc_uint t v) m (store (ucast v))"
  unfolding enc_uint_def
  by (rule feeds_field) (use assms in \<open>simp_all add: varint_field_enc\<close>)

lemma feeds_enc_message:
  assumes "t < 0x80" and "tag_type t = 2" and "0 < tag_num t"
    and "\<And>d i. fld (tag_num t) 2 d i m = Some (message_field 2 fname d i store)"
    and "store bs = Inr m'"
  shows "feeds name fld (enc_bytes t bs) m m'"
  unfolding enc_bytes_def
  by (rule feeds_field) (use assms in \<open>simp_all add: message_field_enc\<close>)

text \<open>Optional fields: a zero value is not written, and the message keeps the zero it has.\<close>

lemma feeds_opt_bytes:
  assumes "t < 0x80" and "tag_type t = 2" and "0 < tag_num t"
    and "\<And>d i. fld (tag_num t) 2 d i m = Some (bytes_field 2 fname d i store)"
    and "store [] = m"
  shows "feeds name fld (enc_opt_bytes t bs) m (store bs)"
  using feeds_enc_bytes [of t fld m fname store name bs, OF assms(1-4)] feeds_Nil [of name fld m] assms(5)
  by (cases "bs = []") (simp_all add: enc_opt_bytes_def)

lemma feeds_opt_uint:
  assumes "t < 0x80" and "tag_type t = 0" and "0 < tag_num t"
    and "\<And>d i. fld (tag_num t) 0 d i m = Some (varint_field 0 fname d i store)"
    and "store 0 = m"
  shows "feeds name fld (enc_opt_uint t v) m (store (ucast v))"
  using feeds_enc_uint [of t fld m fname store name v, OF assms(1-4)] feeds_Nil [of name fld m] assms(5)
  by (cases "v = 0") (simp_all add: enc_opt_uint_def)

lemma feeds_repeated:
  assumes "\<And>bs m. feeds name fld (enc_bytes t bs) m (app bs m)"
  shows "feeds name fld (enc_repeated t bss) m (fold app bss m)"
proof (induction bss arbitrary: m)
  case Nil
  then show ?case by (simp add: enc_repeated_def feeds_Nil)
next
  case (Cons bs bss)
  from feeds_append [OF assms Cons.IH] show ?case by (simp add: enc_repeated_def)
qed

section \<open>Fields the handler does not know\<close>

lemma skip_varint_read:
  "skip_varint d i s = rbind (read_varint d i s (acc :: 'w::len word)) (\<lambda>p. Inr (snd p))"
proof (induction d i s arbitrary: acc rule: skip_varint.induct)
  case (1 d i s)
  show ?case
  proof (cases "64 \<le> s \<or> length d \<le> i \<or> d ! i < 0x80")
    case True
    then show ?thesis
      by (subst skip_varint.simps, subst read_varint.simps) (auto simp: Let_def)
  next
    case False
    then have "skip_varint d i s = skip_varint d (i + 1) (s + 7)"
      by (subst skip_varint.simps) simp
    moreover have "read_varint d i s acc =
        read_varint d (i + 1) (s + 7) (acc OR push_bit s (ucast (d ! i AND 0x7F)))"
      using False by (subst read_varint.simps) (simp add: Let_def)
    ultimately show ?thesis using "1.IH" False by simp
  qed
qed

lemma wire_bits: "uint (w AND 7) = k \<Longrightarrow> w AND 7 = (word_of_int k :: uint64)"
  by auto

lemma skip_unknown_uint:
  assumes t: "t < 0x80" and tt: "tag_type t = 0" and len: "length (t # uvarint v @ rest) < max_len"
  shows "skip (t # uvarint v @ rest) = Inr (length (enc_uint t v))"
proof -
  let ?d = "t # uvarint v @ rest"
  have "read_varint ?d 0 0 (0 :: uint64) = Inr (ucast t, 1)"
    using read_tag [OF t, of 0 ?d] by simp
  moreover have "ucast t AND 7 = (0 :: uint64)"
    using wire_bits [of "ucast t" 0] tt by (simp add: tag_type_def)
  moreover have "skip_varint ?d 1 0 = Inr (1 + length (uvarint v))"
    using read_varint_0 [of 1 ?d v rest, where ?'w = 64] skip_varint_read [of ?d 1 0 "0 :: 64 word"]
    by simp
  ultimately have "skip_step ?d 0 0 = Inr (length (enc_uint t v), 0)"
    by (simp add: skip_step_def skip_check_def enc_uint_def Let_def)
  with len show ?thesis by (simp add: skip_def skip_loop.simps [of ?d 0 0])
qed

lemma skip_unknown_bytes:
  assumes t: "t < 0x80" and tt: "tag_type t = 2" and len: "length (enc_bytes t bs @ rest) < max_len"
  shows "skip (enc_bytes t bs @ rest) = Inr (length (enc_bytes t bs))"
proof -
  let ?v = "word_of_nat (length bs) :: uint64"
  let ?d = "t # uvarint ?v @ bs @ rest"
  have "read_varint ?d 0 0 (0 :: uint64) = Inr (ucast t, 1)"
    using read_tag [OF t, of 0 ?d] by simp
  moreover have "ucast t AND 7 = (2 :: uint64)"
    using wire_bits [of "ucast t" 2] tt by (simp add: tag_type_def)
  moreover have "read_varint ?d 1 0 (0 :: 64 word) = Inr (?v, 1 + length (uvarint ?v))"
    using read_varint_0 [of 1 ?d ?v "bs @ rest", where ?'w = 64] by simp
  moreover have l: "length bs < max_len" and "1 + length (uvarint ?v) + length bs < max_len"
    using len by (simp_all add: enc_bytes_def)
  then have "sint ?v = int (length bs)"
    and "int64 (1 + int (length (uvarint ?v)) + int (length bs)) = 1 + int (length (uvarint ?v)) + int (length bs)"
    by (simp_all only: sint_of_nat_64) (simp add: int64_id)
  ultimately have "skip_step ?d 0 0 = Inr (length (enc_bytes t bs), 0)"
    by (simp add: skip_step_def skip_check_def enc_bytes_def Let_def nat_add_distrib)
  with len show ?thesis by (simp add: skip_def skip_loop.simps [of ?d 0 0] enc_bytes_def)
qed

lemma feeds_unknown:
  assumes t: "t < 0x80" "tag_type t \<noteq> 4" "0 < tag_num t"
    and none: "\<And>d i. fld (tag_num t) (tag_type t) d i m = None"
    and sk: "\<And>rest. length (e @ rest) < max_len \<Longrightarrow> skip (e @ rest) = Inr (length e)"
    and e: "e = t # payload"
  shows "feeds name fld e m m"
proof (rule feedsI)
  fix d i rest
  assume d: "length d < max_len" "drop i d = e @ rest"
  have b: "i + length e + length rest = length d"
    using drop_length_bound [OF d(2)] e by simp
  with d(1) have "skip (drop i d) = Inr (length e)"
    using sk [of rest] d(2) by simp
  moreover have "int64 (int i + int (length e)) = int i + int (length e)"
    using b d(1) by (simp add: int64_id)
  moreover have "read_varint d i 0 (0 :: uint64) = Inr (ucast t, i + 1)"
    using read_tag [OF t(1)] d(2) e by simp
  ultimately have "unmarshal_step name fld d i m = Inr (m, i + length e)"
    using b t(2,3) none
    by (simp add: unmarshal_step_def Let_def tag_num_def [symmetric] tag_type_def [symmetric] nat_add_distrib)
  moreover have "i < length d" using b e by simp
  ultimately show "unmarshal_loop name fld d i m = unmarshal_loop name fld d (i + length e) m"
    by (simp add: unmarshal_loop_step)
qed

lemma feeds_unknown_uint:
  assumes "t < 0x80" "tag_type t = 0" "0 < tag_num t" "\<And>d i. fld (tag_num t) 0 d i m = None"
  shows "feeds name fld (enc_uint t v) m m"
  by (rule feeds_unknown [where t = t and payload = "uvarint v"])
     (use assms skip_unknown_uint [OF assms(1,2)] in \<open>simp_all add: enc_uint_def\<close>)

lemma feeds_unknown_bytes:
  assumes "t < 0x80" "tag_type t = 2" "0 < tag_num t" "\<And>d i. fld (tag_num t) 2 d i m = None"
  shows "feeds name fld (enc_bytes t bs) m m"
  by (rule feeds_unknown [where t = t and payload = "uvarint (word_of_nat (length bs)) @ bs"])
     (use assms skip_unknown_bytes [OF assms(1,2)] in \<open>simp_all add: enc_bytes_def\<close>)

section \<open>Malformed varints\<close>

text \<open>
  A varint whose first ten bytes all ask for another byte is refused with
  \<open>ErrIntOverflow\<close>, whatever the width of the variable it is read into; a buffer that ends
  inside a varint of at most ten bytes is refused with \<open>io.ErrUnexpectedEOF\<close>.
\<close>

theorem read_varint_malformed:
  assumes "\<forall>k < 10. i + k < length d \<longrightarrow> \<not> d ! (i + k) < 0x80"
  shows "read_varint d i 0 (acc :: 'w::len word) =
    Inl (if i + 10 \<le> length d then ErrIntOverflow else ErrUnexpectedEOF)"
proof -
  have "read_varint d (i + n) (7 * n) acc =
      Inl (if i + 10 \<le> length d then ErrIntOverflow else ErrUnexpectedEOF)"
    if "n \<le> 10" and "n = 0 \<or> i + n \<le> length d" for n acc
    using that
  proof (induction "10 - n" arbitrary: n acc)
    case 0
    then show ?case by (subst read_varint.simps) auto
  next
    case (Suc m)
    then have n: "n < 10" "m = 10 - Suc n" "Suc n \<le> 10" by simp_all
    show ?case
    proof (cases "i + n < length d")
      case True
      then have "Suc n = 0 \<or> i + Suc n \<le> length d" by simp
      from Suc.hyps(1) [OF n(2,3) this, of "acc OR push_bit (7 * n) (ucast (d ! (i + n) AND 0x7F))"]
      moreover have "\<not> d ! (i + n) < 0x80" using assms n(1) True by blast
      ultimately show ?thesis using True n(1)
        by (subst read_varint.simps) (simp add: Let_def algebra_simps)
    next
      case False
      with n(1) show ?thesis by (subst read_varint.simps) simp
    qed
  qed
  from this [of 0 acc] show ?thesis by simp
qed

theorem read_varint_malformed_witness:
  "read_varint (replicate 11 0xFF) 0 0 (0 :: 32 word) = Inl ErrIntOverflow"
  using read_varint_malformed [of 0 "replicate 11 0xFF" "0 :: 32 word"] by simp

end
