(* ===== verification/Proto_Message.thy ===== *)
theory Proto_Message
  imports Proto_Wire
begin

text \<open>
  The two interfaces of a generated message. \<open>pb_decoder\<close> is what \<open>Unmarshal\<close> needs of the
  \<open>switch\<close> of a message to come to an end on every input; \<open>pb_message\<close> adds the writing side
  and what ties the two together: \<open>enc\<close> is the byte string of a message, \<open>Size\<close> is its
  length, \<open>MarshalToSizedBuffer\<close> writes it at the end of the buffer, and the field loop
  reads it back into the zero message. Each message of the program interprets them.
\<close>

section \<open>Bounds of the readers\<close>

lemma read_bytes_bounds:
  assumes r: "read_bytes d i = Inr (bs, j)" and len: "length d < max_len"
  shows "i < j \<and> j \<le> length d"
proof -
  from r obtain v :: "64 word" and k where v: "read_varint d i 0 (0 :: 64 word) = Inr (v, k)"
    and n: "\<not> sint v < 0" and p: "\<not> int64 (int k + sint v) < 0"
      "\<not> int (length d) < int64 (int k + sint v)" and j: "j = nat (int64 (int k + sint v))"
    by (auto simp: read_bytes_def Let_def split: if_splits)
  from read_varint_bounds [OF v] have k: "i < k" "k \<le> length d" by simp_all
  then have "int64 (int k + sint v) = int k + sint v"
    using int64_add_cases [of k "sint v"] n p len sint64_bounds [of v] by auto
  with k n p j show ?thesis by auto
qed

lemma bytes_field_bounds:
  "bytes_field w name d i store = Inr (m, j) \<Longrightarrow> length d < max_len \<Longrightarrow> i < j \<and> j \<le> length d"
  by (auto simp: bytes_field_def dest!: read_bytes_bounds split: if_splits)

lemma message_field_bounds:
  "message_field w name d i store = Inr (m, j) \<Longrightarrow> length d < max_len \<Longrightarrow> i < j \<and> j \<le> length d"
  by (auto simp: message_field_def dest!: read_bytes_bounds split: if_splits)

lemma varint_field_bounds:
  "varint_field w name d i store = Inr (m, j) \<Longrightarrow> i < j \<and> j \<le> length d"
  by (auto simp: varint_field_def dest!: read_varint_bounds split: if_splits)

lemmas field_bounds = bytes_field_bounds message_field_bounds varint_field_bounds

section \<open>Decoders\<close>

locale pb_decoder =
  fixes name :: string
    and fld :: "'m handler"
  assumes fld_bounds:
    "fld n w d i m = Some (Inr (m', j)) \<Longrightarrow> length d < max_len \<Longrightarrow> i < j \<and> j \<le> length d"
begin

lemma step_bounds:
  assumes s: "unmarshal_step name fld d i m = Inr (m', j)" and len: "length d < max_len"
  shows "i < j \<and> j \<le> length d"
proof -
  from s obtain wire k where w: "read_varint d i 0 (0 :: 64 word) = Inr (wire, k)"
    by (auto simp: unmarshal_step_def)
  from read_varint_bounds [OF w] have k: "i < k" "k \<le> length d" by simp_all
  let ?n = "sint (ucast (drop_bit 3 wire) :: 32 word)" and ?t = "uint (wire AND 7)"
  show ?thesis
  proof (cases "fld ?n ?t d k m")
    case None
    from s obtain q where q: "skip (drop i d) = Inr q"
      and p: "\<not> int64 (int i + int q) < 0" "\<not> int (length d) < int64 (int i + int q)"
      and j: "j = nat (int64 (int i + int q))"
      by (auto simp: unmarshal_step_def w Let_def None split: if_splits)
    from q have "0 < q" "q < max_len"
      unfolding skip_def by (rule skip_loop_progress, rule skip_loop_range)
    with int64_add_cases [of i "int q"] p k len have "int64 (int i + int q) = int i + int q"
      by auto
    with p j \<open>0 < q\<close> show ?thesis by auto
  next
    case (Some r)
    with s have "fld ?n ?t d k m = Some (Inr (m', j))"
      by (simp add: unmarshal_step_def w Let_def split: if_splits)
    with fld_bounds len k show ?thesis by fastforce
  qed
qed


text \<open>\<open>Unmarshal\<close> returns on every input: each iteration moves the index forward.\<close>

lemma loop_total: "length d < max_len \<Longrightarrow> \<exists>r. unmarshal_loop name fld d i m = Some r"
proof (induction "length d - i" arbitrary: i m rule: less_induct)
  case less
  show ?case
  proof (cases "i < length d")
    case True
    show ?thesis
    proof (cases "unmarshal_step name fld d i m")
      case (Inl e)
      with True show ?thesis by (simp add: unmarshal_loop_error)
    next
      case (Inr p)
      then obtain m' j where st: "unmarshal_step name fld d i m = Inr (m', j)" by (cases p) simp
      with step_bounds less.prems have "i < j \<and> j \<le> length d" by blast
      then have "length d - j < length d - i" using True by linarith
      from less.hyps [OF this less.prems] st True show ?thesis
        by (simp add: unmarshal_loop_step)
    qed
  next
    case False
    then show ?thesis by (subst unmarshal_loop.simps) simp
  qed
qed

lemma unmarshal_total: "length d < max_len \<Longrightarrow> \<exists>r. unmarshal name fld d m = Some r"
  by (simp add: unmarshal_def loop_total)

end

section \<open>Messages\<close>

locale pb_message = pb_decoder name fld
  for name :: string and fld :: "'m handler" +
  fixes zero :: 'm
    and sz :: "'m \<Rightarrow> nat"
    and to_sized :: "'m \<Rightarrow> bytes \<Rightarrow> pb_error + (bytes \<times> nat)"
    and enc :: "'m \<Rightarrow> bytes"
  assumes sz_enc: "sz m = length (enc m)"
    and to_sized_enc: "length (enc m) \<le> length d \<Longrightarrow>
      to_sized m d = Inr (take (length d - length (enc m)) d @ enc m, length (enc m))"
    and feeds_enc: "feeds name fld (enc m) zero m"
begin

lemma marshal_enc: "marshal (sz m) (to_sized m) = Inr (enc m)"
  by (simp add: marshal_def to_sized_enc sz_enc)

lemma marshal_to_enc: "sz m \<le> length d \<Longrightarrow>
    marshal_to (sz m) (to_sized m) d = Inr (enc m @ drop (sz m) d, sz m)"
  by (simp add: marshal_to_def to_sized_enc sz_enc)

lemma xxx_marshal_exact: "length b = sz m \<Longrightarrow> xxx_marshal (to_sized m) b = Inr (enc m)"
  by (simp add: xxx_marshal_def to_sized_enc sz_enc)

text \<open>In a longer buffer \<open>XXX_Marshal\<close> cuts the front of the buffer, not the message.\<close>

lemma xxx_marshal_longer: "sz m \<le> length b \<Longrightarrow>
    xxx_marshal (to_sized m) b = Inr (take (sz m) (take (length b - sz m) b @ enc m))"
  by (simp add: xxx_marshal_def to_sized_enc sz_enc)

lemma unmarshal_enc: "length (enc m) < max_len \<Longrightarrow> unmarshal name fld (enc m) zero = Some (Inr m)"
  by (rule unmarshal_feeds [OF feeds_enc])

lemma roundtrip:
  assumes "marshal (sz m) (to_sized m) = Inr bs" and "length bs < max_len"
  shows "unmarshal name fld bs zero = Some (Inr m)"
proof -
  from assms(1) have "enc m = bs" by (simp add: marshal_enc)
  with unmarshal_enc [of m] assms(2) show ?thesis by simp
qed

lemma message_roundtrip:
  assumes "sz m < max_len"
  shows "\<exists>bs. marshal (sz m) (to_sized m) = Inr bs \<and> length bs = sz m
    \<and> unmarshal name fld bs zero = Some (Inr m)"
proof (intro exI conjI)
  show "unmarshal name fld (enc m) zero = Some (Inr m)"
    using assms by (intro unmarshal_enc) (simp add: sz_enc)
qed (simp_all only: marshal_enc, simp add: sz_enc)

lemma enc_inj: "enc m = enc m' \<Longrightarrow> length (enc m) < max_len \<Longrightarrow> m = m'"
  using unmarshal_enc [of m] unmarshal_enc [of m'] by (metis option.inject sum.inject(2))

end

end
