(* ===== verification/Client_Messages.thy ===== *)
theory Client_Messages
  imports Proto_Message
begin

text \<open>
  The four messages of \<open>go/relay/TendermintZKLightClient.pb.go\<close> (the copy under
  \<open>e2e/chains/tendermint/simapp/relay\<close> is the same file): their structs, \<open>Size\<close>,
  \<open>MarshalToSizedBuffer\<close>, \<open>Marshal\<close>, \<open>MarshalTo\<close>, \<open>XXX_Marshal\<close> and \<open>Unmarshal\<close>, and for
  each the byte string it is specified to write.

  A receiver is a pointer: \<open>Size\<close> takes an option, \<open>None\<close> being nil. \<open>types.Height\<close> of
  ibc-go is not part of the repository; its codec is the record \<open>height_codec\<close>, and what
  the generated code relies on is \<open>height_codec_ok\<close>. When \<open>Unmarshal\<close> fails the receiver
  is left partly written; no caller looks at it then, and the model drops it.
\<close>

section \<open>ConsensusState\<close>

record ConsensusState =
  BlockHash :: bytes
  AppHash :: bytes
  Timestamp :: uint64

definition ConsensusState_Reset :: ConsensusState where
  "ConsensusState_Reset = \<lparr>BlockHash = [], AppHash = [], Timestamp = 0\<rparr>"

definition ConsensusState_Size :: "ConsensusState option \<Rightarrow> nat" where
  "ConsensusState_Size r = (case r of None \<Rightarrow> 0 | Some m \<Rightarrow>
     (let l = length (BlockHash m) in if 0 < l then 1 + l + sov (word_of_nat l) else 0) +
     (let l = length (AppHash m) in if 0 < l then 1 + l + sov (word_of_nat l) else 0) +
     (if Timestamp m \<noteq> 0 then 1 + sov (Timestamp m) else 0))"

definition ConsensusState_MarshalToSizedBuffer ::
    "ConsensusState \<Rightarrow> bytes \<Rightarrow> pb_error + (bytes \<times> nat)" where
  "ConsensusState_MarshalToSizedBuffer m = sized_buffer (puts
     [put_when (Timestamp m \<noteq> 0) (put_uint 0x18 (Timestamp m)),
      put_when (0 < length (AppHash m)) (put_len_delim 0x12 (AppHash m)),
      put_when (0 < length (BlockHash m)) (put_len_delim 0xA (BlockHash m))])"

definition ConsensusState_Marshal :: "ConsensusState \<Rightarrow> pb_error + bytes" where
  "ConsensusState_Marshal m =
     marshal (ConsensusState_Size (Some m)) (ConsensusState_MarshalToSizedBuffer m)"

definition ConsensusState_MarshalTo ::
    "ConsensusState \<Rightarrow> bytes \<Rightarrow> pb_error + (bytes \<times> nat)" where
  "ConsensusState_MarshalTo m dAtA =
     marshal_to (ConsensusState_Size (Some m)) (ConsensusState_MarshalToSizedBuffer m) dAtA"

text \<open>
  \<open>XXX_Marshal\<close>: \<open>b\<close> is the buffer up to its capacity; the deterministic branch is the
  proto library's.
\<close>

definition ConsensusState_XXX_Marshal ::
    "(ConsensusState \<Rightarrow> bytes \<Rightarrow> pb_error + bytes) \<Rightarrow> ConsensusState \<Rightarrow> bytes \<Rightarrow> bool \<Rightarrow> pb_error + bytes" where
  "ConsensusState_XXX_Marshal lib m b deterministic =
     (if deterministic then lib m b else xxx_marshal (ConsensusState_MarshalToSizedBuffer m) b)"

definition ConsensusState_field :: "ConsensusState handler" where
  "ConsensusState_field fieldNum wireType dAtA iNdEx m =
     (if fieldNum = 1 then
        Some (bytes_field wireType ''BlockHash'' dAtA iNdEx (\<lambda>v. m\<lparr>BlockHash := v\<rparr>))
      else if fieldNum = 2 then
        Some (bytes_field wireType ''AppHash'' dAtA iNdEx (\<lambda>v. m\<lparr>AppHash := v\<rparr>))
      else if fieldNum = 3 then
        Some (varint_field wireType ''Timestamp'' dAtA iNdEx (\<lambda>v. m\<lparr>Timestamp := v\<rparr>))
      else None)"

definition ConsensusState_Unmarshal ::
    "bytes \<Rightarrow> ConsensusState \<Rightarrow> (pb_error + ConsensusState) option" where
  "ConsensusState_Unmarshal dAtA m = unmarshal ''ConsensusState'' ConsensusState_field dAtA m"

subsection \<open>Its encoding\<close>

definition ConsensusState_enc :: "ConsensusState \<Rightarrow> bytes" where
  "ConsensusState_enc m =
     enc_opt_bytes 0xA (BlockHash m) @ enc_opt_bytes 0x12 (AppHash m) @ enc_opt_uint 0x18 (Timestamp m)"

lemma length_enc_opt_bytes:
  "length (enc_opt_bytes t bs) = (if 0 < length bs then 1 + length bs + sov (word_of_nat (length bs)) else 0)"
  by (simp add: enc_opt_bytes_def enc_bytes_def length_uvarint)

lemma length_enc_opt_uint: "length (enc_opt_uint t v) = (if v \<noteq> 0 then 1 + sov v else 0)"
  by (simp add: enc_opt_uint_def enc_uint_def length_uvarint)

lemma length_enc_repeated:
  "length (enc_repeated t bss) = (\<Sum>bs\<leftarrow>bss. 1 + length bs + sov (word_of_nat (length bs)))"
  by (induction bss) (simp_all add: enc_repeated_def enc_bytes_def length_uvarint)

lemmas length_enc = length_enc_opt_bytes length_enc_opt_uint length_enc_repeated

lemma ConsensusState_writes: "length (ConsensusState_enc m) \<le> length d \<Longrightarrow>
    ConsensusState_MarshalToSizedBuffer m d =
      Inr (take (length d - length (ConsensusState_enc m)) d @ ConsensusState_enc m,
           length (ConsensusState_enc m))"
proof -
  have "writes (puts
     [put_when (Timestamp m \<noteq> 0) (put_uint 0x18 (Timestamp m)),
      put_when (0 < length (AppHash m)) (put_len_delim 0x12 (AppHash m)),
      put_when (0 < length (BlockHash m)) (put_len_delim 0xA (BlockHash m))])
     ((([] @ enc_opt_bytes 0xA (BlockHash m)) @ enc_opt_bytes 0x12 (AppHash m)) @ enc_opt_uint 0x18 (Timestamp m))"
    by (intro writes_Cons writes_Nil writes_opt_bytes writes_opt_uint)
  then show "length (ConsensusState_enc m) \<le> length d \<Longrightarrow> ?thesis"
    unfolding ConsensusState_MarshalToSizedBuffer_def
    by (intro sized_buffer_eq) (simp_all add: ConsensusState_enc_def)
qed

lemmas tag_simps = tag_num_def tag_type_def

lemma ConsensusState_feeds:
  "feeds ''ConsensusState'' ConsensusState_field (ConsensusState_enc m) ConsensusState_Reset m"
proof -
  let ?f = "feeds ''ConsensusState'' ConsensusState_field"
  let ?m0 = ConsensusState_Reset
  let ?m1 = "?m0\<lparr>BlockHash := BlockHash m\<rparr>"
  let ?m2 = "?m1\<lparr>AppHash := AppHash m\<rparr>"
  have 1: "?f (enc_opt_bytes 0xA (BlockHash m)) ?m0 ?m1"
    by (rule feeds_opt_bytes)
       (simp_all add: ConsensusState_field_def ConsensusState_Reset_def tag_simps)
  have 2: "?f (enc_opt_bytes 0x12 (AppHash m)) ?m1 ?m2"
    by (rule feeds_opt_bytes)
       (simp_all add: ConsensusState_field_def ConsensusState_Reset_def tag_simps)
  have 3: "?f (enc_opt_uint 0x18 (Timestamp m)) ?m2 (?m2\<lparr>Timestamp := ucast (Timestamp m)\<rparr>)"
    by (rule feeds_opt_uint)
       (simp_all add: ConsensusState_field_def ConsensusState_Reset_def tag_simps)
  have m: "?m2\<lparr>Timestamp := ucast (Timestamp m)\<rparr> = m"
    by (simp add: ConsensusState_Reset_def)
  from feeds_append [OF 1 feeds_append [OF 2 3]] show ?thesis
    by (simp only: ConsensusState_enc_def m)
qed

interpretation consensus_state: pb_message "''ConsensusState''" ConsensusState_field ConsensusState_Reset
  "\<lambda>m. ConsensusState_Size (Some m)" ConsensusState_MarshalToSizedBuffer ConsensusState_enc
proof
  show "i < j \<and> j \<le> length d"
    if "ConsensusState_field n w d i m = Some (Inr (m', j))" "length d < max_len" for n w d i m m' j
    using that by (auto simp: ConsensusState_field_def dest: field_bounds split: if_splits)
  show "ConsensusState_Size (Some m) = length (ConsensusState_enc m)" for m
    by (simp add: ConsensusState_Size_def ConsensusState_enc_def length_enc Let_def)
qed (simp_all only: ConsensusState_writes ConsensusState_feeds)

section \<open>UpdateStateMessage\<close>

record UpdateStateMessage =
  TrustedHeight :: uint64
  UntrustedHeight :: uint64
  UntrustedBlockHash :: bytes
  MsgTimestamp :: uint64
  MsgAppHash :: bytes
  SimpleTreeProof :: "bytes list"
  Input :: "bytes list"
  ZkProof :: bytes

definition UpdateStateMessage_Reset :: UpdateStateMessage where
  "UpdateStateMessage_Reset =
     \<lparr>TrustedHeight = 0, UntrustedHeight = 0, UntrustedBlockHash = [], MsgTimestamp = 0,
      MsgAppHash = [], SimpleTreeProof = [], Input = [], ZkProof = []\<rparr>"

definition UpdateStateMessage_Size :: "UpdateStateMessage option \<Rightarrow> nat" where
  "UpdateStateMessage_Size r = (case r of None \<Rightarrow> 0 | Some m \<Rightarrow>
     (if TrustedHeight m \<noteq> 0 then 1 + sov (TrustedHeight m) else 0) +
     (if UntrustedHeight m \<noteq> 0 then 1 + sov (UntrustedHeight m) else 0) +
     (let l = length (UntrustedBlockHash m) in if 0 < l then 1 + l + sov (word_of_nat l) else 0) +
     (if MsgTimestamp m \<noteq> 0 then 1 + sov (MsgTimestamp m) else 0) +
     (let l = length (MsgAppHash m) in if 0 < l then 1 + l + sov (word_of_nat l) else 0) +
     (if 0 < length (SimpleTreeProof m)
      then \<Sum>b\<leftarrow>SimpleTreeProof m. (let l = length b in 1 + l + sov (word_of_nat l)) else 0) +
     (if 0 < length (Input m)
      then \<Sum>b\<leftarrow>Input m. (let l = length b in 1 + l + sov (word_of_nat l)) else 0) +
     (let l = length (ZkProof m) in if 0 < l then 1 + l + sov (word_of_nat l) else 0))"

definition UpdateStateMessage_MarshalToSizedBuffer ::
    "UpdateStateMessage \<Rightarrow> bytes \<Rightarrow> pb_error + (bytes \<times> nat)" where
  "UpdateStateMessage_MarshalToSizedBuffer m = sized_buffer (puts
     [put_when (0 < length (ZkProof m)) (put_len_delim 0x42 (ZkProof m)),
      put_when (0 < length (Input m)) (put_repeated 0x3A (Input m)),
      put_when (0 < length (SimpleTreeProof m)) (put_repeated 0x32 (SimpleTreeProof m)),
      put_when (0 < length (MsgAppHash m)) (put_len_delim 0x2A (MsgAppHash m)),
      put_when (MsgTimestamp m \<noteq> 0) (put_uint 0x20 (MsgTimestamp m)),
      put_when (0 < length (UntrustedBlockHash m)) (put_len_delim 0x1A (UntrustedBlockHash m)),
      put_when (UntrustedHeight m \<noteq> 0) (put_uint 0x10 (UntrustedHeight m)),
      put_when (TrustedHeight m \<noteq> 0) (put_uint 0x8 (TrustedHeight m))])"

definition UpdateStateMessage_Marshal :: "UpdateStateMessage \<Rightarrow> pb_error + bytes" where
  "UpdateStateMessage_Marshal m =
     marshal (UpdateStateMessage_Size (Some m)) (UpdateStateMessage_MarshalToSizedBuffer m)"

definition UpdateStateMessage_MarshalTo ::
    "UpdateStateMessage \<Rightarrow> bytes \<Rightarrow> pb_error + (bytes \<times> nat)" where
  "UpdateStateMessage_MarshalTo m dAtA =
     marshal_to (UpdateStateMessage_Size (Some m)) (UpdateStateMessage_MarshalToSizedBuffer m) dAtA"

definition UpdateStateMessage_XXX_Marshal ::
    "(UpdateStateMessage \<Rightarrow> bytes \<Rightarrow> pb_error + bytes) \<Rightarrow> UpdateStateMessage \<Rightarrow> bytes \<Rightarrow> bool
       \<Rightarrow> pb_error + bytes" where
  "UpdateStateMessage_XXX_Marshal lib m b deterministic =
     (if deterministic then lib m b else xxx_marshal (UpdateStateMessage_MarshalToSizedBuffer m) b)"

text \<open>The \<open>switch\<close> in two halves: the cases 1 to 4 and the cases 5 to 8.\<close>

definition UpdateStateMessage_field_1_4 :: "UpdateStateMessage handler" where
  "UpdateStateMessage_field_1_4 fieldNum wireType dAtA iNdEx m =
     (if fieldNum = 1 then
        Some (varint_field wireType ''TrustedHeight'' dAtA iNdEx (\<lambda>v. m\<lparr>TrustedHeight := v\<rparr>))
      else if fieldNum = 2 then
        Some (varint_field wireType ''UntrustedHeight'' dAtA iNdEx (\<lambda>v. m\<lparr>UntrustedHeight := v\<rparr>))
      else if fieldNum = 3 then
        Some (bytes_field wireType ''UntrustedBlockHash'' dAtA iNdEx
          (\<lambda>v. m\<lparr>UntrustedBlockHash := v\<rparr>))
      else if fieldNum = 4 then
        Some (varint_field wireType ''Timestamp'' dAtA iNdEx (\<lambda>v. m\<lparr>MsgTimestamp := v\<rparr>))
      else None)"

definition UpdateStateMessage_field_5_8 :: "UpdateStateMessage handler" where
  "UpdateStateMessage_field_5_8 fieldNum wireType dAtA iNdEx m =
     (if fieldNum = 5 then
        Some (bytes_field wireType ''AppHash'' dAtA iNdEx (\<lambda>v. m\<lparr>MsgAppHash := v\<rparr>))
      else if fieldNum = 6 then
        Some (bytes_field wireType ''SimpleTreeProof'' dAtA iNdEx
          (\<lambda>v. m\<lparr>SimpleTreeProof := SimpleTreeProof m @ [v]\<rparr>))
      else if fieldNum = 7 then
        Some (bytes_field wireType ''Input'' dAtA iNdEx (\<lambda>v. m\<lparr>Input := Input m @ [v]\<rparr>))
      else if fieldNum = 8 then
        Some (bytes_field wireType ''ZkProof'' dAtA iNdEx (\<lambda>v. m\<lparr>ZkProof := v\<rparr>))
      else None)"

definition UpdateStateMessage_field :: "UpdateStateMessage handler" where
  "UpdateStateMessage_field fieldNum wireType dAtA iNdEx m =
     (case UpdateStateMessage_field_1_4 fieldNum wireType dAtA iNdEx m of
        Some r \<Rightarrow> Some r
      | None \<Rightarrow> UpdateStateMessage_field_5_8 fieldNum wireType dAtA iNdEx m)"

definition UpdateStateMessage_Unmarshal ::
    "bytes \<Rightarrow> UpdateStateMessage \<Rightarrow> (pb_error + UpdateStateMessage) option" where
  "UpdateStateMessage_Unmarshal dAtA m =
     unmarshal ''UpdateStateMessage'' UpdateStateMessage_field dAtA m"

subsection \<open>Its encoding\<close>

definition UpdateStateMessage_enc :: "UpdateStateMessage \<Rightarrow> bytes" where
  "UpdateStateMessage_enc m =
     enc_opt_uint 0x8 (TrustedHeight m) @ enc_opt_uint 0x10 (UntrustedHeight m) @
     enc_opt_bytes 0x1A (UntrustedBlockHash m) @ enc_opt_uint 0x20 (MsgTimestamp m) @
     enc_opt_bytes 0x2A (MsgAppHash m) @ enc_repeated 0x32 (SimpleTreeProof m) @
     enc_repeated 0x3A (Input m) @ enc_opt_bytes 0x42 (ZkProof m)"

lemma writes_opt_repeated [writes_intros]:
  "writes (put_when (0 < length bss) (put_repeated tag bss)) (enc_repeated tag bss)"
  using writes_when [OF writes_repeated, of "0 < length bss" tag bss]
  by (cases "bss = []") (simp_all add: enc_repeated_def)

lemma UpdateStateMessage_writes: "length (UpdateStateMessage_enc m) \<le> length d \<Longrightarrow>
    UpdateStateMessage_MarshalToSizedBuffer m d =
      Inr (take (length d - length (UpdateStateMessage_enc m)) d @ UpdateStateMessage_enc m,
           length (UpdateStateMessage_enc m))"
  unfolding UpdateStateMessage_MarshalToSizedBuffer_def
  by (intro sized_buffer_eq)
     (use writes_Cons [OF writes_opt_bytes writes_Cons [OF writes_opt_repeated writes_Cons [OF
        writes_opt_repeated writes_Cons [OF writes_opt_bytes writes_Cons [OF writes_opt_uint
        writes_Cons [OF writes_opt_bytes writes_Cons [OF writes_opt_uint writes_Cons [OF
        writes_opt_uint writes_Nil]]]]]]]] in
      \<open>simp_all add: UpdateStateMessage_enc_def del: puts.simps\<close>)

lemmas UpdateStateMessage_field_defs =
  UpdateStateMessage_field_def UpdateStateMessage_field_1_4_def UpdateStateMessage_field_5_8_def

lemma feeds_SimpleTreeProof:
  "feeds ''UpdateStateMessage'' UpdateStateMessage_field (enc_repeated 0x32 bss) m
     (m\<lparr>SimpleTreeProof := SimpleTreeProof m @ bss\<rparr>)"
proof -
  have "fold (\<lambda>b m. m\<lparr>SimpleTreeProof := SimpleTreeProof m @ [b]\<rparr>) bss m =
      m\<lparr>SimpleTreeProof := SimpleTreeProof m @ bss\<rparr>"
    by (induction bss arbitrary: m) simp_all
  moreover have "feeds ''UpdateStateMessage'' UpdateStateMessage_field (enc_repeated 0x32 bss) m
      (fold (\<lambda>b m. m\<lparr>SimpleTreeProof := SimpleTreeProof m @ [b]\<rparr>) bss m)"
    by (rule feeds_repeated, rule feeds_enc_bytes)
       (simp_all add: UpdateStateMessage_field_defs tag_simps)
  ultimately show ?thesis by simp
qed

lemma feeds_Input:
  "feeds ''UpdateStateMessage'' UpdateStateMessage_field (enc_repeated 0x3A bss) m
     (m\<lparr>Input := Input m @ bss\<rparr>)"
proof -
  have "fold (\<lambda>b m. m\<lparr>Input := Input m @ [b]\<rparr>) bss m = m\<lparr>Input := Input m @ bss\<rparr>"
    by (induction bss arbitrary: m) simp_all
  moreover have "feeds ''UpdateStateMessage'' UpdateStateMessage_field (enc_repeated 0x3A bss) m
      (fold (\<lambda>b m. m\<lparr>Input := Input m @ [b]\<rparr>) bss m)"
    by (rule feeds_repeated, rule feeds_enc_bytes)
       (simp_all add: UpdateStateMessage_field_defs tag_simps)
  ultimately show ?thesis by simp
qed

lemma UpdateStateMessage_feeds:
  "feeds ''UpdateStateMessage'' UpdateStateMessage_field (UpdateStateMessage_enc m) UpdateStateMessage_Reset m"
proof -
  let ?f = "feeds ''UpdateStateMessage'' UpdateStateMessage_field"
  let ?m0 = UpdateStateMessage_Reset
  let ?m1 = "?m0\<lparr>TrustedHeight := ucast (TrustedHeight m)\<rparr>"
  let ?m2 = "?m1\<lparr>UntrustedHeight := ucast (UntrustedHeight m)\<rparr>"
  let ?m3 = "?m2\<lparr>UntrustedBlockHash := UntrustedBlockHash m\<rparr>"
  let ?m4 = "?m3\<lparr>MsgTimestamp := ucast (MsgTimestamp m)\<rparr>"
  let ?m5 = "?m4\<lparr>MsgAppHash := MsgAppHash m\<rparr>"
  let ?m6 = "?m5\<lparr>SimpleTreeProof := SimpleTreeProof m\<rparr>"
  let ?m7 = "?m6\<lparr>Input := Input m\<rparr>"
  let ?m8 = "?m7\<lparr>ZkProof := ZkProof m\<rparr>"
  note defs = UpdateStateMessage_field_defs UpdateStateMessage_Reset_def tag_simps
  have 1: "?f (enc_opt_uint 0x8 (TrustedHeight m)) ?m0 ?m1"
    by (rule feeds_opt_uint) (simp_all add: defs)
  have 2: "?f (enc_opt_uint 0x10 (UntrustedHeight m)) ?m1 ?m2"
    by (rule feeds_opt_uint) (simp_all add: defs)
  have 3: "?f (enc_opt_bytes 0x1A (UntrustedBlockHash m)) ?m2 ?m3"
    by (rule feeds_opt_bytes) (simp_all add: defs)
  have 4: "?f (enc_opt_uint 0x20 (MsgTimestamp m)) ?m3 ?m4"
    by (rule feeds_opt_uint) (simp_all add: defs)
  have 5: "?f (enc_opt_bytes 0x2A (MsgAppHash m)) ?m4 ?m5"
    by (rule feeds_opt_bytes) (simp_all add: defs)
  have 6: "?f (enc_repeated 0x32 (SimpleTreeProof m)) ?m5 ?m6"
    using feeds_SimpleTreeProof [of "SimpleTreeProof m" ?m5] by (simp add: UpdateStateMessage_Reset_def)
  have 7: "?f (enc_repeated 0x3A (Input m)) ?m6 ?m7"
    using feeds_Input [of "Input m" ?m6] by (simp add: UpdateStateMessage_Reset_def)
  have 8: "?f (enc_opt_bytes 0x42 (ZkProof m)) ?m7 ?m8"
    by (rule feeds_opt_bytes) (simp_all add: defs)
  have m: "?m8 = m" by (simp add: UpdateStateMessage_Reset_def)
  from feeds_append [OF 1 feeds_append [OF 2 feeds_append [OF 3 feeds_append [OF 4 feeds_append [OF 5
    feeds_append [OF 6 feeds_append [OF 7 8]]]]]]] show ?thesis
    by (simp only: UpdateStateMessage_enc_def m)
qed

interpretation update_state_message: pb_message "''UpdateStateMessage''" UpdateStateMessage_field
  UpdateStateMessage_Reset "\<lambda>m. UpdateStateMessage_Size (Some m)"
  UpdateStateMessage_MarshalToSizedBuffer UpdateStateMessage_enc
proof
  show "i < j \<and> j \<le> length d"
    if "UpdateStateMessage_field n w d i m = Some (Inr (m', j))" "length d < max_len" for n w d i m m' j
    using that by (auto simp: UpdateStateMessage_field_defs dest: field_bounds split: if_splits)
  show "UpdateStateMessage_Size (Some m) = length (UpdateStateMessage_enc m)" for m
    by (simp add: UpdateStateMessage_Size_def UpdateStateMessage_enc_def length_enc Let_def)
qed (simp_all only: UpdateStateMessage_writes UpdateStateMessage_feeds)

section \<open>Timestamp\<close>

text \<open>
  \<open>Seconds\<close> (\<open>Seconds_\<close> in the code) is an \<open>int64\<close> and \<open>Nanos\<close> an \<open>int32\<close>: words read with \<open>sint\<close>. The
  conversion \<open>uint64(m.Nanos)\<close> extends the sign.
\<close>

record TimestampMsg =
  Seconds :: "64 word"
  Nanos :: "32 word"

definition Timestamp_Reset :: TimestampMsg where
  "Timestamp_Reset = \<lparr>Seconds = 0, Nanos = 0\<rparr>"

definition Timestamp_Size :: "TimestampMsg option \<Rightarrow> nat" where
  "Timestamp_Size r = (case r of None \<Rightarrow> 0 | Some m \<Rightarrow>
     (if Seconds m \<noteq> 0 then 1 + sov (Seconds m) else 0) +
     (if Nanos m \<noteq> 0 then 1 + sov (scast (Nanos m)) else 0))"

definition Timestamp_MarshalToSizedBuffer :: "TimestampMsg \<Rightarrow> bytes \<Rightarrow> pb_error + (bytes \<times> nat)" where
  "Timestamp_MarshalToSizedBuffer m = sized_buffer (puts
     [put_when (Nanos m \<noteq> 0) (put_uint 0x10 (scast (Nanos m))),
      put_when (Seconds m \<noteq> 0) (put_uint 0x8 (Seconds m))])"

definition Timestamp_Marshal :: "TimestampMsg \<Rightarrow> pb_error + bytes" where
  "Timestamp_Marshal m = marshal (Timestamp_Size (Some m)) (Timestamp_MarshalToSizedBuffer m)"

definition Timestamp_MarshalTo :: "TimestampMsg \<Rightarrow> bytes \<Rightarrow> pb_error + (bytes \<times> nat)" where
  "Timestamp_MarshalTo m dAtA =
     marshal_to (Timestamp_Size (Some m)) (Timestamp_MarshalToSizedBuffer m) dAtA"

definition Timestamp_XXX_Marshal ::
    "(TimestampMsg \<Rightarrow> bytes \<Rightarrow> pb_error + bytes) \<Rightarrow> TimestampMsg \<Rightarrow> bytes \<Rightarrow> bool \<Rightarrow> pb_error + bytes" where
  "Timestamp_XXX_Marshal lib m b deterministic =
     (if deterministic then lib m b else xxx_marshal (Timestamp_MarshalToSizedBuffer m) b)"

definition Timestamp_field :: "TimestampMsg handler" where
  "Timestamp_field fieldNum wireType dAtA iNdEx m =
     (if fieldNum = 1 then
        Some (varint_field wireType ''Seconds_'' dAtA iNdEx (\<lambda>v. m\<lparr>Seconds := v\<rparr>))
      else if fieldNum = 2 then
        Some (varint_field wireType ''Nanos'' dAtA iNdEx (\<lambda>v. m\<lparr>Nanos := v\<rparr>))
      else None)"

definition Timestamp_Unmarshal :: "bytes \<Rightarrow> TimestampMsg \<Rightarrow> (pb_error + TimestampMsg) option" where
  "Timestamp_Unmarshal dAtA m = unmarshal ''Timestamp'' Timestamp_field dAtA m"

subsection \<open>Its encoding\<close>

definition Timestamp_enc :: "TimestampMsg \<Rightarrow> bytes" where
  "Timestamp_enc m = enc_opt_uint 0x8 (Seconds m) @ enc_opt_uint 0x10 (scast (Nanos m))"

lemma ucast_scast_32: "ucast (scast (w :: 32 word) :: 64 word) = w"
  by (rule bit_word_eqI) (simp add: bit_simps)

lemma scast_32_eq_0: "(scast (w :: 32 word) :: 64 word) = 0 \<longleftrightarrow> w = 0"
  using ucast_scast_32 [of w] by auto

lemma Timestamp_writes: "length (Timestamp_enc m) \<le> length d \<Longrightarrow>
    Timestamp_MarshalToSizedBuffer m d =
      Inr (take (length d - length (Timestamp_enc m)) d @ Timestamp_enc m, length (Timestamp_enc m))"
  unfolding Timestamp_MarshalToSizedBuffer_def
  by (intro sized_buffer_eq)
     (use writes_Cons [OF writes_opt_uint [of "scast (Nanos m)"]
        writes_Cons [OF writes_opt_uint writes_Nil]] in
      \<open>simp_all add: Timestamp_enc_def scast_32_eq_0 del: puts.simps\<close>)

lemma Timestamp_feeds: "feeds ''Timestamp'' Timestamp_field (Timestamp_enc m) Timestamp_Reset m"
proof -
  let ?f = "feeds ''Timestamp'' Timestamp_field"
  let ?m0 = Timestamp_Reset
  let ?m1 = "?m0\<lparr>Seconds := ucast (Seconds m)\<rparr>"
  let ?m2 = "?m1\<lparr>Nanos := ucast (scast (Nanos m) :: 64 word)\<rparr>"
  have 1: "?f (enc_opt_uint 0x8 (Seconds m)) ?m0 ?m1"
    by (rule feeds_opt_uint) (simp_all add: Timestamp_field_def Timestamp_Reset_def tag_simps)
  have 2: "?f (enc_opt_uint 0x10 (scast (Nanos m))) ?m1 ?m2"
    by (rule feeds_opt_uint) (simp_all add: Timestamp_field_def Timestamp_Reset_def tag_simps)
  have m: "?m2 = m" by (simp add: Timestamp_Reset_def ucast_scast_32)
  from feeds_append [OF 1 2] show ?thesis by (simp only: Timestamp_enc_def m)
qed

interpretation timestamp: pb_message "''Timestamp''" Timestamp_field Timestamp_Reset
  "\<lambda>m. Timestamp_Size (Some m)" Timestamp_MarshalToSizedBuffer Timestamp_enc
proof
  show "i < j \<and> j \<le> length d"
    if "Timestamp_field n w d i m = Some (Inr (m', j))" "length d < max_len" for n w d i m m' j
    using that by (auto simp: Timestamp_field_def dest: field_bounds split: if_splits)
  show "Timestamp_Size (Some m) = length (Timestamp_enc m)" for m
    by (simp add: Timestamp_Size_def Timestamp_enc_def length_enc scast_32_eq_0)
qed (simp_all only: Timestamp_writes Timestamp_feeds)

section \<open>ClientState\<close>

record Height =
  RevisionNumber :: uint64
  RevisionHeight :: uint64

definition zero_height :: Height where
  "zero_height = \<lparr>RevisionNumber = 0, RevisionHeight = 0\<rparr>"

text \<open>
  The codec of \<open>types.Height\<close>: \<open>Size\<close>, \<open>MarshalToSizedBuffer\<close> on the buffer up to the
  writer's index, and \<open>Unmarshal\<close> into the field of the receiver.
\<close>

record height_codec =
  hc_size :: "Height \<Rightarrow> nat"
  hc_marshal :: "Height \<Rightarrow> bytes \<Rightarrow> pb_error + (bytes \<times> nat)"
  hc_unmarshal :: "bytes \<Rightarrow> Height \<Rightarrow> pb_error + Height"

text \<open>
  What a generated codec promises: \<open>henc h\<close> is the encoding of \<open>h\<close>, \<open>Size\<close> its length,
  \<open>MarshalToSizedBuffer\<close> writes it at the end of any buffer with room for it, and
  \<open>Unmarshal\<close> reads it back into the zero value.
\<close>

definition height_codec_ok :: "height_codec \<Rightarrow> (Height \<Rightarrow> bytes) \<Rightarrow> bool" where
  "height_codec_ok hc henc \<longleftrightarrow> (\<forall>h.
     hc_size hc h = length (henc h) \<and>
     (\<forall>d. length (henc h) \<le> length d \<longrightarrow>
        hc_marshal hc h d = Inr (take (length d - length (henc h)) d @ henc h, length (henc h))) \<and>
     hc_unmarshal hc (henc h) zero_height = Inr h)"

record ClientState =
  StepVerifierDigest :: bytes
  SkipVerifierDigest :: bytes
  TrustingPeriod :: uint64
  Frozen :: bool
  LatestHeight :: Height

definition ClientState_Reset :: ClientState where
  "ClientState_Reset =
     \<lparr>StepVerifierDigest = [], SkipVerifierDigest = [], TrustingPeriod = 0, Frozen = False,
      LatestHeight = zero_height\<rparr>"

definition ClientState_Size :: "height_codec \<Rightarrow> ClientState option \<Rightarrow> nat" where
  "ClientState_Size hc r = (case r of None \<Rightarrow> 0 | Some m \<Rightarrow>
     (let l = length (StepVerifierDigest m) in if 0 < l then 1 + l + sov (word_of_nat l) else 0) +
     (let l = length (SkipVerifierDigest m) in if 0 < l then 1 + l + sov (word_of_nat l) else 0) +
     (if TrustingPeriod m \<noteq> 0 then 1 + sov (TrustingPeriod m) else 0) +
     (if Frozen m then 2 else 0) +
     (let l = hc_size hc (LatestHeight m) in 1 + l + sov (word_of_nat l)))"

text \<open>
  The submessage is written by its own \<open>MarshalToSizedBuffer\<close> into \<open>dAtA[:i]\<close>; then
  \<open>i -= size\<close> and the size as a varint.
\<close>

definition put_submessage :: "(bytes \<Rightarrow> pb_error + (bytes \<times> nat)) \<Rightarrow> writer" where
  "put_submessage sub = (\<lambda>(d, i).
     if i < 0 \<or> int (length d) < i then Inl PbPanic
     else rbind (sub (take (nat i) d)) (\<lambda>(p, size').
       encodeVarint (p @ drop (nat i) d) (i - int size') (word_of_nat size')))"

definition ClientState_MarshalToSizedBuffer ::
    "height_codec \<Rightarrow> ClientState \<Rightarrow> bytes \<Rightarrow> pb_error + (bytes \<times> nat)" where
  "ClientState_MarshalToSizedBuffer hc m = sized_buffer (puts
     [put_submessage (hc_marshal hc (LatestHeight m)),
      put_byte 0x2A,
      put_when (Frozen m) (puts [put_byte (if Frozen m then 1 else 0), put_byte 0x20]),
      put_when (TrustingPeriod m \<noteq> 0) (put_uint 0x18 (TrustingPeriod m)),
      put_when (0 < length (SkipVerifierDigest m)) (put_len_delim 0x12 (SkipVerifierDigest m)),
      put_when (0 < length (StepVerifierDigest m)) (put_len_delim 0xA (StepVerifierDigest m))])"

definition ClientState_Marshal :: "height_codec \<Rightarrow> ClientState \<Rightarrow> pb_error + bytes" where
  "ClientState_Marshal hc m =
     marshal (ClientState_Size hc (Some m)) (ClientState_MarshalToSizedBuffer hc m)"

definition ClientState_MarshalTo ::
    "height_codec \<Rightarrow> ClientState \<Rightarrow> bytes \<Rightarrow> pb_error + (bytes \<times> nat)" where
  "ClientState_MarshalTo hc m dAtA =
     marshal_to (ClientState_Size hc (Some m)) (ClientState_MarshalToSizedBuffer hc m) dAtA"

definition ClientState_XXX_Marshal ::
    "height_codec \<Rightarrow> (ClientState \<Rightarrow> bytes \<Rightarrow> pb_error + bytes) \<Rightarrow> ClientState \<Rightarrow> bytes \<Rightarrow> bool
       \<Rightarrow> pb_error + bytes" where
  "ClientState_XXX_Marshal hc lib m b deterministic =
     (if deterministic then lib m b else xxx_marshal (ClientState_MarshalToSizedBuffer hc m) b)"

definition ClientState_field :: "height_codec \<Rightarrow> ClientState handler" where
  "ClientState_field hc fieldNum wireType dAtA iNdEx m =
     (if fieldNum = 1 then
        Some (bytes_field wireType ''StepVerifierDigest'' dAtA iNdEx
          (\<lambda>v. m\<lparr>StepVerifierDigest := v\<rparr>))
      else if fieldNum = 2 then
        Some (bytes_field wireType ''SkipVerifierDigest'' dAtA iNdEx
          (\<lambda>v. m\<lparr>SkipVerifierDigest := v\<rparr>))
      else if fieldNum = 3 then
        Some (varint_field wireType ''TrustingPeriod'' dAtA iNdEx (\<lambda>v. m\<lparr>TrustingPeriod := v\<rparr>))
      else if fieldNum = 4 then
        Some (varint_field wireType ''Frozen'' dAtA iNdEx (\<lambda>v :: 64 word. m\<lparr>Frozen := (v \<noteq> 0)\<rparr>))
      else if fieldNum = 5 then
        Some (message_field wireType ''LatestHeight'' dAtA iNdEx
          (\<lambda>bs. rbind (hc_unmarshal hc bs (LatestHeight m)) (\<lambda>h. Inr (m\<lparr>LatestHeight := h\<rparr>))))
      else None)"

definition ClientState_Unmarshal ::
    "height_codec \<Rightarrow> bytes \<Rightarrow> ClientState \<Rightarrow> (pb_error + ClientState) option" where
  "ClientState_Unmarshal hc dAtA m = unmarshal ''ClientState'' (ClientState_field hc) dAtA m"

subsection \<open>Its encoding\<close>

definition ClientState_enc :: "(Height \<Rightarrow> bytes) \<Rightarrow> ClientState \<Rightarrow> bytes" where
  "ClientState_enc henc m =
     enc_opt_bytes 0xA (StepVerifierDigest m) @ enc_opt_bytes 0x12 (SkipVerifierDigest m) @
     enc_opt_uint 0x18 (TrustingPeriod m) @ (if Frozen m then [0x20, 1] else []) @
     enc_bytes 0x2A (henc (LatestHeight m))"

lemma put_submessage_eq:
  "i \<le> length d \<Longrightarrow> sub (take i d) = Inr (p, n) \<Longrightarrow>
     put_submessage sub (d, int i) = encodeVarint (p @ drop i d) (int i - int n) (word_of_nat n)"
  by (simp add: put_submessage_def)

lemma writes_submessage:
  assumes "\<And>d. length e \<le> length d \<Longrightarrow> sub d = Inr (take (length d - length e) d @ e, length e)"
  shows "writes (put_submessage sub) (uvarint (word_of_nat (length e)) @ e)"
proof (rule writesI)
  fix d :: bytes and j
  let ?v = "uvarint (word_of_nat (length e))"
  let ?i = "j + length (?v @ e)"
  assume h: "?i \<le> length d"
  let ?d = "take (j + length ?v) d @ e @ drop ?i d"
  have sub: "sub (take ?i d) = Inr (take (j + length ?v) d @ e, length e)"
    using h by (subst assms) (simp_all add: min_def)
  have "writes (put_varint (word_of_nat (length e))) ?v" by (rule writes_put_varint)
  from writesD [OF this, of j ?d]
  have enc: "encodeVarint ?d (int (j + length ?v)) (word_of_nat (length e)) =
      Inr (take j d @ (?v @ e) @ drop ?i d, int j)"
    using h by (simp add: put_varint_def add.assoc)
  have "put_submessage sub (d, int ?i) = encodeVarint ?d (int ?i - int (length e)) (word_of_nat (length e))"
    using put_submessage_eq [where sub = sub, OF h sub] by (simp only: append_assoc)
  also have "int ?i - int (length e) = int (j + length ?v)" by simp
  finally show "put_submessage sub (d, int ?i) = Inr (take j d @ (?v @ e) @ drop ?i d, int j)"
    by (simp only: enc)
qed

lemma height_codecD:
  assumes "height_codec_ok hc henc"
  shows "hc_size hc h = length (henc h)"
    and "length (henc h) \<le> length d \<Longrightarrow>
      hc_marshal hc h d = Inr (take (length d - length (henc h)) d @ henc h, length (henc h))"
    and "hc_unmarshal hc (henc h) zero_height = Inr h"
  using assms by (auto simp: height_codec_ok_def)

lemma ClientState_writes:
  assumes hc: "height_codec_ok hc henc" and len: "length (ClientState_enc henc m) \<le> length d"
  shows "ClientState_MarshalToSizedBuffer hc m d =
      Inr (take (length d - length (ClientState_enc henc m)) d @ ClientState_enc henc m,
           length (ClientState_enc henc m))"
proof -
  have sub: "writes (put_submessage (hc_marshal hc (LatestHeight m)))
      (uvarint (word_of_nat (length (henc (LatestHeight m)))) @ henc (LatestHeight m))"
    by (rule writes_submessage) (rule height_codecD(2) [OF hc])
  have fr: "writes (put_when (Frozen m) (puts [put_byte (if Frozen m then 1 else 0), put_byte 0x20]))
      (if Frozen m then [0x20, 1] else [])"
  proof (cases "Frozen m")
    case True
    have "writes (puts [put_byte 1, put_byte 0x20]) (([] @ [0x20]) @ [1])"
      by (intro writes_Cons writes_put_byte writes_Nil)
    with True show ?thesis by (simp add: put_when_def del: puts.simps)
  next
    case False
    then show ?thesis by (simp add: put_when_def writes_def)
  qed
  show ?thesis
    unfolding ClientState_MarshalToSizedBuffer_def
    by (rule sized_buffer_eq [OF _ len])
       (use writes_Cons [OF sub writes_Cons [OF writes_put_byte writes_Cons [OF fr writes_Cons [OF
          writes_opt_uint writes_Cons [OF writes_opt_bytes writes_Cons [OF writes_opt_bytes
          writes_Nil]]]]]] in \<open>simp add: ClientState_enc_def enc_bytes_def del: puts.simps\<close>)
qed

lemma uvarint_1: "uvarint 1 = [1]"
  by (simp add: uvarint_small)

lemma ClientState_feeds:
  assumes hc: "height_codec_ok hc henc"
  shows "feeds ''ClientState'' (ClientState_field hc) (ClientState_enc henc m) ClientState_Reset m"
proof -
  let ?f = "feeds ''ClientState'' (ClientState_field hc)"
  let ?m0 = ClientState_Reset
  let ?m1 = "?m0\<lparr>StepVerifierDigest := StepVerifierDigest m\<rparr>"
  let ?m2 = "?m1\<lparr>SkipVerifierDigest := SkipVerifierDigest m\<rparr>"
  let ?m3 = "?m2\<lparr>TrustingPeriod := ucast (TrustingPeriod m)\<rparr>"
  let ?m4 = "?m3\<lparr>Frozen := Frozen m\<rparr>"
  let ?m5 = "?m4\<lparr>LatestHeight := LatestHeight m\<rparr>"
  note defs = ClientState_field_def ClientState_Reset_def tag_simps
  have 1: "?f (enc_opt_bytes 0xA (StepVerifierDigest m)) ?m0 ?m1"
    by (rule feeds_opt_bytes) (simp_all add: defs)
  have 2: "?f (enc_opt_bytes 0x12 (SkipVerifierDigest m)) ?m1 ?m2"
    by (rule feeds_opt_bytes) (simp_all add: defs)
  have 3: "?f (enc_opt_uint 0x18 (TrustingPeriod m)) ?m2 ?m3"
    by (rule feeds_opt_uint) (simp_all add: defs)
  have "?f (enc_uint 0x20 1) ?m3 ((\<lambda>v :: 64 word. ?m3\<lparr>Frozen := (v \<noteq> 0)\<rparr>) (ucast (1 :: 64 word)))"
    by (rule feeds_enc_uint) (simp_all add: defs)
  then have 4: "?f (if Frozen m then [0x20, 1] else []) ?m3 ?m4"
    by (simp add: enc_uint_def uvarint_1 feeds_Nil ClientState_Reset_def)
  have 5: "?f (enc_bytes 0x2A (henc (LatestHeight m))) ?m4 ?m5"
    by (rule feeds_enc_message [where fname = "''LatestHeight''" and store =
          "\<lambda>bs. rbind (hc_unmarshal hc bs (LatestHeight ?m4)) (\<lambda>h. Inr (?m4\<lparr>LatestHeight := h\<rparr>))"])
       (simp_all add: defs height_codecD(3) [OF hc])
  have m: "?m5 = m" by (simp add: ClientState_Reset_def)
  from feeds_append [OF 1 feeds_append [OF 2 feeds_append [OF 3 feeds_append [OF 4 5]]]] show ?thesis
    by (simp only: ClientState_enc_def m)
qed

interpretation client_state_decoder: pb_decoder "''ClientState''" "ClientState_field hc" for hc
  by unfold_locales
     (auto simp: ClientState_field_def dest: field_bounds split: if_splits)

text \<open>Over a correct codec of \<open>Height\<close>, \<open>ClientState\<close> keeps the contract of a message.\<close>

lemma ClientState_message:
  assumes hc: "height_codec_ok hc henc"
  shows "pb_message ''ClientState'' (ClientState_field hc) ClientState_Reset
    (\<lambda>m. ClientState_Size hc (Some m)) (ClientState_MarshalToSizedBuffer hc) (ClientState_enc henc)"
proof unfold_locales
  show "ClientState_Size hc (Some m) = length (ClientState_enc henc m)" for m
    by (simp add: ClientState_Size_def ClientState_enc_def length_enc enc_bytes_def length_uvarint
        height_codecD(1) [OF hc] Let_def)
qed (simp_all only: ClientState_writes [OF hc] ClientState_feeds [OF hc])

section \<open>Properties\<close>

text \<open>
  C14: \<open>UpdateStateMessage\<close> round trip: \<open>Marshal\<close> returns without an error or a panic, the
  bytes it returns are as many as \<open>Size\<close> says, and \<open>Unmarshal\<close> of those bytes into a zero
  message returns and gives the message back, every field and every element of the
  repeated fields.
\<close>

theorem update_state_message_roundtrip:
  assumes "UpdateStateMessage_Size (Some m) < max_len"
  shows "\<exists>bs. UpdateStateMessage_Marshal m = Inr bs \<and> length bs = UpdateStateMessage_Size (Some m)
    \<and> UpdateStateMessage_Unmarshal bs UpdateStateMessage_Reset = Some (Inr m)"
  unfolding UpdateStateMessage_Marshal_def UpdateStateMessage_Unmarshal_def
  by (rule update_state_message.message_roundtrip [OF assms])

definition example_message :: UpdateStateMessage where
  "example_message =
     \<lparr>TrustedHeight = 7, UntrustedHeight = 8, UntrustedBlockHash = [1, 2], MsgTimestamp = 9,
      MsgAppHash = [], SimpleTreeProof = [[3], [], [4, 5]], Input = [[6]], ZkProof = [7]\<rparr>"

theorem update_state_message_roundtrip_witness:
  "\<exists>bs. UpdateStateMessage_Marshal example_message = Inr bs \<and> length bs = 25
    \<and> UpdateStateMessage_Unmarshal bs UpdateStateMessage_Reset = Some (Inr example_message)"
proof -
  have "UpdateStateMessage_Size (Some example_message) = 25"
    by (simp add: UpdateStateMessage_Size_def example_message_def sov_small)
  then show ?thesis using update_state_message_roundtrip [of example_message] by simp
qed

text \<open>
  \<open>ClientState\<close> round trip, over any codec of \<open>types.Height\<close> that keeps the contract
  of a generated codec.
\<close>

theorem client_state_roundtrip:
  assumes "height_codec_ok hc henc" and "ClientState_Size hc (Some m) < max_len"
  shows "\<exists>bs. ClientState_Marshal hc m = Inr bs \<and> length bs = ClientState_Size hc (Some m)
    \<and> ClientState_Unmarshal hc bs ClientState_Reset = Some (Inr m)"
  unfolding ClientState_Marshal_def ClientState_Unmarshal_def
  by (rule pb_message.message_roundtrip [OF ClientState_message [OF assms(1)] assms(2)])

text \<open>
  A concrete codec of \<open>Height\<close> for the witness: the protobuf encoding of its two varint
  fields, read back by position.
\<close>

definition witness_henc :: "Height \<Rightarrow> bytes" where
  "witness_henc h = uvarint (RevisionNumber h) @ uvarint (RevisionHeight h)"

definition witness_codec :: height_codec where
  "witness_codec = \<lparr>hc_size = (\<lambda>h. length (witness_henc h)),
     hc_marshal = (\<lambda>h d. if length (witness_henc h) \<le> length d
       then Inr (take (length d - length (witness_henc h)) d @ witness_henc h, length (witness_henc h))
       else Inl PbPanic),
     hc_unmarshal = (\<lambda>bs h. rbind (read_varint bs 0 0 (0 :: 64 word)) (\<lambda>(n, i).
       rbind (read_varint bs i 0 (0 :: 64 word)) (\<lambda>(k, j).
         Inr (h\<lparr>RevisionNumber := n, RevisionHeight := k\<rparr>))))\<rparr>"

lemma witness_codec_ok: "height_codec_ok witness_codec witness_henc"
proof -
  have "hc_unmarshal witness_codec (witness_henc h) zero_height = Inr h" for h
    using read_varint_0 [of 0 "witness_henc h" "RevisionNumber h" "uvarint (RevisionHeight h)", where ?'w = 64]
      read_varint_0 [of "length (uvarint (RevisionNumber h))" "witness_henc h" "RevisionHeight h" "[]", where ?'w = 64]
    by (simp add: witness_codec_def witness_henc_def zero_height_def)
  then show ?thesis by (simp add: height_codec_ok_def witness_codec_def)
qed

definition example_client_state :: ClientState where
  "example_client_state =
     \<lparr>StepVerifierDigest = [1], SkipVerifierDigest = [2, 3], TrustingPeriod = 5, Frozen = True,
      LatestHeight = \<lparr>RevisionNumber = 0, RevisionHeight = 9\<rparr>\<rparr>"

theorem client_state_roundtrip_witness:
  "\<exists>bs. ClientState_Marshal witness_codec example_client_state = Inr bs \<and> length bs = 15
    \<and> ClientState_Unmarshal witness_codec bs ClientState_Reset = Some (Inr example_client_state)"
proof -
  have "ClientState_Size witness_codec (Some example_client_state) = 15"
    by (simp add: ClientState_Size_def example_client_state_def witness_codec_def witness_henc_def
        length_uvarint sov_small)
  then show ?thesis
    using client_state_roundtrip [OF witness_codec_ok, of example_client_state] by simp
qed

text \<open>
  \<open>ConsensusState\<close> and \<open>Timestamp\<close> round trips; the seconds and nanoseconds of a
  \<open>Timestamp\<close> are signed, and negative values survive the sign extension to 64 bits and
  the truncation back.
\<close>

theorem consensus_state_roundtrip:
  assumes "ConsensusState_Size (Some m) < max_len" and "Timestamp_Size (Some t) < max_len"
  shows "(\<exists>bs. ConsensusState_Marshal m = Inr bs \<and> length bs = ConsensusState_Size (Some m)
      \<and> ConsensusState_Unmarshal bs ConsensusState_Reset = Some (Inr m))
    \<and> (\<exists>bs. Timestamp_Marshal t = Inr bs \<and> length bs = Timestamp_Size (Some t)
      \<and> Timestamp_Unmarshal bs Timestamp_Reset = Some (Inr t))"
  unfolding ConsensusState_Marshal_def ConsensusState_Unmarshal_def
    Timestamp_Marshal_def Timestamp_Unmarshal_def
  using consensus_state.message_roundtrip [OF assms(1)] timestamp.message_roundtrip [OF assms(2)]
  by (rule conjI)

definition example_consensus :: ConsensusState where
  "example_consensus = \<lparr>BlockHash = [1], AppHash = [2, 3], Timestamp = 300\<rparr>"

definition example_timestamp :: TimestampMsg where
  "example_timestamp = \<lparr>Seconds = 5, Nanos = - 1\<rparr>"

theorem consensus_state_roundtrip_witness:
  "(\<exists>bs. ConsensusState_Marshal example_consensus = Inr bs
      \<and> ConsensusState_Unmarshal bs ConsensusState_Reset = Some (Inr example_consensus))
    \<and> (\<exists>bs. Timestamp_Marshal example_timestamp = Inr bs
      \<and> Timestamp_Unmarshal bs Timestamp_Reset = Some (Inr example_timestamp))"
proof -
  have "sov x < 100" for x
  proof -
    have "bit_len (unat (x OR 1)) \<le> 64"
      using unsigned_less [of "x OR 1"] by (simp add: bit_len_le_iff)
    then show ?thesis by (simp add: sov_def)
  qed
  then have s: "sov x < 1000" for x by (rule less_trans) simp
  have "ConsensusState_Size (Some example_consensus) < max_len"
    using s [of 300] by (simp add: ConsensusState_Size_def example_consensus_def sov_small)
  moreover have "Timestamp_Size (Some example_timestamp) < max_len"
    using s [of "scast (- 1 :: 32 word)"]
    by (simp add: Timestamp_Size_def example_timestamp_def sov_small)
  ultimately show ?thesis using consensus_state_roundtrip by blast
qed

text \<open>
  C33: \<open>Unmarshal\<close> of every message returns, a message or an error, on every input and
  every receiver: the field loop cannot run for ever, whatever the bytes and whatever the
  codec of \<open>Height\<close> does.
\<close>

theorem unmarshal_terminates:
  assumes "length d < max_len"
  shows "(\<exists>r. UpdateStateMessage_Unmarshal d u = Some r)
    \<and> (\<exists>r. ClientState_Unmarshal hc d c = Some r)
    \<and> (\<exists>r. ConsensusState_Unmarshal d s = Some r)
    \<and> (\<exists>r. Timestamp_Unmarshal d t = Some r)"
  using assms
  by (simp add: UpdateStateMessage_Unmarshal_def ClientState_Unmarshal_def
      ConsensusState_Unmarshal_def Timestamp_Unmarshal_def update_state_message.unmarshal_total
      client_state_decoder.unmarshal_total consensus_state.unmarshal_total timestamp.unmarshal_total)

theorem unmarshal_terminates_witness:
  "\<exists>r. UpdateStateMessage_Unmarshal [0xFF, 0x13, 0x88] UpdateStateMessage_Reset = Some r"
  using unmarshal_terminates [of "[0xFF, 0x13, 0x88]" UpdateStateMessage_Reset] by simp

definition unknown_tag :: "byte \<Rightarrow> bool" where
  "unknown_tag t \<longleftrightarrow> t < 0x80 \<and> 8 < tag_num t"

lemma feeds_unknown_field:
  assumes "unknown_tag t" and "tag_type t = 0" and "unknown_tag t'" and "tag_type t' = 2"
  shows "feeds ''UpdateStateMessage'' UpdateStateMessage_field (enc_uint t v @ enc_bytes t' bs) m m"
  using assms
  by (intro feeds_append [OF feeds_unknown_uint feeds_unknown_bytes])
     (simp_all add: unknown_tag_def UpdateStateMessage_field_defs)

text \<open>
  Forward compatibility: fields a relayer does not know (field numbers 9 to 15, a
  varint or a length-delimited value), before or after the known ones, are skipped, and
  \<open>Unmarshal\<close> still gives the message.
\<close>

theorem unmarshal_skips_unknown:
  assumes "unknown_tag t" and "tag_type t = 0" and "unknown_tag t'" and "tag_type t' = 2"
    and "UpdateStateMessage_Marshal m = Inr bs"
    and "length ((enc_uint t v @ enc_bytes t' xs) @ bs @ (enc_uint t v @ enc_bytes t' xs)) < max_len"
  shows "UpdateStateMessage_Unmarshal
      ((enc_uint t v @ enc_bytes t' xs) @ bs @ (enc_uint t v @ enc_bytes t' xs))
      UpdateStateMessage_Reset = Some (Inr m)"
proof -
  let ?u = "enc_uint t v @ enc_bytes t' xs"
  have bs: "bs = UpdateStateMessage_enc m"
    using assms(5) by (simp add: UpdateStateMessage_Marshal_def update_state_message.marshal_enc)
  note u = feeds_unknown_field [OF assms(1-4), of v xs]
  have "feeds ''UpdateStateMessage'' UpdateStateMessage_field (?u @ bs @ ?u) UpdateStateMessage_Reset m"
    unfolding bs by (rule feeds_append [OF u feeds_append [OF UpdateStateMessage_feeds u]])
  from unmarshal_feeds [OF this assms(6)] show ?thesis
    by (simp only: UpdateStateMessage_Unmarshal_def)
qed

theorem unmarshal_skips_unknown_witness:
  "UpdateStateMessage_Unmarshal ((enc_uint 0x48 3 @ enc_bytes 0x52 [1]) @ [0x8, 5] @
     (enc_uint 0x48 3 @ enc_bytes 0x52 [1])) UpdateStateMessage_Reset
   = Some (Inr (UpdateStateMessage_Reset\<lparr>TrustedHeight := 5\<rparr>))"
proof (rule unmarshal_skips_unknown)
  show "UpdateStateMessage_Marshal (UpdateStateMessage_Reset\<lparr>TrustedHeight := 5\<rparr>) = Inr [0x8, 5]"
    by (simp add: UpdateStateMessage_Marshal_def update_state_message.marshal_enc
        UpdateStateMessage_enc_def UpdateStateMessage_Reset_def enc_opt_uint_def enc_opt_bytes_def
        enc_repeated_def enc_uint_def uvarint_small)
qed (simp_all add: unknown_tag_def tag_num_def tag_type_def enc_uint_def enc_bytes_def uvarint_small)

text \<open>
  \<open>XXX_Marshal\<close> of \<open>UpdateStateMessage\<close> without the deterministic option returns
  the encoding when the capacity of its buffer is \<open>Size\<close>, which is how the proto library
  calls it, and agrees there with \<open>Marshal\<close>. \<open>MarshalTo\<close> writes the encoding at the front of
  any buffer that is long enough and leaves the rest of it alone; it panics when the
  buffer is shorter than \<open>Size\<close>.
\<close>

theorem marshal_variants:
  "(length b = UpdateStateMessage_Size (Some m) \<longrightarrow>
      UpdateStateMessage_XXX_Marshal lib m b False = UpdateStateMessage_Marshal m)
   \<and> UpdateStateMessage_MarshalTo m d =
      (if length d < UpdateStateMessage_Size (Some m) then Inl PbPanic
       else rbind (UpdateStateMessage_Marshal m) (\<lambda>bs.
         Inr (bs @ drop (UpdateStateMessage_Size (Some m)) d, UpdateStateMessage_Size (Some m))))"
proof -
  have "length b = UpdateStateMessage_Size (Some m) \<Longrightarrow>
      UpdateStateMessage_XXX_Marshal lib m b False = UpdateStateMessage_Marshal m"
    using update_state_message.xxx_marshal_exact [of b m]
    by (simp add: UpdateStateMessage_XXX_Marshal_def UpdateStateMessage_Marshal_def
        update_state_message.marshal_enc)
  moreover have "length d < UpdateStateMessage_Size (Some m) \<Longrightarrow>
      UpdateStateMessage_MarshalTo m d = Inl PbPanic"
    by (simp add: UpdateStateMessage_MarshalTo_def marshal_to_def)
  ultimately show ?thesis
    using update_state_message.marshal_to_enc [of m d]
    by (simp add: UpdateStateMessage_MarshalTo_def UpdateStateMessage_Marshal_def
        update_state_message.marshal_enc not_less)
qed

theorem marshal_variants_witness:
  "UpdateStateMessage_XXX_Marshal (\<lambda>m b. Inl PbPanic) UpdateStateMessage_Reset [] False
   = UpdateStateMessage_Marshal UpdateStateMessage_Reset"
  using marshal_variants [of "[]" UpdateStateMessage_Reset "\<lambda>m b. Inl PbPanic"]
  by (simp add: UpdateStateMessage_Size_def UpdateStateMessage_Reset_def)

end
