(* ===== verification/Simple_Tree.thy ===== *)
theory Simple_Tree
  imports Sha256 Client_Messages
begin

text \<open>
  The Merkle tree of a Tendermint header: \<open>go/relay/tree.go\<close> builds the six siblings with
  which the contract (\<open>contracts/TendermintHeader.sol\<close>) recomputes the block hash from the
  timestamp and the application hash. The tree itself is the RFC 6962 tree over the 14
  hashed fields, here \<open>tree_root\<close>.

  \<open>Header\<close> is CometBFT's; the types of its version and of its block id are left open. The
  marshalers of gogoproto and of CometBFT are the record \<open>marshalers\<close>. A slice that may be
  nil is an option. The hash is an argument, \<open>Sum256\<close> of \<open>crypto/sha256\<close> when the program runs.
\<close>

section \<open>Headers\<close>

text \<open>A Go time: seconds since 1970 and nanoseconds within the second.\<close>

record go_time =
  unix_seconds :: int
  nanosecond :: nat

definition UnixNano :: "go_time \<Rightarrow> uint64" where
  "UnixNano t = word_of_int (unix_seconds t * 1000000000 + int (nanosecond t))"

record ('v, 'b) Header =
  hVersion :: 'v
  hChainID :: string
  hHeight :: uint64
  hTime :: go_time
  hLastBlockID :: 'b
  hLastCommitHash :: "bytes option"
  hDataHash :: "bytes option"
  hValidatorsHash :: "bytes option"
  hNextValidatorsHash :: "bytes option"
  hConsensusHash :: "bytes option"
  hAppHash :: "bytes option"
  hLastResultsHash :: "bytes option"
  hEvidenceHash :: "bytes option"
  hProposerAddress :: "bytes option"

definition slice :: "bytes option \<Rightarrow> bytes" where
  "slice s = (case s of None \<Rightarrow> [] | Some bs \<Rightarrow> bs)"

record ('v, 'b) marshalers =
  marshal_version :: "'v \<Rightarrow> string + bytes"
  marshal_block_id :: "'b \<Rightarrow> string + bytes"
  StdTimeMarshal :: "go_time \<Rightarrow> string + bytes"
  StringValue_Marshal :: "string \<Rightarrow> string + bytes"
  Int64Value_Marshal :: "uint64 \<Rightarrow> string + bytes"
  BytesValue_Marshal :: "bytes \<Rightarrow> string + bytes"

section \<open>Leaves\<close>

type_synonym hash_fun = "bytes \<Rightarrow> bytes"

definition leafHash :: "hash_fun \<Rightarrow> bytes \<Rightarrow> bytes" where
  "leafHash H leaf = H ([0] @ leaf)"

definition innerHash :: "hash_fun \<Rightarrow> bytes \<Rightarrow> bytes \<Rightarrow> bytes" where
  "innerHash H left right = H ([1] @ left @ right)"

datatype cdc_item = CdcNil | CdcString string | CdcInt64 uint64 | CdcHexBytes "bytes option" | CdcOther

definition isTypedNil :: "cdc_item \<Rightarrow> bool" where
  "isTypedNil i = (case i of CdcHexBytes s \<Rightarrow> s = None | _ \<Rightarrow> False)"

definition isEmpty :: "cdc_item \<Rightarrow> bool" where
  "isEmpty i = (case i of CdcString s \<Rightarrow> length s = 0 | CdcHexBytes s \<Rightarrow> length (slice s) = 0 | _ \<Rightarrow> False)"

text \<open>An error of the marshaler gives nil, like an empty item.\<close>

definition cdcEncode :: "('v, 'b) marshalers \<Rightarrow> cdc_item \<Rightarrow> bytes" where
  "cdcEncode ms i =
     (let or_nil = (\<lambda>r. case r of Inl e \<Rightarrow> [] | Inr bz \<Rightarrow> bz) in
      if i \<noteq> CdcNil \<and> \<not> isTypedNil i \<and> \<not> isEmpty i then
        (case i of
           CdcString s \<Rightarrow> or_nil (StringValue_Marshal ms s)
         | CdcInt64 n \<Rightarrow> or_nil (Int64Value_Marshal ms n)
         | CdcHexBytes s \<Rightarrow> or_nil (BytesValue_Marshal ms (slice s))
         | _ \<Rightarrow> [])
      else [])"

text \<open>The fields of a header before they are hashed; \<open>None\<close> is a nil result.\<close>

definition header_fields :: "('v, 'b) marshalers \<Rightarrow> ('v, 'b) Header \<Rightarrow> bytes list option" where
  "header_fields ms h =
     (if length (slice (hValidatorsHash h)) = 0 then None
      else case marshal_version ms (hVersion h) of Inl e \<Rightarrow> None | Inr hbz \<Rightarrow>
       (case StdTimeMarshal ms (hTime h) of Inl e \<Rightarrow> None | Inr pbt \<Rightarrow>
        (case marshal_block_id ms (hLastBlockID h) of Inl e \<Rightarrow> None | Inr bzbi \<Rightarrow>
          Some
           [hbz,
            cdcEncode ms (CdcString (hChainID h)),
            cdcEncode ms (CdcInt64 (hHeight h)),
            pbt,
            bzbi,
            cdcEncode ms (CdcHexBytes (hLastCommitHash h)),
            cdcEncode ms (CdcHexBytes (hDataHash h)),
            cdcEncode ms (CdcHexBytes (hValidatorsHash h)),
            cdcEncode ms (CdcHexBytes (hNextValidatorsHash h)),
            cdcEncode ms (CdcHexBytes (hConsensusHash h)),
            cdcEncode ms (CdcHexBytes (hAppHash h)),
            cdcEncode ms (CdcHexBytes (hLastResultsHash h)),
            cdcEncode ms (CdcHexBytes (hEvidenceHash h)),
            cdcEncode ms (CdcHexBytes (hProposerAddress h))])))"

definition headerToLeaves ::
    "hash_fun \<Rightarrow> ('v, 'b) marshalers \<Rightarrow> ('v, 'b) Header option \<Rightarrow> bytes list option" where
  "headerToLeaves H ms h = (case h of None \<Rightarrow> None | Some h \<Rightarrow>
     (case header_fields ms h of None \<Rightarrow> None | Some fs \<Rightarrow> Some (map (leafHash H) fs)))"

text \<open>\<open>None\<close> is the panic on nil leaves.\<close>

definition getSimpleTreeProof ::
    "hash_fun \<Rightarrow> ('v, 'b) marshalers \<Rightarrow> ('v, 'b) Header option \<Rightarrow> bytes list option" where
  "getSimpleTreeProof H ms h = (case headerToLeaves H ms h of None \<Rightarrow> None | Some leaves \<Rightarrow>
     (let idx7 = innerHash H (leaves ! 0) (leaves ! 1);
          idx17 = leaves ! 2;
          idx6 = innerHash H (leaves ! 12) (leaves ! 13);
          idx26 = leaves ! 11;
          idx11 = innerHash H (leaves ! 8) (leaves ! 9);
          idx4 = innerHash H
            (innerHash H (leaves ! 4) (leaves ! 5))
            (innerHash H (leaves ! 6) (leaves ! 7))
      in Some [idx4, idx6, idx7, idx11, idx17, idx26]))"

section \<open>The tree\<close>

text \<open>
  RFC 6962: the left subtree of \<open>n > 1\<close> leaves has the largest power of two below \<open>n\<close>
  leaves.
\<close>

fun split_from :: "nat \<Rightarrow> nat \<Rightarrow> nat \<Rightarrow> nat" where
  "split_from 0 k n = k"
| "split_from (Suc fuel) k n = (if n \<le> 2 * k then k else split_from fuel (2 * k) n)"

definition split_point :: "nat \<Rightarrow> nat" where
  "split_point n = split_from n 1 n"

lemma split_from_bounds: "1 \<le> k \<Longrightarrow> k < n \<Longrightarrow> 1 \<le> split_from fuel k n \<and> split_from fuel k n < n"
  by (induction fuel k n rule: split_from.induct) simp_all

lemma split_point_bounds: "1 < n \<Longrightarrow> 1 \<le> split_point n \<and> split_point n < n"
  unfolding split_point_def by (rule split_from_bounds) simp_all

function tree_root :: "hash_fun \<Rightarrow> bytes list \<Rightarrow> bytes" where
  "tree_root H leaves =
     (if leaves = [] then H []
      else if length leaves = 1 then hd leaves
      else let k = split_point (length leaves) in
        innerHash H (tree_root H (take k leaves)) (tree_root H (drop k leaves)))"
  by pat_completeness auto
termination
proof (relation "measure (\<lambda>(H, leaves). length leaves)")
  fix leaves :: "bytes list" and k
  assume "leaves \<noteq> []" "length leaves \<noteq> 1" "k = split_point (length leaves)"
  then have "1 < length leaves" by (cases leaves) auto
  from split_point_bounds [OF this] \<open>k = _\<close>
  show "((H, take k leaves), (H, leaves)) \<in> measure (\<lambda>(H, leaves). length leaves)"
    and "((H, drop k leaves), (H, leaves)) \<in> measure (\<lambda>(H, leaves). length leaves)" for H :: hash_fun
    by auto
qed simp

declare tree_root.simps [simp del]

section \<open>The contract's side\<close>

text \<open>
  \<open>merkleRoot\<close> of \<open>TendermintHeader.sol\<close>. Its \<open>Timestamp.encode\<close> is the protobuf encoding of
  the message \<open>Timestamp\<close>, and \<open>cdcEncode\<close> writes field 1 with the 32 bytes of the hash.
\<close>

definition contract_timestamp :: "uint64 \<Rightarrow> TimestampMsg" where
  "contract_timestamp nanos =
     \<lparr>Seconds = nanos div 1000000000, Nanos = ucast (nanos mod 1000000000)\<rparr>"

definition contract_cdcEncode :: "bytes \<Rightarrow> bytes" where
  "contract_cdcEncode bz = enc_bytes 0xA bz"

definition merkleRoot :: "hash_fun \<Rightarrow> uint64 \<Rightarrow> bytes \<Rightarrow> bytes list \<Rightarrow> bytes" where
  "merkleRoot H timestampNanos appHash p =
     (let timestampLeaf = leafHash H (Timestamp_enc (contract_timestamp timestampNanos));
          appHashLeaf = leafHash H (contract_cdcEncode appHash)
      in innerHash H
           (innerHash H (innerHash H (p ! 2) (innerHash H (p ! 4) timestampLeaf)) (p ! 0))
           (innerHash H (innerHash H (p ! 3) (innerHash H appHashLeaf (p ! 5))) (p ! 1)))"

section \<open>Facts\<close>

lemma tree_root_single: "tree_root H [x] = x"
  by (simp add: tree_root.simps)

lemma tree_root_split: "split_point (length ls) = k \<Longrightarrow> 1 < length ls \<Longrightarrow>
    tree_root H ls = innerHash H (tree_root H (take k ls)) (tree_root H (drop k ls))"
  by (subst tree_root.simps) (auto simp: Let_def)

lemma tree_root_2: "tree_root H [a, b] = innerHash H a b"
  by (subst tree_root_split [of _ 1]) (simp_all add: split_point_def tree_root_single)

lemma tree_root_4: "tree_root H [a, b, c, d] = innerHash H (innerHash H a b) (innerHash H c d)"
  by (subst tree_root_split [of _ 2]) (simp_all add: split_point_def tree_root_2)

text \<open>The tree of a header.\<close>

lemma tree_root_14:
  "tree_root H [l0, l1, l2, l3, l4, l5, l6, l7, l8, l9, l10, l11, l12, l13] =
     innerHash H
       (innerHash H
         (innerHash H (innerHash H l0 l1) (innerHash H l2 l3))
         (innerHash H (innerHash H l4 l5) (innerHash H l6 l7)))
       (innerHash H
         (innerHash H (innerHash H l8 l9) (innerHash H l10 l11))
         (innerHash H l12 l13))"
proof -
  have 8: "tree_root H [l0, l1, l2, l3, l4, l5, l6, l7] =
      innerHash H (innerHash H (innerHash H l0 l1) (innerHash H l2 l3))
        (innerHash H (innerHash H l4 l5) (innerHash H l6 l7))"
    by (subst tree_root_split [of _ 4]) (simp_all add: split_point_def tree_root_4)
  have 6: "tree_root H [l8, l9, l10, l11, l12, l13] =
      innerHash H (innerHash H (innerHash H l8 l9) (innerHash H l10 l11)) (innerHash H l12 l13)"
    by (subst tree_root_split [of _ 4]) (simp_all add: split_point_def tree_root_4 tree_root_2)
  show ?thesis
    by (subst tree_root_split [of _ 8]) (simp_all add: split_point_def 8 6)
qed

lemma getSimpleTreeProof_fields:
  "header_fields ms h = Some fs \<Longrightarrow> map (leafHash H) fs = ls \<Longrightarrow>
    getSimpleTreeProof H ms (Some h) = Some
      [innerHash H (innerHash H (ls ! 4) (ls ! 5)) (innerHash H (ls ! 6) (ls ! 7)),
       innerHash H (ls ! 12) (ls ! 13), innerHash H (ls ! 0) (ls ! 1),
       innerHash H (ls ! 8) (ls ! 9), ls ! 2, ls ! 11]"
  by (simp add: getSimpleTreeProof_def headerToLeaves_def Let_def)

section \<open>Properties\<close>

text \<open>
  What the gogoproto marshalers are documented to write: the \<open>Timestamp\<close> message of a time
  between the years 1 and 9999, and the wrapper message of a byte string.
\<close>

definition proto_time :: "go_time \<Rightarrow> TimestampMsg" where
  "proto_time t = \<lparr>Seconds = word_of_int (unix_seconds t), Nanos = word_of_nat (nanosecond t)\<rparr>"

definition valid_time :: "go_time \<Rightarrow> bool" where
  "valid_time t \<longleftrightarrow> - 62135596800 \<le> unix_seconds t \<and> unix_seconds t < 253402300800
     \<and> nanosecond t < 1000000000"

definition marshalers_ok :: "('v, 'b) marshalers \<Rightarrow> bool" where
  "marshalers_ok ms \<longleftrightarrow>
     (\<forall>t. valid_time t \<longrightarrow> StdTimeMarshal ms t = Inr (Timestamp_enc (proto_time t)))
     \<and> (\<forall>bs. BytesValue_Marshal ms bs = Inr (enc_opt_bytes 0xA bs))"

lemma contract_time:
  assumes "0 \<le> unix_seconds t" and "nanosecond t < 1000000000" and "unix_seconds t < 18446744073"
  shows "contract_timestamp (UnixNano t) = proto_time t"
proof -
  define s where "s = nat (unix_seconds t)"
  define n where "n = nanosecond t"
  have s: "unix_seconds t = int s" and "s < 18446744073" and n: "n < 1000000000"
    using assms by (simp_all add: s_def n_def)
  then have le: "s * 1000000000 + n < 2 ^ 64" by simp
  have "UnixNano t = word_of_nat (s * 1000000000 + n)"
    by (simp add: UnixNano_def s n_def [symmetric])
  with le have u: "unat (UnixNano t) = s * 1000000000 + n"
    by (simp only: unat_of_nat_64)
  have "unat (UnixNano t div 1000000000) = s" and m: "unat (UnixNano t mod 1000000000) = n"
    using n by (simp_all add: unat_div unat_mod u)
  then have "UnixNano t div 1000000000 = word_of_nat s"
    by (metis of_nat_unat ucast_id)
  moreover have "ucast (UnixNano t mod 1000000000) = (word_of_nat n :: 32 word)"
    using m by (metis of_nat_unat)
  ultimately show ?thesis
    by (simp add: contract_timestamp_def proto_time_def s n_def)
qed

lemma simple_tree_proof_root:
  assumes "marshalers_ok ms" and "header_fields ms h = Some fs"
    and "0 \<le> unix_seconds (hTime h)" and "unix_seconds (hTime h) < 18446744073"
    and "nanosecond (hTime h) < 1000000000"
    and "hAppHash h = Some a" and "a \<noteq> []"
  shows "\<exists>p. getSimpleTreeProof H ms (Some h) = Some p \<and> length p = 6
    \<and> merkleRoot H (UnixNano (hTime h)) a p = tree_root H (map (leafHash H) fs)"
proof -
  have t: "StdTimeMarshal ms (hTime h) = Inr (Timestamp_enc (contract_timestamp (UnixNano (hTime h))))"
    using assms(1,3-5) contract_time [of "hTime h"]
    by (simp add: marshalers_ok_def valid_time_def)
  have a: "cdcEncode ms (CdcHexBytes (hAppHash h)) = contract_cdcEncode a"
    using assms(1,6,7)
    by (simp add: cdcEncode_def isTypedNil_def isEmpty_def slice_def marshalers_ok_def
        enc_opt_bytes_def contract_cdcEncode_def)
  from assms(2) t a obtain f0 f1 f2 f4 f5 f6 f7 f8 f9 f11 f12 f13 where
    fs: "fs = [f0, f1, f2, Timestamp_enc (contract_timestamp (UnixNano (hTime h))), f4, f5, f6, f7, f8, f9,
      contract_cdcEncode a, f11, f12, f13]"
    by (auto simp: header_fields_def split: if_splits sum.splits)
  show ?thesis
    by (simp add: getSimpleTreeProof_fields [OF assms(2) refl]) (simp add: fs merkleRoot_def tree_root_14)
qed

text \<open>
  C17: From the timestamp, the application hash and the six siblings that the relayer sends,
  the contract recomputes the RFC 6962 root of the 14 fields of the header, which is the
  block hash CometBFT gives it.
\<close>

theorem simple_tree_proof_reconstructs:
  assumes "marshalers_ok ms" and "header_fields ms h = Some fs"
    and "0 \<le> unix_seconds (hTime h)" and "unix_seconds (hTime h) < 18446744073"
    and "nanosecond (hTime h) < 1000000000"
    and "hAppHash h = Some a" and "a \<noteq> []"
  shows "\<exists>p. getSimpleTreeProof H ms (Some h) = Some p \<and> length p = 6
    \<and> merkleRoot H (UnixNano (hTime h)) a p = tree_root H (map (leafHash H) fs)"
  using assms by (rule simple_tree_proof_root)

definition example_marshalers :: "(nat, bytes) marshalers" where
  "example_marshalers =
     \<lparr>marshal_version = (\<lambda>v. if v < 256 then Inr [0x8, word_of_nat v] else Inl ''version''),
      marshal_block_id = (\<lambda>b. Inr b),
      StdTimeMarshal = (\<lambda>t. if valid_time t then Inr (Timestamp_enc (proto_time t)) else Inl ''time''),
      StringValue_Marshal = (\<lambda>s. Inr (enc_opt_bytes 0xA (string_bytes s))),
      Int64Value_Marshal = (\<lambda>n. Inr (enc_opt_uint 0x8 n)),
      BytesValue_Marshal = (\<lambda>bs. Inr (enc_opt_bytes 0xA bs))\<rparr>"

lemma example_marshalers_ok: "marshalers_ok example_marshalers"
  by (simp add: marshalers_ok_def example_marshalers_def)

definition example_header :: "(nat, bytes) Header" where
  "example_header =
     \<lparr>hVersion = 11, hChainID = ''ibc0'', hHeight = 5, hTime = \<lparr>unix_seconds = 1700000000, nanosecond = 7\<rparr>,
      hLastBlockID = [], hLastCommitHash = None, hDataHash = Some [], hValidatorsHash = Some [1],
      hNextValidatorsHash = Some [1], hConsensusHash = Some [2], hAppHash = Some (replicate 32 3),
      hLastResultsHash = None, hEvidenceHash = None, hProposerAddress = Some [4]\<rparr>"

theorem simple_tree_proof_reconstructs_witness:
  "\<exists>p fs. getSimpleTreeProof Sum256 example_marshalers (Some example_header) = Some p
    \<and> merkleRoot Sum256 1700000000000000007 (replicate 32 3) p = tree_root Sum256 (map (leafHash Sum256) fs)"
proof -
  have "\<exists>fs. header_fields example_marshalers example_header = Some fs"
    by (simp add: header_fields_def example_marshalers_def example_header_def slice_def valid_time_def)
  then obtain fs where fs: "header_fields example_marshalers example_header = Some fs" ..
  have "\<exists>p. getSimpleTreeProof Sum256 example_marshalers (Some example_header) = Some p \<and> length p = 6
      \<and> merkleRoot Sum256 (UnixNano (hTime example_header)) (replicate 32 3) p =
        tree_root Sum256 (map (leafHash Sum256) fs)"
    by (rule simple_tree_proof_reconstructs [OF example_marshalers_ok fs])
      (simp_all add: example_header_def)
  moreover have "UnixNano (hTime example_header) = 1700000000000000007"
    by (simp add: UnixNano_def example_header_def)
  ultimately show ?thesis by auto
qed

text \<open>
  The relayer does not panic on the header of a signed block: the proof is \<open>None\<close> only for
  a nil header, an empty validators hash, or a version, time or block id that cannot be
  marshaled.
\<close>

theorem simple_tree_proof_panics_iff:
  "getSimpleTreeProof H ms h = None \<longleftrightarrow>
     (case h of None \<Rightarrow> True | Some h \<Rightarrow> slice (hValidatorsHash h) = []
       \<or> (\<exists>e. marshal_version ms (hVersion h) = Inl e) \<or> (\<exists>e. StdTimeMarshal ms (hTime h) = Inl e)
       \<or> (\<exists>e. marshal_block_id ms (hLastBlockID h) = Inl e))"
  by (auto simp: getSimpleTreeProof_def headerToLeaves_def header_fields_def Let_def
      split: option.splits sum.splits)

text \<open>The nine byte strings the contract hashes to recompute a root, in order.\<close>

definition merkle_inputs :: "hash_fun \<Rightarrow> uint64 \<Rightarrow> bytes \<Rightarrow> bytes list \<Rightarrow> bytes list" where
  "merkle_inputs H ts a p =
     (let tl = [0] @ Timestamp_enc (contract_timestamp ts);
          n1 = [1] @ p ! 4 @ H tl; n2 = [1] @ p ! 2 @ H n1; n3 = [1] @ H n2 @ p ! 0;
          al = [0] @ contract_cdcEncode a;
          n4 = [1] @ H al @ p ! 5; n5 = [1] @ p ! 3 @ H n4; n6 = [1] @ H n5 @ p ! 1
      in [tl, n1, n2, n3, al, n4, n5, n6, [1] @ H n3 @ H n6])"

lemma contract_timestamp_enc_inj:
  "Timestamp_enc (contract_timestamp t) = Timestamp_enc (contract_timestamp t') \<Longrightarrow> t = t'"
proof -
  assume e: "Timestamp_enc (contract_timestamp t) = Timestamp_enc (contract_timestamp t')"
  have "sov x \<le> 10" for x
  proof -
    have "bit_len (unat (x OR 1)) \<le> 64"
      using unsigned_less [of "x OR 1"] by (simp add: bit_len_le_iff)
    then show ?thesis by (simp add: sov_def)
  qed
  then have "length (Timestamp_enc m) \<le> 22" for m
    using add_mono [of "sov (Seconds m)" 10 "sov (scast (Nanos m))" 10]
    by (auto simp: Timestamp_enc_def length_enc_opt_uint le_Suc_eq)
  then have l: "length (Timestamp_enc m) < max_len" for m by (rule le_less_trans) simp
  have c: "contract_timestamp t = contract_timestamp t'"
    by (rule timestamp.enc_inj [OF e l])
  have b: "unat (x mod 1000000000) < 2 ^ 32" for x :: uint64
    using mod_less_divisor [of 1000000000 "unat x"] by (simp add: unat_mod)
  have "unat (ucast (x mod 1000000000) :: 32 word) = unat (x mod 1000000000)" for x :: uint64
    using b [of x] by (simp add: unsigned_ucast_eq take_bit_nat_eq_self)
  with c have "t mod 1000000000 = t' mod 1000000000" and "t div 1000000000 = t' div 1000000000"
    by (auto simp: contract_timestamp_def intro: unsigned_word_eqI) (metis unsigned_word_eqI)
  then show "t = t'" by (metis div_mult_mod_eq)
qed

lemma contract_cdcEncode_inj:
  "length a = 32 \<Longrightarrow> length a' = 32 \<Longrightarrow> contract_cdcEncode a = contract_cdcEncode a' \<Longrightarrow> a = a'"
  by (simp add: contract_cdcEncode_def enc_bytes_def)

lemma merkle_inputs_six:
  assumes "map length p = replicate 6 (32::nat)" and "\<forall>x \<in> set (merkle_inputs H t a p). length (H x) = 32"
  obtains p0 p1 p2 p3 p4 p5 nt n1 n2 n3 na n4 n5 n6 n7 where "p = [p0, p1, p2, p3, p4, p5]"
    and "merkle_inputs H t a p = [nt, n1, n2, n3, na, n4, n5, n6, n7]" and "merkleRoot H t a p = H n7"
    and "n7 = [1] @ H n3 @ H n6" and "n6 = [1] @ H n5 @ p1" and "n5 = [1] @ p3 @ H n4"
    and "n4 = [1] @ H na @ p5" and "na = [0] @ contract_cdcEncode a"
    and "n3 = [1] @ H n2 @ p0" and "n2 = [1] @ p2 @ H n1" and "n1 = [1] @ p4 @ H nt"
    and "nt = [0] @ Timestamp_enc (contract_timestamp t)"
    and "length p2 = 32" and "length p3 = 32" and "length p4 = 32"
    and "length (H n2) = 32" and "length (H n3) = 32" and "length (H na) = 32" and "length (H n5) = 32"
proof -
  obtain p0 p1 p2 p3 p4 p5 where p: "p = [p0, p1, p2, p3, p4, p5]"
      "length p2 = 32" "length p3 = 32" "length p4 = 32"
    using assms(1) by (auto simp: eval_nat_numeral map_eq_Cons_conv)
  define nt where "nt = [0] @ Timestamp_enc (contract_timestamp t)"
  define n1 where "n1 = [1] @ p4 @ H nt"
  define n2 where "n2 = [1] @ p2 @ H n1"
  define n3 where "n3 = [1] @ H n2 @ p0"
  define na where "na = [0] @ contract_cdcEncode a"
  define n4 where "n4 = [1] @ H na @ p5"
  define n5 where "n5 = [1] @ p3 @ H n4"
  define n6 where "n6 = [1] @ H n5 @ p1"
  define n7 where "n7 = [1] @ H n3 @ H n6"
  note n_defs = nt_def n1_def n2_def n3_def na_def n4_def n5_def n6_def n7_def
  have i: "merkle_inputs H t a p = [nt, n1, n2, n3, na, n4, n5, n6, n7]"
    by (simp add: merkle_inputs_def Let_def p n_defs)
  have r: "merkleRoot H t a p = H n7"
    by (simp add: merkleRoot_def innerHash_def leafHash_def Let_def p n_defs)
  from assms(2) have "length (H n2) = 32" "length (H n3) = 32" "length (H na) = 32" "length (H n5) = 32"
    by (simp_all add: i)
  with that [OF p(1) i r n7_def n6_def n5_def n4_def na_def n3_def n2_def n1_def nt_def p(2-4)]
  show ?thesis .
qed

lemma merkleRoot_injD:
  assumes inj: "inj_on H (set (merkle_inputs H t a p @ merkle_inputs H t' a' p'))"
    and H: "\<forall>x \<in> set (merkle_inputs H t a p @ merkle_inputs H t' a' p'). length (H x) = 32"
    and len: "length a = 32" "length a' = 32" "map length p = replicate 6 32" "map length p' = replicate 6 32"
    and root: "merkleRoot H t a p = merkleRoot H t' a' p'"
  shows "t = t' \<and> a = a' \<and> p = p'"
proof -
  have H1: "\<forall>x \<in> set (merkle_inputs H t a p). length (H x) = 32"
    and H2: "\<forall>x \<in> set (merkle_inputs H t' a' p'). length (H x) = 32"
    using H by simp_all
  obtain p0 p1 p2 p3 p4 p5 nt n1 n2 n3 na n4 n5 n6 n7 where n: "p = [p0, p1, p2, p3, p4, p5]"
      "merkle_inputs H t a p = [nt, n1, n2, n3, na, n4, n5, n6, n7]" "merkleRoot H t a p = H n7"
      "n7 = [1] @ H n3 @ H n6" "n6 = [1] @ H n5 @ p1" "n5 = [1] @ p3 @ H n4"
      "n4 = [1] @ H na @ p5" "na = [0] @ contract_cdcEncode a"
      "n3 = [1] @ H n2 @ p0" "n2 = [1] @ p2 @ H n1" "n1 = [1] @ p4 @ H nt"
      "nt = [0] @ Timestamp_enc (contract_timestamp t)"
      "length p2 = 32" "length p3 = 32" "length p4 = 32"
      "length (H n2) = 32" "length (H n3) = 32" "length (H na) = 32" "length (H n5) = 32"
    by (rule merkle_inputs_six [OF len(3) H1])
  obtain q0 q1 q2 q3 q4 q5 mt m1 m2 m3 ma m4 m5 m6 m7 where m: "p' = [q0, q1, q2, q3, q4, q5]"
      "merkle_inputs H t' a' p' = [mt, m1, m2, m3, ma, m4, m5, m6, m7]" "merkleRoot H t' a' p' = H m7"
      "m7 = [1] @ H m3 @ H m6" "m6 = [1] @ H m5 @ q1" "m5 = [1] @ q3 @ H m4"
      "m4 = [1] @ H ma @ q5" "ma = [0] @ contract_cdcEncode a'"
      "m3 = [1] @ H m2 @ q0" "m2 = [1] @ q2 @ H m1" "m1 = [1] @ q4 @ H mt"
      "mt = [0] @ Timestamp_enc (contract_timestamp t')"
      "length q2 = 32" "length q3 = 32" "length q4 = 32"
      "length (H m2) = 32" "length (H m3) = 32" "length (H ma) = 32" "length (H m5) = 32"
    by (rule merkle_inputs_six [OF len(4) H2])
  have eq: "x = y" if "H x = H y" "x \<in> set (merkle_inputs H t a p)" "y \<in> set (merkle_inputs H t' a' p')"
    for x y
    by (rule inj_onD [OF inj that(1)]) (simp_all add: that(2,3))
  note inputs = n(2) m(2)
  from root have "H n7 = H m7" by (simp only: n(3) m(3))
  then have "n7 = m7" by (rule eq; simp add: inputs)
  then have 7: "H n3 = H m3" "H n6 = H m6" unfolding n(4) m(4) using n(17) m(17) by simp_all
  with eq [OF 7(1)] eq [OF 7(2)] have "n3 = m3" "n6 = m6" by (simp_all add: inputs)
  then have 6: "H n2 = H m2" "p0 = q0" "H n5 = H m5" "p1 = q1"
    unfolding n(5,9) m(5,9) using n(16,19) m(16,19) by simp_all
  with eq [OF 6(1)] eq [OF 6(3)] have "n2 = m2" "n5 = m5" by (simp_all add: inputs)
  then have 5: "p2 = q2" "H n1 = H m1" "p3 = q3" "H n4 = H m4"
    unfolding n(6,10) m(6,10) using n(13,14) m(13,14) by simp_all
  with eq [OF 5(2)] eq [OF 5(4)] have "n1 = m1" "n4 = m4" by (simp_all add: inputs)
  then have 4: "p4 = q4" "H nt = H mt" "H na = H ma" "p5 = q5"
    unfolding n(7,11) m(7,11) using n(15,18) m(15,18) by simp_all
  with eq [OF 4(2)] eq [OF 4(3)] have "nt = mt" "na = ma" by (simp_all add: inputs)
  with len have "t = t'" "a = a'"
    by (auto simp: n(8,12) m(8,12) intro: contract_timestamp_enc_inj contract_cdcEncode_inj)
  with 4 5 6 show ?thesis by (simp add: n(1) m(1))
qed

text \<open>
  The six siblings bind: if the hash has no collision among the strings that are hashed,
  two triples of a timestamp, an application hash and six siblings that give the same
  block hash are the same. Nobody can prove another timestamp or another application
  hash for a block hash the contract accepted.
\<close>

theorem merkleRoot_binding:
  assumes "inj_on H (set (merkle_inputs H t a p @ merkle_inputs H t' a' p'))"
    and "\<forall>x \<in> set (merkle_inputs H t a p @ merkle_inputs H t' a' p'). length (H x) = 32"
    and "length a = 32" "length a' = 32" "map length p = replicate 6 32" "map length p' = replicate 6 32"
  shows "merkleRoot H t a p = merkleRoot H t' a' p' \<longleftrightarrow> t = t' \<and> a = a' \<and> p = p'"
  using merkleRoot_injD [OF assms] by auto

text \<open>A hash without a collision on the strings of the example.\<close>

definition toy_hash :: hash_fun where
  "toy_hash x = (let y = drop 1 x @ replicate 64 0 in map2 (+) (take 32 y) (take 32 (drop 32 y)))"

definition toy_siblings :: "bytes list" where
  "toy_siblings = map (\<lambda>k. k # replicate 31 0) [1, 2, 4, 8, 16, 32]"

lemma length_toy_hash: "length (toy_hash x) = 32"
  by (simp add: toy_hash_def Let_def)

lemma toy_hash_distinct:
  "distinct (map toy_hash (remdups (merkle_inputs toy_hash 1 (replicate 32 0) toy_siblings
     @ merkle_inputs toy_hash 2 (replicate 32 0) toy_siblings)))"
  by code_simp

theorem merkleRoot_binding_witness:
  "merkleRoot toy_hash 1 (replicate 32 0) toy_siblings \<noteq> merkleRoot toy_hash 2 (replicate 32 0) toy_siblings"
proof -
  have "inj_on toy_hash (set (merkle_inputs toy_hash 1 (replicate 32 0) toy_siblings
      @ merkle_inputs toy_hash 2 (replicate 32 0) toy_siblings))"
    using toy_hash_distinct by (simp only: distinct_map set_remdups)
  moreover have "map length toy_siblings = replicate 6 32"
    by (simp add: toy_siblings_def eval_nat_numeral)
  ultimately show ?thesis
    using merkleRoot_binding [of toy_hash 1 "replicate 32 0" toy_siblings 2 "replicate 32 0" toy_siblings]
    by (simp add: length_toy_hash)
qed

end
