(* ===== verification/Groth16_Proofs.thy ===== *)
theory Groth16_Proofs
  imports Go_Std
begin

text \<open>
  The proofs of \<open>go/relay/zkp\<close>: the two Groth16 proof types with their parsers and their
  Ethereum ABI forms, and the mock proof. The ABI packer of go-ethereum is the record
  \<open>abi\<close>; \<open>abi_ok\<close> is the encoding the contract ABI specification gives to the static types
  the code asks for (arrays of \<open>uint256\<close> and a tuple of them).
\<close>

section \<open>The packer\<close>

text \<open>
  \<open>abi_pack\<close> gets the arrays of the type in order, \<open>abi_unpack\<close> their sizes and the bytes.
\<close>

record abi =
  abi_pack :: "nat list list \<Rightarrow> string + bytes"
  abi_unpack :: "nat list \<Rightarrow> bytes \<Rightarrow> string + nat list list"

definition abi_encoding :: "nat list list \<Rightarrow> bytes" where
  "abi_encoding vss = concat (map (be_pad 32) (concat vss))"

text \<open>The words of the arrays, read one after the other.\<close>

fun abi_words :: "nat \<Rightarrow> bytes \<Rightarrow> nat list" where
  "abi_words 0 bs = []"
| "abi_words (Suc n) bs = be_nat (take 32 bs) # abi_words n (drop 32 bs)"

fun abi_arrays :: "nat list \<Rightarrow> bytes \<Rightarrow> nat list list" where
  "abi_arrays [] bs = []"
| "abi_arrays (n # ns) bs = abi_words n bs # abi_arrays ns (drop (32 * n) bs)"

definition uint256s :: "nat list list \<Rightarrow> bool" where
  "uint256s vss \<longleftrightarrow> list_all (list_all (\<lambda>v. v < 2 ^ 256)) vss"

definition abi_ok :: "abi \<Rightarrow> bool" where
  "abi_ok a \<longleftrightarrow>
     (\<forall>vss. uint256s vss \<longrightarrow> abi_pack a vss = Inr (abi_encoding vss)) \<and>
     (\<forall>ns bs. 32 * sum_list ns \<le> length bs \<longrightarrow> abi_unpack a ns bs = Inr (abi_arrays ns bs))"

section \<open>Groth16\<close>

definition nbCommitments :: int where "nbCommitments = 1"
definition fpSize :: nat where "fpSize = 4 * 8"

datatype proof_error =
    SliceOutOfRange
  | CommitmentCount int int
  | AbiError string
  | AbiPanic string

type_synonym Groth16Proof = "nat list"

text \<open>The \<open>i\<close>-th field element from \<open>offset\<close> on.\<close>

definition fp_at :: "go_slice \<Rightarrow> nat \<Rightarrow> proof_error + nat" where
  "fp_at s offset = (case slice_expr s offset (offset + fpSize) of
     None \<Rightarrow> Inl SliceOutOfRange | Some bs \<Rightarrow> Inr (be_nat bs))"

fun fps_at :: "go_slice \<Rightarrow> nat \<Rightarrow> nat \<Rightarrow> nat \<Rightarrow> proof_error + nat list" where
  "fps_at s offset i 0 = Inr []"
| "fps_at s offset i (Suc n) = rbind (fp_at s (offset + i * fpSize)) (\<lambda>v.
     rbind (fps_at s offset (i + 1) n) (\<lambda>vs. Inr (v # vs)))"

definition ParseGroth16Proof :: "go_slice \<Rightarrow> proof_error + Groth16Proof" where
  "ParseGroth16Proof proofBytes = fps_at proofBytes 0 0 8"

definition abi_result :: "string + 'a \<Rightarrow> proof_error + 'a" where
  "abi_result r = (case r of Inl e \<Rightarrow> Inl (AbiError e) | Inr x \<Rightarrow> Inr x)"

definition EthABIEncodeGroth16Proof :: "abi \<Rightarrow> Groth16Proof \<Rightarrow> proof_error + bytes" where
  "EthABIEncodeGroth16Proof a proof = abi_result (abi_pack a [proof])"

definition EthABIDecodeGroth16Proof :: "abi \<Rightarrow> bytes \<Rightarrow> proof_error + Groth16Proof" where
  "EthABIDecodeGroth16Proof a bz = rbind (abi_result (abi_unpack a [8] bz)) (\<lambda>v. Inr (v ! 0))"

text \<open>\<open>EncodeEthABI\<close> has no error result: it panics.\<close>

definition panic_on_error :: "proof_error + 'a \<Rightarrow> proof_error + 'a" where
  "panic_on_error r = (case r of Inl (AbiError e) \<Rightarrow> Inl (AbiPanic e) | _ \<Rightarrow> r)"

definition Groth16Proof_EncodeEthABI :: "abi \<Rightarrow> Groth16Proof \<Rightarrow> proof_error + bytes" where
  "Groth16Proof_EncodeEthABI a p = panic_on_error (EthABIEncodeGroth16Proof a p)"

section \<open>Groth16 with a commitment\<close>

record Groth16CommitmentProof =
  Proof :: "nat list"
  Commitments :: "nat list"
  CommitmentPok :: "nat list"

definition ParseGroth16CommitmentProof :: "go_slice \<Rightarrow> proof_error + Groth16CommitmentProof" where
  "ParseGroth16CommitmentProof proofBytes =
     rbind (fps_at proofBytes 0 0 8) (\<lambda>proof.
       case slice_expr proofBytes (fpSize * 8) (fpSize * 8 + 4) of None \<Rightarrow> Inl SliceOutOfRange
       | Some c \<Rightarrow>
         let commitmentCount = int64 (int (be_nat c)) in
         if commitmentCount \<noteq> nbCommitments then Inl (CommitmentCount commitmentCount nbCommitments)
         else
           let n = 2 * nat commitmentCount in
           rbind (fps_at proofBytes (fpSize * 8 + 4) 0 n) (\<lambda>commitments.
           rbind (fps_at proofBytes (fpSize * 8 + 4 + n * fpSize) 0 2) (\<lambda>pok.
             Inr \<lparr>Proof = proof, Commitments = commitments, CommitmentPok = pok\<rparr>)))"

definition EthABIEncodeGroth16CommitmentProof :: "abi \<Rightarrow> Groth16CommitmentProof \<Rightarrow> proof_error + bytes" where
  "EthABIEncodeGroth16CommitmentProof a p =
     abi_result (abi_pack a [Proof p, Commitments p, CommitmentPok p])"

definition EthABIDecodeGroth16CommitmentProof :: "abi \<Rightarrow> bytes \<Rightarrow> proof_error + Groth16CommitmentProof" where
  "EthABIDecodeGroth16CommitmentProof a data = rbind (abi_result (abi_unpack a [8, 2, 2] data)) (\<lambda>v.
     Inr \<lparr>Proof = v ! 0, Commitments = v ! 1, CommitmentPok = v ! 2\<rparr>)"

definition Groth16CommitmentProof_EncodeEthABI :: "abi \<Rightarrow> Groth16CommitmentProof \<Rightarrow> proof_error + bytes" where
  "Groth16CommitmentProof_EncodeEthABI a p = panic_on_error (EthABIEncodeGroth16CommitmentProof a p)"

section \<open>The interface \<open>ZKProof\<close>\<close>

definition Groth16ProverType :: string where "Groth16ProverType = ''groth16''"
definition Groth16CommitmentProverType :: string where
  "Groth16CommitmentProverType = ''groth16-commitment''"
definition MockProverType :: string where "MockProverType = ''mock''"

datatype ZKProof =
    Groth16 Groth16Proof
  | Groth16Commitment Groth16CommitmentProof
  | MockProof

definition mockProof_EncodeEthABI :: bytes where
  "mockProof_EncodeEthABI = string_bytes ''mock''"

definition EncodeEthABI :: "abi \<Rightarrow> ZKProof \<Rightarrow> proof_error + bytes" where
  "EncodeEthABI a zk = (case zk of
     Groth16 p \<Rightarrow> Groth16Proof_EncodeEthABI a p
   | Groth16Commitment p \<Rightarrow> Groth16CommitmentProof_EncodeEthABI a p
   | MockProof \<Rightarrow> Inr mockProof_EncodeEthABI)"

section \<open>Facts on words\<close>

lemma abi_encoding_Nil [simp]: "abi_encoding [] = []"
  by (simp add: abi_encoding_def)

lemma abi_encoding_Cons: "abi_encoding (vs # vss) = concat (map (be_pad 32) vs) @ abi_encoding vss"
  by (simp add: abi_encoding_def)

lemma uint256s_Cons [simp]: "uint256s (vs # vss) \<longleftrightarrow> list_all (\<lambda>v. v < 2 ^ 256) vs \<and> uint256s vss"
  and uint256s_Nil [simp]: "uint256s []"
  by (simp_all add: uint256s_def)

lemma length_pad32: "v < 2 ^ 256 \<Longrightarrow> length (be_pad 32 v) = 32"
  by (rule length_be_pad) simp

lemma length_words: "list_all (\<lambda>v. v < 2 ^ 256) vs \<Longrightarrow> length (concat (map (be_pad 32) vs)) = 32 * length vs"
  by (induction vs) (simp_all add: length_pad32)

lemma abi_words_pad:
  "list_all (\<lambda>v. v < 2 ^ 256) vs \<Longrightarrow> abi_words (length vs) (concat (map (be_pad 32) vs) @ rest) = vs"
  by (induction vs) (simp_all add: length_pad32)

lemma abi_arrays_encoding: "uint256s vss \<Longrightarrow> abi_arrays (map length vss) (abi_encoding vss) = vss"
  by (induction vss) (simp_all add: abi_encoding_Cons abi_words_pad length_words)

lemma length_abi_encoding: "uint256s vss \<Longrightarrow> length (abi_encoding vss) = 32 * sum_list (map length vss)"
  by (induction vss) (simp_all add: abi_encoding_Cons length_words)

lemma fps_at_total:
  "fps_at s off i n =
     (if n = 0 \<or> off + (i + n) * 32 \<le> length (fst s @ snd s)
      then Inr (abi_words n (drop (off + i * 32) (fst s @ snd s))) else Inl SliceOutOfRange)"
proof (induction n arbitrary: i)
  case (Suc n)
  let ?b = "fst s @ snd s"
  show ?case
  proof (cases "off + (i + 1) * 32 \<le> length ?b")
    case True
    then have "fp_at s (off + i * fpSize) = Inr (be_nat (take 32 (drop (off + i * 32) ?b)))"
      by (simp add: fp_at_def slice_expr_def fpSize_def)
    moreover have "n \<noteq> 0 \<or> off + (i + Suc n) * 32 \<le> length ?b" using True by auto
    moreover have "drop 32 (drop (off + i * 32) ?b) = drop (off + Suc i * 32) ?b"
      by (simp only: drop_drop) (simp only: mult_Suc ac_simps)
    ultimately show ?thesis
      by (auto simp: Suc.IH simp del: length_append drop_append mult_Suc drop_drop)
  next
    case False
    then show ?thesis by (simp add: fp_at_def slice_expr_def fpSize_def)
  qed
qed simp

lemma abi_words_less: "32 * n \<le> length bs \<Longrightarrow> list_all (\<lambda>v. v < 2 ^ 256) (abi_words n bs)"
proof (induction n arbitrary: bs)
  case (Suc n)
  then have "be_nat (take 32 bs) < 256 ^ 32" using be_nat_less [of "take 32 bs"] by simp
  with Suc show ?case by simp
qed simp

lemma abi_words_bytes: "32 * n \<le> length bs \<Longrightarrow> concat (map (be_pad 32) (abi_words n bs)) = take (32 * n) bs"
proof (induction n arbitrary: bs)
  case (Suc n)
  then have "be_pad 32 (be_nat (take 32 bs)) = take 32 bs"
    using be_pad_be_nat [of "take 32 bs"] by simp
  moreover have "take (32 * Suc n) bs = take 32 bs @ take (32 * n) (drop 32 bs)"
    using take_add [of 32 "32 * n" bs] by simp
  ultimately show ?case using Suc by simp
qed simp

lemma length_abi_words [simp]: "length (abi_words n bs) = n"
  by (induction n arbitrary: bs) simp_all

section \<open>Properties\<close>

text \<open>What the packer does to a proof, once its words fit.\<close>

lemma Groth16Proof_EncodeEthABI_ok:
  "abi_ok a \<Longrightarrow> list_all (\<lambda>v. v < 2 ^ 256) p \<Longrightarrow>
    Groth16Proof_EncodeEthABI a p = Inr (concat (map (be_pad 32) p))"
  by (simp add: Groth16Proof_EncodeEthABI_def EthABIEncodeGroth16Proof_def abi_ok_def abi_result_def
      panic_on_error_def abi_encoding_Cons)

lemma Groth16CommitmentProof_EncodeEthABI_ok:
  "abi_ok a \<Longrightarrow> uint256s [Proof p, Commitments p, CommitmentPok p] \<Longrightarrow>
    Groth16CommitmentProof_EncodeEthABI a p = Inr (abi_encoding [Proof p, Commitments p, CommitmentPok p])"
  by (simp add: Groth16CommitmentProof_EncodeEthABI_def EthABIEncodeGroth16CommitmentProof_def
      abi_ok_def abi_result_def panic_on_error_def)

text \<open>
  What the contract receives for a Groth16 proof is the first 256 bytes of what the
  prover service sent, bit for bit; a proof whose buffer is shorter than that makes the
  parser panic, it never returns an error.
\<close>

theorem groth16_parse_encode:
  assumes "abi_ok a"
  shows "rbind (ParseGroth16Proof s) (Groth16Proof_EncodeEthABI a) =
    (if length (fst s @ snd s) < 256 then Inl SliceOutOfRange else Inr (take 256 (fst s @ snd s)))"
  using abi_words_bytes [of 8 "fst s @ snd s"] abi_words_less [of 8 "fst s @ snd s"]
  by (simp add: ParseGroth16Proof_def fps_at_total Groth16Proof_EncodeEthABI_ok [OF assms] not_less
      del: length_append take_append abi_words.simps)

text \<open>A packer that follows the specification.\<close>

definition static_abi :: abi where
  "static_abi = \<lparr>abi_pack = (\<lambda>vss. Inr (abi_encoding vss)),
     abi_unpack = (\<lambda>ns bs. if length bs < 32 * sum_list ns then Inl ''abi: length insufficient''
       else Inr (abi_arrays ns bs))\<rparr>"

lemma static_abi_ok: "abi_ok static_abi"
  by (simp add: abi_ok_def static_abi_def)

theorem groth16_parse_encode_witness:
  "rbind (ParseGroth16Proof (replicate 255 7, [9, 9, 9])) (Groth16Proof_EncodeEthABI static_abi) =
     Inr (replicate 255 7 @ [9])"
  using groth16_parse_encode [OF static_abi_ok, of "(replicate 255 7, [9, 9, 9])"] by simp

text \<open>
  The same for a proof with a commitment: the contract gets the eight words of the
  proof and the four words of the commitment and its proof of knowledge, the four bytes
  of the commitment count between them are dropped; any count but one is an error, and a
  buffer that is too short is a panic.
\<close>

theorem groth16_commitment_parse_encode:
  assumes "abi_ok a"
  shows "rbind (ParseGroth16CommitmentProof s) (Groth16CommitmentProof_EncodeEthABI a) =
    (let b = fst s @ snd s; c = int (be_nat (take 4 (drop 256 b))) in
     if length b < 260 then Inl SliceOutOfRange
     else if c \<noteq> 1 then Inl (CommitmentCount c 1)
     else if length b < 388 then Inl SliceOutOfRange
     else Inr (take 256 b @ take 128 (drop 260 b)))"
proof -
  define b where "b = fst s @ snd s"
  define c where "c = be_nat (take 4 (drop 256 b))"
  have "c < 256 ^ 4"
    using be_nat_less [of "take 4 (drop 256 b)"] unfolding c_def
    by (rule less_le_trans) (intro power_increasing; simp)
  then have c64: "int64 (int c) = int c" by (intro int64_id) simp_all
  have w: "list_all (\<lambda>v. v < 2 ^ 256) (abi_words 8 b)" if "256 \<le> length b"
    using abi_words_less [of 8 b] that by simp
  have w2: "list_all (\<lambda>v. v < 2 ^ 256) (abi_words 2 (drop k b))" if "k + 64 \<le> length b" for k
    using abi_words_less [of 2 "drop k b"] that by simp
  have t: "take 128 (drop 260 b) = take 64 (drop 260 b) @ take 64 (drop 324 b)"
    using take_add [of 64 64 "drop 260 b"] by simp
  have sl: "slice_expr s 256 260 = (if length b < 260 then None else Some (take 4 (drop 256 b)))"
    by (simp add: slice_expr_def b_def)
  have e: "abi_encoding [abi_words 8 b, abi_words 2 (drop 260 b), abi_words 2 (drop 324 b)] =
      take 256 b @ take 128 (drop 260 b)" if "388 \<le> length b"
    using that by (simp only: abi_encoding_Cons abi_encoding_Nil t append_Nil2) (simp add: abi_words_bytes)
  show ?thesis
    unfolding Let_def b_def [symmetric] c_def [symmetric]
    using c64 w w2 [of 260] w2 [of 324] e
    by (auto simp: ParseGroth16CommitmentProof_def fps_at_total fpSize_def nbCommitments_def sl Let_def
        Groth16CommitmentProof_EncodeEthABI_ok [OF assms] simp flip: b_def c_def simp del: abi_words.simps)
qed

theorem groth16_commitment_parse_encode_witness:
  "rbind (ParseGroth16CommitmentProof (replicate 256 1 @ [0, 0, 0, 2], []))
     (Groth16CommitmentProof_EncodeEthABI static_abi) = Inl (CommitmentCount 2 1)"
  using groth16_commitment_parse_encode [OF static_abi_ok, of "(replicate 256 1 @ [0, 0, 0, 2], [])"]
  by (simp add: Let_def)

text \<open>
  The ABI forms of both proof types decode to the proof that was encoded.
\<close>

theorem proofs_abi_roundtrip:
  assumes "abi_ok a" and "length p = 8" and "list_all (\<lambda>v. v < 2 ^ 256) p"
    and "length (Proof q) = 8" and "length (Commitments q) = 2" and "length (CommitmentPok q) = 2"
    and "uint256s [Proof q, Commitments q, CommitmentPok q]"
  shows "rbind (EthABIEncodeGroth16Proof a p) (EthABIDecodeGroth16Proof a) = Inr p
    \<and> rbind (EthABIEncodeGroth16CommitmentProof a q) (EthABIDecodeGroth16CommitmentProof a) = Inr q"
proof
  have u: "abi_pack a vss = Inr (abi_encoding vss)"
      "abi_unpack a (map length vss) (abi_encoding vss) = Inr vss" if "uint256s vss" for vss
    using assms(1) that by (simp_all add: abi_ok_def length_abi_encoding abi_arrays_encoding)
  show "rbind (EthABIEncodeGroth16Proof a p) (EthABIDecodeGroth16Proof a) = Inr p"
    using u [of "[p]"] assms(2,3)
    by (simp add: EthABIEncodeGroth16Proof_def EthABIDecodeGroth16Proof_def abi_result_def)
  show "rbind (EthABIEncodeGroth16CommitmentProof a q) (EthABIDecodeGroth16CommitmentProof a) = Inr q"
    using u [OF assms(7)] assms(4-6)
    by (simp add: EthABIEncodeGroth16CommitmentProof_def EthABIDecodeGroth16CommitmentProof_def
        abi_result_def)
qed

definition example_commitment_proof :: Groth16CommitmentProof where
  "example_commitment_proof = \<lparr>Proof = [1, 2, 3, 4, 5, 6, 7, 8], Commitments = [9, 10],
     CommitmentPok = [11, 2 ^ 256 - 1]\<rparr>"

theorem proofs_abi_roundtrip_witness:
  "rbind (EthABIEncodeGroth16CommitmentProof static_abi example_commitment_proof)
     (EthABIDecodeGroth16CommitmentProof static_abi) = Inr example_commitment_proof"
  using proofs_abi_roundtrip [OF static_abi_ok, of "[1, 2, 3, 4, 5, 6, 7, 8]" example_commitment_proof]
  by (simp add: example_commitment_proof_def)

lemma fps_at_typed: "fps_at s off i n = Inr vs \<Longrightarrow> length vs = n \<and> list_all (\<lambda>v. v < 2 ^ 256) vs"
proof (induction s off i n arbitrary: vs rule: fps_at.induct)
  case (2 s off i n)
  have "v < 2 ^ 256" if "fp_at s off' = Inr v" for v off'
  proof -
    from that obtain bs where "slice_expr s off' (off' + 32) = Some bs" and v: "v = be_nat bs"
      by (auto simp: fp_at_def fpSize_def split: option.splits)
    then have "length bs = 32" by (auto simp: slice_expr_def split: if_splits)
    then show ?thesis using be_nat_less [of bs] v by simp
  qed
  with 2 show ?case by (auto simp: rbind_eq_Inr_iff)
qed simp

lemma ParseGroth16Proof_typed: "ParseGroth16Proof s = Inr p \<Longrightarrow> length p = 8 \<and> uint256s [p]"
  by (auto simp: ParseGroth16Proof_def uint256s_def dest: fps_at_typed)

lemma ParseGroth16CommitmentProof_typed:
  "ParseGroth16CommitmentProof s = Inr q \<Longrightarrow> length (Proof q) = 8 \<and> length (Commitments q) = 2
    \<and> length (CommitmentPok q) = 2 \<and> uint256s [Proof q, Commitments q, CommitmentPok q]"
  by (auto simp: ParseGroth16CommitmentProof_def rbind_eq_Inr_iff Let_def nbCommitments_def uint256s_def
      split: option.splits if_splits dest!: fps_at_typed)

text \<open>
  C35: The types of parsed proofs: whatever bytes the service sends, a proof that a parser returns has the
  shape of its ABI type, eight words, or eight, two and two, each below \<open>2^256\<close>; so
  \<open>EncodeEthABI\<close> never panics on a proof that was parsed.
\<close>

theorem parsed_proofs_typed:
  assumes "abi_ok a"
  shows "(ParseGroth16Proof s = Inr p \<longrightarrow> length p = 8 \<and> uint256s [p] \<and> (\<exists>bs. Groth16Proof_EncodeEthABI a p = Inr bs))
    \<and> (ParseGroth16CommitmentProof s = Inr q \<longrightarrow>
        length (Proof q) = 8 \<and> length (Commitments q) = 2 \<and> length (CommitmentPok q) = 2
        \<and> uint256s [Proof q, Commitments q, CommitmentPok q]
        \<and> (\<exists>bs. Groth16CommitmentProof_EncodeEthABI a q = Inr bs))"
  using ParseGroth16Proof_typed [of s p] ParseGroth16CommitmentProof_typed [of s q]
    Groth16Proof_EncodeEthABI_ok [OF assms, of p] Groth16CommitmentProof_EncodeEthABI_ok [OF assms, of q]
  by (simp add: uint256s_def)

theorem parsed_proofs_typed_witness:
  "\<exists>p bs. ParseGroth16Proof (replicate 256 1, []) = Inr p \<and> length p = 8 \<and> Groth16Proof_EncodeEthABI static_abi p = Inr bs"
proof -
  obtain p where "ParseGroth16Proof (replicate 256 1, []) = Inr p"
    by (simp add: ParseGroth16Proof_def fps_at_total)
  with parsed_proofs_typed [OF static_abi_ok, of "(replicate 256 1, [])" p] show ?thesis by blast
qed

end
