(* ===== verification/ZK_Prover.thy ===== *)
theory ZK_Prover
  imports Sha256 Groth16_Proofs
begin

text \<open>
  The client of the proving service, \<open>go/relay/zkprover.go\<close>: the public inputs the relayer
  expects (\<open>proveMock\<close>), the request and the checks on the response (\<open>Prove\<close>), and the JSON
  form of a public input (\<open>HexBigInt\<close>). \<open>AsyncProve\<close> is in \<open>Async_Prove\<close>.

  The header query of the CometBFT client followed by \<open>Header.Hash\<close> is the function
  \<open>tm_header_hash\<close> of the client; the HTTP exchange with the service, read up to the strings
  of the JSON document, is \<open>http_get\<close>.
\<close>

section \<open>Public inputs in JSON\<close>

text \<open>
  A \<open>HexBigInt\<close> is a non-negative number. \<open>json_string\<close> is \<open>json.Marshal\<close> of a string that
  needs no escape; reading a JSON string is the argument \<open>json_unquote\<close>.
\<close>

type_synonym HexBigInt = nat

definition HexBigInt_Bytes :: "HexBigInt \<Rightarrow> bytes" where
  "HexBigInt_Bytes b = be_bytes b"

definition json_string :: "string \<Rightarrow> string" where
  "json_string s = [CHR 0x22] @ s @ [CHR 0x22]"

fun comma_separated :: "string list \<Rightarrow> string" where
  "comma_separated [] = []"
| "comma_separated [x] = x"
| "comma_separated (x # y # xs) = x @ '','' @ comma_separated (y # xs)"

definition json_array :: "string list \<Rightarrow> string" where
  "json_array xs = ''['' @ comma_separated xs @ '']''"

definition json_object :: "(string \<times> string) list \<Rightarrow> string" where
  "json_object fs = ''{'' @ comma_separated (map (\<lambda>(k, v). json_string k @ '':'' @ v) fs) @ ''}''"

definition HexBigInt_MarshalJSON :: "HexBigInt \<Rightarrow> string" where
  "HexBigInt_MarshalJSON b =
     (let bz = be_bytes b; hexString = ''0x'' @ hex_EncodeToString bz in json_string hexString)"

datatype json_error = JsonSyntax string | JsonHex hex_error

definition HexBigInt_UnmarshalJSON :: "(string \<Rightarrow> string + string) \<Rightarrow> string \<Rightarrow> json_error + HexBigInt" where
  "HexBigInt_UnmarshalJSON json_unquote data =
     (case json_unquote data of Inl e \<Rightarrow> Inl (JsonSyntax e) | Inr hexString \<Rightarrow>
       (case hex_DecodeString (TrimPrefix hexString ''0x'') of Inl e \<Rightarrow> Inl (JsonHex e)
        | Inr bz \<Rightarrow> Inr (be_nat bz)))"

section \<open>The client\<close>

text \<open>\<open>tm_header_hash h\<close> is the hash of the header at the \<open>int64\<close> height \<open>h\<close>, nil as the empty list.\<close>

record ZKProverClient =
  ProverAddress :: string
  ZKProverType :: string
  tm_header_hash :: "int \<Rightarrow> string + bytes"
  ZKStepVerifierDigest :: bytes
  ZKSkipVerifierDigest :: bytes

definition NewZKProverClient ::
    "string \<Rightarrow> string \<Rightarrow> bytes \<Rightarrow> bytes \<Rightarrow> (int \<Rightarrow> string + bytes) \<Rightarrow> ZKProverClient" where
  "NewZKProverClient proverType addr stepVerifierDigest skipVerifierDigest tmClient =
     \<lparr>ProverAddress = addr, ZKProverType = proverType, tm_header_hash = tmClient,
      ZKStepVerifierDigest = stepVerifierDigest, ZKSkipVerifierDigest = skipVerifierDigest\<rparr>"

record ZKProofAndInput =
  ZKInput :: "nat list"
  ZKProofOf :: ZKProof

datatype prove_error =
    HeightOrder uint64 uint64
  | HeaderError string
  | HttpError string
  | ResponseError json_error
  | ProofParse proof_error
  | InputMismatch nat nat nat
  | UnsupportedProofType string
  | ProvePanic proof_error

definition int64Ptr :: "uint64 \<Rightarrow> int" where
  "int64Ptr i = sint i"

definition header_hash :: "ZKProverClient \<Rightarrow> uint64 \<Rightarrow> prove_error + bytes" where
  "header_hash zpc h =
     (case tm_header_hash zpc (int64Ptr h) of Inl e \<Rightarrow> Inl (HeaderError e) | Inr bs \<Rightarrow> Inr bs)"

text \<open>\<open>input[i][0] &= 0x1f\<close>: the digest truncated to 253 bits.\<close>

definition mask_digest :: "bytes \<Rightarrow> bytes" where
  "mask_digest d = d[0 := d ! 0 AND 0x1F]"

text \<open>\<open>copy\<close> into a fresh array of \<open>n\<close> bytes.\<close>

definition into_array :: "nat \<Rightarrow> bytes \<Rightarrow> bytes" where
  "into_array n bs = copy_at (replicate n 0) 0 bs"

definition step_input :: "uint64 \<Rightarrow> bytes \<Rightarrow> bytes" where
  "step_input trustedHeight trustedBlockHash =
     (let input1 = copy_at (replicate 40 0) 0 (PutUint64 trustedHeight) in
      copy_at input1 8 trustedBlockHash)"

definition skip_input :: "uint64 \<Rightarrow> bytes \<Rightarrow> uint64 \<Rightarrow> bytes" where
  "skip_input trustedHeight trustedBlockHash targetHeight =
     (let input1 = copy_at (replicate 48 0) 0 (PutUint64 trustedHeight);
          input1 = copy_at input1 8 trustedBlockHash in
      copy_at input1 40 (PutUint64 targetHeight))"

definition proveMock :: "ZKProverClient \<Rightarrow> uint64 \<Rightarrow> uint64 \<Rightarrow> prove_error + ZKProofAndInput" where
  "proveMock zpc trustedHeight targetHeight =
     (if targetHeight \<le> trustedHeight then Inl (HeightOrder trustedHeight targetHeight)
      else rbind (header_hash zpc targetHeight) (\<lambda>targetHash.
        let in2 = mask_digest (Sum256 (into_array 32 targetHash)) in
        rbind (header_hash zpc trustedHeight) (\<lambda>trustedBlockHash.
          let (in0, in1) =
            (if targetHeight - trustedHeight = 1 then
               (into_array 32 (ZKStepVerifierDigest zpc),
                mask_digest (Sum256 (step_input trustedHeight trustedBlockHash)))
             else
               (into_array 32 (ZKSkipVerifierDigest zpc),
                mask_digest (Sum256 (skip_input trustedHeight trustedBlockHash targetHeight))))
          in Inr \<lparr>ZKInput = map be_nat [in0, in1, in2], ZKProofOf = MockProof\<rparr>)))"

section \<open>The request\<close>

text \<open>A number in decimal, the verb \<open>%d\<close>.\<close>

fun decimal :: "nat \<Rightarrow> string" where
  "decimal n = (if n < 10 then [char_of (48 + n)] else decimal (n div 10) @ [char_of (48 + n mod 10)])"

declare decimal.simps [simp del]

definition prove_url :: "string \<Rightarrow> uint64 \<Rightarrow> uint64 \<Rightarrow> string" where
  "prove_url addr trustedHeight targetHeight =
     addr @ ''/prove?trusted_height='' @ decimal (unat trustedHeight)
       @ ''&target_height='' @ decimal (unat targetHeight)"

text \<open>
  The response: the JSON texts of the elements of \<open>input\<close>, and \<open>proof\<close> decoded from base64.
  Decoding into the array of three drops further elements and leaves missing ones zero.
\<close>

record net =
  http_get :: "string \<Rightarrow> string + (string list \<times> go_slice)"
  unquote :: "string \<Rightarrow> string + string"

fun decode_inputs :: "(string \<Rightarrow> string + string) \<Rightarrow> nat \<Rightarrow> string list \<Rightarrow> json_error + nat list" where
  "decode_inputs u 0 ts = Inr []"
| "decode_inputs u (Suc n) [] = Inr (replicate (Suc n) 0)"
| "decode_inputs u (Suc n) (t # ts) =
     rbind (HexBigInt_UnmarshalJSON u t) (\<lambda>v. rbind (decode_inputs u n ts) (\<lambda>vs. Inr (v # vs)))"

text \<open>The comparison of the inputs, one after the other, by their bytes.\<close>

fun check_inputs :: "nat \<Rightarrow> nat list \<Rightarrow> nat list \<Rightarrow> prove_error + unit" where
  "check_inputs i (e # es) (a # as) =
     (if HexBigInt_Bytes e \<noteq> HexBigInt_Bytes a then Inl (InputMismatch i e a)
      else check_inputs (i + 1) es as)"
| "check_inputs i _ _ = Inr ()"

text \<open>A parser returns an error or panics on a short proof.\<close>

definition parse_error :: "proof_error \<Rightarrow> prove_error" where
  "parse_error e = (if e = SliceOutOfRange then ProvePanic e else ProofParse e)"

definition checked_proof ::
    "proof_error + ZKProof \<Rightarrow> nat list \<Rightarrow> nat list \<Rightarrow> prove_error + ZKProofAndInput" where
  "checked_proof parsed expected actual =
     (case parsed of Inl e \<Rightarrow> Inl (parse_error e) | Inr p \<Rightarrow>
       rbind (check_inputs 0 expected actual) (\<lambda>_. Inr \<lparr>ZKInput = actual, ZKProofOf = p\<rparr>))"

definition Prove :: "net \<Rightarrow> ZKProverClient \<Rightarrow> uint64 \<Rightarrow> uint64 \<Rightarrow> prove_error + ZKProofAndInput" where
  "Prove w zpc trustedHeight targetHeight =
     (if ZKProverType zpc = MockProverType then proveMock zpc trustedHeight targetHeight
      else case http_get w (prove_url (ProverAddress zpc) trustedHeight targetHeight) of
        Inl e \<Rightarrow> Inl (HttpError e)
      | Inr (texts, resProof) \<Rightarrow>
        (case decode_inputs (unquote w) 3 texts of
           Inl e \<Rightarrow> Inl (ResponseError e)
         | Inr resInput \<Rightarrow>
           rbind (proveMock zpc trustedHeight targetHeight) (\<lambda>inp.
             if ZKProverType zpc = Groth16ProverType then
               checked_proof (rbind (ParseGroth16Proof resProof) (\<lambda>p. Inr (Groth16 p)))
                 (ZKInput inp) resInput
             else if ZKProverType zpc = Groth16CommitmentProverType then
               checked_proof (rbind (ParseGroth16CommitmentProof resProof) (\<lambda>p. Inr (Groth16Commitment p)))
                 (ZKInput inp) resInput
             else Inl (UnsupportedProofType (ZKProverType zpc)))))"

section \<open>Facts\<close>

lemma be_nat_mask_digest:
  assumes "length d = 32"
  shows "be_nat (mask_digest d) = be_nat d mod 2 ^ 253"
proof (cases d)
  case (Cons b bs)
  with assms have l: "length bs = 31" by simp
  have m: "unat (b AND 0x1F) = unat b mod 32"
    using take_bit_eq_mask [of 5 b] take_bit_eq_mod [of 5 "unat b"]
    by (simp add: mask_numeral unsigned_take_bit_eq [symmetric])
  have s: "be_nat bs < 2 ^ 248" using be_nat_less [of bs] l by simp
  have "be_nat d mod 2 ^ 253 = (unat b * 2 ^ 248 + be_nat bs) mod (2 ^ 248 * 32)"
    by (simp add: Cons l)
  also have "\<dots> = 2 ^ 248 * ((unat b * 2 ^ 248 + be_nat bs) div 2 ^ 248 mod 32)
      + (unat b * 2 ^ 248 + be_nat bs) mod 2 ^ 248"
    by (rule mod_mult2_eq)
  also have "\<dots> = 2 ^ 248 * (unat b mod 32) + be_nat bs"
    using s by simp
  finally show ?thesis
    by (simp add: mask_digest_def Cons l m)
qed (use assms in simp)

lemma length_into_array [simp]: "length (into_array n bs) = n"
  by (simp add: into_array_def)

lemma into_array_exact: "length bs = n \<Longrightarrow> into_array n bs = bs"
  by (simp add: into_array_def copy_at_def)

lemma step_input_eq: "length h = 32 \<Longrightarrow> step_input t h = PutUint64 t @ h"
  by (simp add: step_input_def copy_at_def Let_def)

lemma skip_input_eq: "length h = 32 \<Longrightarrow> skip_input t h u = PutUint64 t @ h @ PutUint64 u"
  by (simp add: skip_input_def copy_at_def Let_def)

lemma check_inputs_Inr:
  "length es = length as \<Longrightarrow> check_inputs i es as = Inr () \<longleftrightarrow> es = as"
  by (induction i es as rule: check_inputs.induct) (simp_all add: HexBigInt_Bytes_def be_bytes_inj)

lemma decode_inputs_length: "decode_inputs u n ts = Inr vs \<Longrightarrow> length vs = n"
  by (induction u n ts arbitrary: vs rule: decode_inputs.induct) auto

lemma checked_proof_Inr:
  "length es = length as \<Longrightarrow> checked_proof parsed es as = Inr r \<longleftrightarrow>
     es = as \<and> (\<exists>p. parsed = Inr p \<and> r = \<lparr>ZKInput = es, ZKProofOf = p\<rparr>)"
  by (auto simp: checked_proof_def check_inputs_Inr rbind_eq_Inr_iff split: sum.splits)

lemma proveMock_length: "proveMock zpc t u = Inr m \<Longrightarrow> length (ZKInput m) = 3"
  by (auto simp: proveMock_def rbind_eq_Inr_iff Let_def split: if_splits)

lemma proveMock_bounds:
  assumes "proveMock zpc trusted target = Inr m"
  shows "trusted < target
    \<and> (\<exists>i0 i1 i2. ZKInput m = [i0, i1, i2] \<and> i0 < 2 ^ 256 \<and> i1 < 2 ^ 253 \<and> i2 < 2 ^ 253)"
proof -
  have "be_nat (into_array 32 bs) < 2 ^ 256" for bs
    using be_nat_less [of "into_array 32 bs"] by simp
  moreover have "be_nat (mask_digest (Sum256 x)) < 2 ^ 253" for x
    by (simp add: be_nat_mask_digest)
  ultimately show ?thesis
    using assms by (auto simp: proveMock_def rbind_eq_Inr_iff Let_def split: if_splits)
qed

lemma check_inputs_eq:
  "check_inputs 0 (ZKInput m) vs = Inr () \<Longrightarrow> proveMock zpc t u = Inr m \<Longrightarrow> length vs = 3 \<Longrightarrow> vs = ZKInput m"
  using proveMock_length [of zpc t u m] by (simp add: check_inputs_Inr)

text \<open>The inputs of a proof are those of \<open>proveMock\<close>.\<close>

lemma Prove_inputs:
  "Prove w zpc t u = Inr r \<Longrightarrow> \<exists>m. proveMock zpc t u = Inr m \<and> ZKInput r = ZKInput m"
  by (auto simp: Prove_def rbind_eq_Inr_iff checked_proof_def split: sum.splits if_splits
      dest!: decode_inputs_length) (blast dest: check_inputs_eq)+

lemma Prove_words: "Prove w zpc t u = Inr r \<Longrightarrow> list_all (\<lambda>n. n < 2 ^ 256) (ZKInput r)"
  by (auto dest!: Prove_inputs proveMock_bounds intro: less_trans)

section \<open>Properties\<close>

text \<open>
  The public inputs of the circuit as a specification: the digest of the verifier, the
  hash of the input and the hash of the output, both truncated to 253 bits.
\<close>

definition public_inputs ::
    "bytes \<Rightarrow> bytes \<Rightarrow> uint64 \<Rightarrow> bytes \<Rightarrow> uint64 \<Rightarrow> bytes \<Rightarrow> nat list" where
  "public_inputs stepDigest skipDigest trusted trustedHash target targetHash =
     (if target = trusted + 1
      then [be_nat stepDigest, be_nat (Sum256 (PutUint64 trusted @ trustedHash)) mod 2 ^ 253,
            be_nat (Sum256 targetHash) mod 2 ^ 253]
      else [be_nat skipDigest,
            be_nat (Sum256 (PutUint64 trusted @ trustedHash @ PutUint64 target)) mod 2 ^ 253,
            be_nat (Sum256 targetHash) mod 2 ^ 253])"

lemma diff_1_iff: "(a :: uint64) - b = 1 \<longleftrightarrow> a = b + 1"
  by (auto simp: algebra_simps)

lemma proveMock_expected:
  assumes "trusted < target"
    and "tm_header_hash zpc (sint target) = Inr targetHash" and "length targetHash = 32"
    and "tm_header_hash zpc (sint trusted) = Inr trustedHash" and "length trustedHash = 32"
    and "length (ZKStepVerifierDigest zpc) = 32" and "length (ZKSkipVerifierDigest zpc) = 32"
  shows "proveMock zpc trusted target = Inr
    \<lparr>ZKInput = public_inputs (ZKStepVerifierDigest zpc) (ZKSkipVerifierDigest zpc)
        trusted trustedHash target targetHash,
     ZKProofOf = MockProof\<rparr>"
  using assms
  by (simp add: proveMock_def header_hash_def int64Ptr_def public_inputs_def be_nat_mask_digest
      into_array_exact step_input_eq skip_input_eq diff_1_iff Let_def not_le [symmetric])

text \<open>
  The inputs the relayer expects of a proof are those of the specification: the step
  digest and the 40-byte preimage for the next block, the skip digest and the 48-byte
  preimage otherwise.
\<close>

theorem proveMock_public_inputs:
  assumes "trusted < target"
    and "tm_header_hash zpc (sint target) = Inr targetHash" and "length targetHash = 32"
    and "tm_header_hash zpc (sint trusted) = Inr trustedHash" and "length trustedHash = 32"
    and "length (ZKStepVerifierDigest zpc) = 32" and "length (ZKSkipVerifierDigest zpc) = 32"
  shows "proveMock zpc trusted target = Inr
    \<lparr>ZKInput = public_inputs (ZKStepVerifierDigest zpc) (ZKSkipVerifierDigest zpc)
        trusted trustedHash target targetHash,
     ZKProofOf = MockProof\<rparr>"
  using assms by (rule proveMock_expected)

definition example_client :: ZKProverClient where
  "example_client = NewZKProverClient ''groth16'' ''http://prover'' (replicate 32 1) (replicate 32 2)
     (\<lambda>h. if h < 100 then Inr (replicate 32 (word_of_int h)) else Inl ''not found'')"

theorem proveMock_public_inputs_witness:
  "proveMock example_client 5 7 = Inr
     \<lparr>ZKInput = public_inputs (replicate 32 1) (replicate 32 2) 5 (replicate 32 5) 7 (replicate 32 7),
      ZKProofOf = MockProof\<rparr>"
  using proveMock_public_inputs [of 5 7 example_client "replicate 32 7" "replicate 32 5"]
  by (simp add: example_client_def NewZKProverClient_def)

lemma Prove_Inr_iff:
  assumes "ZKProverType zpc \<noteq> MockProverType"
  shows "Prove w zpc trusted target = Inr r \<longleftrightarrow>
    (\<exists>texts s m. http_get w (prove_url (ProverAddress zpc) trusted target) = Inr (texts, s)
      \<and> proveMock zpc trusted target = Inr m \<and> decode_inputs (unquote w) 3 texts = Inr (ZKInput m)
      \<and> (if ZKProverType zpc = Groth16ProverType
          then \<exists>p. ParseGroth16Proof s = Inr p \<and> r = \<lparr>ZKInput = ZKInput m, ZKProofOf = Groth16 p\<rparr>
          else ZKProverType zpc = Groth16CommitmentProverType
            \<and> (\<exists>p. ParseGroth16CommitmentProof s = Inr p
                  \<and> r = \<lparr>ZKInput = ZKInput m, ZKProofOf = Groth16Commitment p\<rparr>)))"
proof (cases "\<exists>texts s m vs. http_get w (prove_url (ProverAddress zpc) trusted target) = Inr (texts, s)
    \<and> proveMock zpc trusted target = Inr m \<and> decode_inputs (unquote w) 3 texts = Inr vs")
  case True
  then obtain texts s m vs where h: "http_get w (prove_url (ProverAddress zpc) trusted target) = Inr (texts, s)"
    and m: "proveMock zpc trusted target = Inr m" and vs: "decode_inputs (unquote w) 3 texts = Inr vs"
    by blast
  from m have "length (ZKInput m) = length vs"
    using decode_inputs_length [OF vs]
    by (auto simp: proveMock_def rbind_eq_Inr_iff Let_def split: if_splits)
  then have c: "checked_proof parsed (ZKInput m) vs = Inr r \<longleftrightarrow>
      ZKInput m = vs \<and> (\<exists>p. parsed = Inr p \<and> r = \<lparr>ZKInput = ZKInput m, ZKProofOf = p\<rparr>)" for parsed
    by (rule checked_proof_Inr)
  show ?thesis
    using assms by (auto simp: Prove_def h m vs c rbind_eq_Inr_iff)
next
  case False
  then show ?thesis
    using assms by (auto simp: Prove_def rbind_eq_Inr_iff split: sum.splits)
qed

text \<open>
  C15: \<open>Prove\<close> with a proving service succeeds exactly when the service answers with the inputs
  the relayer computes itself and with a proof the parser of the configured type accepts;
  the result holds those inputs. A service cannot make the relayer take other inputs.
\<close>

theorem Prove_success_iff:
  assumes "ZKProverType zpc \<noteq> MockProverType"
  shows "Prove w zpc trusted target = Inr r \<longleftrightarrow>
    (\<exists>texts s m. http_get w (prove_url (ProverAddress zpc) trusted target) = Inr (texts, s)
      \<and> proveMock zpc trusted target = Inr m \<and> decode_inputs (unquote w) 3 texts = Inr (ZKInput m)
      \<and> (if ZKProverType zpc = Groth16ProverType
          then \<exists>p. ParseGroth16Proof s = Inr p \<and> r = \<lparr>ZKInput = ZKInput m, ZKProofOf = Groth16 p\<rparr>
          else ZKProverType zpc = Groth16CommitmentProverType
            \<and> (\<exists>p. ParseGroth16CommitmentProof s = Inr p
                  \<and> r = \<lparr>ZKInput = ZKInput m, ZKProofOf = Groth16Commitment p\<rparr>)))"
  using assms by (rule Prove_Inr_iff)

definition example_net :: net where
  "example_net =
     \<lparr>http_get = (\<lambda>url. Inr (map (\<lambda>n. hex_EncodeToString (be_bytes n))
        (public_inputs (replicate 32 1) (replicate 32 2) 5 (replicate 32 5) 7 (replicate 32 7)),
        (replicate 256 1, []))),
      unquote = (\<lambda>s. Inr s)\<rparr>"

theorem Prove_success_iff_witness:
  "\<exists>p. Prove example_net example_client 5 7 = Inr
     \<lparr>ZKInput = public_inputs (replicate 32 1) (replicate 32 2) 5 (replicate 32 5) 7 (replicate 32 7),
      ZKProofOf = Groth16 p\<rparr>"
proof -
  let ?i = "public_inputs (replicate 32 1) (replicate 32 2) 5 (replicate 32 5) 7 (replicate 32 7)"
  let ?s = "(replicate 256 1, [])"
  obtain p where p: "ParseGroth16Proof ?s = Inr p"
    by (simp add: ParseGroth16Proof_def fps_at_total)
  have m: "proveMock example_client 5 7 = Inr \<lparr>ZKInput = ?i, ZKProofOf = MockProof\<rparr>"
    by (simp add: example_client_def NewZKProverClient_def proveMock_def header_hash_def int64Ptr_def
        public_inputs_def be_nat_mask_digest into_array_exact skip_input_eq Let_def)
  obtain i0 i1 i2 where i: "?i = [i0, i1, i2]" by (simp add: public_inputs_def)
  have "decode_inputs Inr 3 (map (\<lambda>n. hex_EncodeToString (be_bytes n)) [i0, i1, i2]) = Inr [i0, i1, i2]"
    by (simp add: eval_nat_numeral HexBigInt_UnmarshalJSON_def hex_not_prefixed hex_decode_encode)
  then have "decode_inputs (unquote example_net) 3 (map (\<lambda>n. hex_EncodeToString (be_bytes n)) ?i) = Inr ?i"
    by (simp only: i example_net_def net.simps)
  moreover have "ZKProverType example_client = Groth16ProverType"
    by (simp add: example_client_def NewZKProverClient_def Groth16ProverType_def)
  moreover have "Groth16ProverType \<noteq> MockProverType"
    by (simp add: MockProverType_def Groth16ProverType_def)
  ultimately have "Prove example_net example_client 5 7 = Inr \<lparr>ZKInput = ?i, ZKProofOf = Groth16 p\<rparr>"
    using p m by (subst Prove_success_iff) (auto simp: example_net_def)
  then show ?thesis ..
qed

lemma HexBigInt_unmarshal_marshal:
  assumes "\<forall>s. (\<forall>c \<in> set s. c \<noteq> CHR 0x22 \<and> c \<noteq> CHR 0x5C \<and> 32 \<le> (of_char c :: nat) \<and> (of_char c :: nat) < 127)
    \<longrightarrow> json_unquote (json_string s) = Inr s"
  shows "HexBigInt_UnmarshalJSON json_unquote (HexBigInt_MarshalJSON b) = Inr b"
proof -
  let ?plain = "\<lambda>c. c \<noteq> CHR 0x22 \<and> c \<noteq> CHR 0x5C \<and> 32 \<le> (of_char c :: nat) \<and> (of_char c :: nat) < 127"
  have "list_all (\<lambda>n. ?plain (hex_char n)) [0..<16]"
    by (simp add: upt_rec hex_char_def)
  then have "?plain (hex_char n)" if "n < 16" for n
    using that by (simp add: list_all_iff)
  then have "\<forall>c \<in> set (hex_EncodeToString bs). ?plain c" for bs
    by (induction bs) (simp_all add: nibble_bounds)
  then have "\<forall>c \<in> set (''0x'' @ hex_EncodeToString (be_bytes b)). ?plain c" by simp
  then have "json_unquote (json_string (''0x'' @ hex_EncodeToString (be_bytes b))) =
      Inr (''0x'' @ hex_EncodeToString (be_bytes b))"
    using assms by blast
  then show ?thesis
    using TrimPrefix_append [of "''0x''" "hex_EncodeToString (be_bytes b)"]
    by (simp add: HexBigInt_MarshalJSON_def HexBigInt_UnmarshalJSON_def Let_def hex_decode_encode)
qed

text \<open>
  A public input survives its JSON form, for any JSON reader that reads back a plain
  string: \<open>UnmarshalJSON\<close> of \<open>MarshalJSON\<close> is the number, zero and leading zeros included.
\<close>

theorem HexBigInt_json_roundtrip:
  assumes "\<forall>s. (\<forall>c \<in> set s. c \<noteq> CHR 0x22 \<and> c \<noteq> CHR 0x5C \<and> 32 \<le> (of_char c :: nat) \<and> (of_char c :: nat) < 127)
    \<longrightarrow> json_unquote (json_string s) = Inr s"
  shows "HexBigInt_UnmarshalJSON json_unquote (HexBigInt_MarshalJSON b) = Inr b"
  using assms by (rule HexBigInt_unmarshal_marshal)

definition plain_unquote :: "string \<Rightarrow> string + string" where
  "plain_unquote s = (if 2 \<le> length s \<and> hd s = CHR 0x22 \<and> last s = CHR 0x22
     then Inr (butlast (tl s)) else Inl ''invalid string'')"

theorem HexBigInt_json_roundtrip_witness:
  "HexBigInt_UnmarshalJSON plain_unquote (HexBigInt_MarshalJSON 0) = Inr 0"
  by (rule HexBigInt_json_roundtrip) (simp add: plain_unquote_def json_string_def)

text \<open>
  C36: Whatever the service answers, a proof and its inputs that \<open>Prove\<close> returns hold three
  numbers, the last two of at most 253 bits, so that the circuit's field can represent them
  without a wrap-around, and the first one of at most 256 bits.
\<close>

theorem Prove_input_bounds:
  assumes "Prove w zpc trusted target = Inr r"
  shows "trusted < target \<and> (\<exists>i0 i1 i2. ZKInput r = [i0, i1, i2] \<and> i0 < 2 ^ 256 \<and> i1 < 2 ^ 253 \<and> i2 < 2 ^ 253)"
  using Prove_inputs [OF assms] proveMock_bounds by force

theorem Prove_input_bounds_witness:
  "\<exists>r i0 i1 i2. Prove example_net (example_client\<lparr>ZKProverType := ''mock''\<rparr>) 5 7 = Inr r
    \<and> ZKInput r = [i0, i1, i2] \<and> i1 < 2 ^ 253"
proof -
  let ?c = "example_client\<lparr>ZKProverType := ''mock''\<rparr>"
  have "\<exists>r. Prove example_net ?c 5 7 = Inr r"
    by (simp add: Prove_def MockProverType_def proveMock_def example_client_def NewZKProverClient_def
        header_hash_def int64Ptr_def Let_def)
  then obtain r where r: "Prove example_net ?c 5 7 = Inr r" ..
  from Prove_input_bounds [OF r] r show ?thesis by blast
qed

end
