(* ===== verification/Update_Contract.thy ===== *)
theory Update_Contract
  imports Simple_Tree ZK_Prover
begin

text \<open>
  The receiving side of the relayer's messages: the conversion of an \<open>UpdateStateMessage\<close>
  (\<open>contracts/TendermintZKLightClientProtoMarshaler.sol\<close>) and \<open>initializeClient\<close> and \<open>updateState\<close>
  of the light client contract (\<open>contracts/TendermintZKLightClient.sol\<close>), for one client id;
  \<open>Contract_Clients\<close> has the storage of all of them. A
  \<open>bytes32\<close> is a list of 32 bytes, a \<open>uint256\<close> a number. The proof itself is checked by the
  generated verifier before \<open>updateState\<close> is called, in \<open>Update_Safety\<close>.
\<close>

section \<open>State\<close>

record cConsensus =
  cBlockHash :: bytes
  cAppHash :: bytes
  cTimestamp :: uint64

text \<open>A mapping holds the zero value for every key that was not written.\<close>

definition no_consensus :: cConsensus where
  "no_consensus = \<lparr>cBlockHash = replicate 32 0, cAppHash = replicate 32 0, cTimestamp = 0\<rparr>"

record contract =
  stepVerifierDigest :: nat
  skipVerifierDigest :: nat
  revisionNumber :: uint64
  cLatestHeight :: uint64
  cTrustingPeriod :: uint64
  cConsensusStates :: "uint64 \<Rightarrow> cConsensus"

definition new_contract :: "nat \<Rightarrow> nat \<Rightarrow> uint64 \<Rightarrow> contract" where
  "new_contract step skp revision =
     \<lparr>stepVerifierDigest = step, skipVerifierDigest = skp, revisionNumber = revision,
      cLatestHeight = 0, cTrustingPeriod = 0, cConsensusStates = (\<lambda>h. no_consensus)\<rparr>"

datatype revert =
    InvalidStepVerifierDigest
  | InvalidSkipVerifierDigest
  | InvalidTrustingPeriod
  | ClientStateFrozen
  | InvalidRevisionHeight
  | InvalidRevisionNumber
  | InvalidBlockHash
  | InvalidAppHash
  | InvalidTimestamp
  | InvalidHeight
  | ConsensusStateNotFound
  | OldConsensusExpired
  | UnexpectedStepVerifierDigest
  | UnexpectedStepInput
  | UnexpectedSkipVerifierDigest
  | UnexpectedSkipInput
  | UnexpectedOutput
  | InvalidSimpleTreeProof
  | RequireFailed
  | OnlyIBC
  | UnsupportedProtoMessageType

section \<open>Messages\<close>

text \<open>\<open>bytes32(bs)\<close> takes the first 32 bytes and fills up with zeros on the right.\<close>

definition bytes32 :: "bytes \<Rightarrow> bytes" where
  "bytes32 bs = take 32 (bs @ replicate 32 0)"

record UpdateStateInput =
  trustedHeight :: uint64
  untrustedHeight :: uint64
  untrustedBlockHash :: bytes
  inTimestamp :: uint64
  inAppHash :: bytes
  inSimpleTreeProof :: "bytes list"
  inInput :: "nat list"

definition convertSimpleTreeProof :: "bytes list \<Rightarrow> revert + bytes list" where
  "convertSimpleTreeProof p =
     (if 6 \<le> length p \<and> list_all (\<lambda>b. length b = 32) (take 6 p) then Inr (take 6 p) else Inl RequireFailed)"

definition convertUpdateStateMessage :: "UpdateStateMessage \<Rightarrow> revert + (UpdateStateInput \<times> bytes)" where
  "convertUpdateStateMessage m =
     (if length (Input m) \<noteq> 3 then Inl RequireFailed
      else rbind (convertSimpleTreeProof (SimpleTreeProof m)) (\<lambda>p.
        Inr (\<lparr>trustedHeight = TrustedHeight m, untrustedHeight = UntrustedHeight m,
              untrustedBlockHash = bytes32 (UntrustedBlockHash m), inTimestamp = MsgTimestamp m,
              inAppHash = bytes32 (MsgAppHash m), inSimpleTreeProof = p,
              inInput = map (\<lambda>b. be_nat (bytes32 b)) (Input m)\<rparr>, ZkProof m)))"

section \<open>Operations\<close>

definition initializeClient :: "contract \<Rightarrow> ClientState \<Rightarrow> ConsensusState \<Rightarrow> revert + contract" where
  "initializeClient c cs cons =
     (if length (StepVerifierDigest cs) \<noteq> 32 then Inl InvalidStepVerifierDigest
      else if length (SkipVerifierDigest cs) \<noteq> 32 then Inl InvalidSkipVerifierDigest
      else if be_nat (bytes32 (StepVerifierDigest cs)) \<noteq> stepVerifierDigest c then Inl InvalidStepVerifierDigest
      else if be_nat (bytes32 (SkipVerifierDigest cs)) \<noteq> skipVerifierDigest c then Inl InvalidSkipVerifierDigest
      else if TrustingPeriod cs = 0 then Inl InvalidTrustingPeriod
      else if Frozen cs then Inl ClientStateFrozen
      else if RevisionHeight (LatestHeight cs) = 0 then Inl InvalidRevisionHeight
      else if RevisionNumber (LatestHeight cs) \<noteq> revisionNumber c then Inl InvalidRevisionNumber
      else if length (BlockHash cons) \<noteq> 32 then Inl InvalidBlockHash
      else if length (AppHash cons) \<noteq> 32 then Inl InvalidAppHash
      else if Timestamp cons = 0 then Inl InvalidTimestamp
      else Inr (c\<lparr>cConsensusStates := (cConsensusStates c)
                   (RevisionHeight (LatestHeight cs) :=
                     \<lparr>cBlockHash = bytes32 (BlockHash cons), cAppHash = bytes32 (AppHash cons),
                      cTimestamp = Timestamp cons\<rparr>),
                  cLatestHeight := RevisionHeight (LatestHeight cs),
                  cTrustingPeriod := TrustingPeriod cs\<rparr>))"

definition check_step :: "contract \<Rightarrow> cConsensus \<Rightarrow> UpdateStateInput \<Rightarrow> revert + unit" where
  "check_step c cons m =
     (if inInput m ! 0 \<noteq> stepVerifierDigest c then Inl UnexpectedStepVerifierDigest
      else if inInput m ! 1 \<noteq> be_nat (Sum256 (PutUint64 (trustedHeight m) @ cBlockHash cons)) mod 2 ^ 253
      then Inl UnexpectedStepInput else Inr ())"

definition check_skip :: "contract \<Rightarrow> cConsensus \<Rightarrow> UpdateStateInput \<Rightarrow> revert + unit" where
  "check_skip c cons m =
     (if inInput m ! 0 \<noteq> skipVerifierDigest c then Inl UnexpectedSkipVerifierDigest
      else if inInput m ! 1 \<noteq> be_nat (Sum256
          (PutUint64 (trustedHeight m) @ cBlockHash cons @ PutUint64 (untrustedHeight m))) mod 2 ^ 253
      then Inl UnexpectedSkipInput else Inr ())"

text \<open>\<open>block_timestamp\<close> is \<open>block.timestamp\<close> of the chain the contract runs on, in seconds.\<close>

definition updateState :: "contract \<Rightarrow> nat \<Rightarrow> UpdateStateInput \<Rightarrow> revert + contract" where
  "updateState c block_timestamp m =
     (if untrustedHeight m \<le> trustedHeight m then Inl InvalidHeight
      else let cons = cConsensusStates c (trustedHeight m) in
        if cBlockHash cons = replicate 32 0 then Inl ConsensusStateNotFound
        else if unat (cTimestamp cons) + unat (cTrustingPeriod c) < block_timestamp
        then Inl OldConsensusExpired
        else rbind (if untrustedHeight m - trustedHeight m = 1 then check_step c cons m
                    else check_skip c cons m) (\<lambda>_.
          if inInput m ! 2 \<noteq> be_nat (Sum256 (untrustedBlockHash m)) mod 2 ^ 253 then Inl UnexpectedOutput
          else if untrustedBlockHash m \<noteq> merkleRoot Sum256 (inTimestamp m) (inAppHash m) (inSimpleTreeProof m)
          then Inl InvalidSimpleTreeProof
          else Inr (c\<lparr>cConsensusStates := (cConsensusStates c)
                       (untrustedHeight m :=
                         \<lparr>cBlockHash = untrustedBlockHash m, cAppHash = inAppHash m,
                          cTimestamp = inTimestamp m\<rparr>),
                      cLatestHeight := (if cLatestHeight c < untrustedHeight m
                        then untrustedHeight m else cLatestHeight c)\<rparr>)))"

section \<open>Facts\<close>

lemma bytes32_exact: "length bs = 32 \<Longrightarrow> bytes32 bs = bs"
  by (simp add: bytes32_def)

lemma length_bytes32 [simp]: "length (bytes32 bs) = 32"
  by (simp add: bytes32_def)

lemma be_nat_zero_tail: "be_nat (bs @ replicate k 0) = be_nat bs * 256 ^ k"
  using be_nat_zeros [of k "[]"] by (simp add: be_nat_append)

lemma length_be_bytes_lower: "256 ^ k \<le> n \<Longrightarrow> k < length (be_bytes n)"
proof (rule ccontr)
  assume "256 ^ k \<le> n" and "\<not> k < length (be_bytes n)"
  moreover have "n < 256 ^ length (be_bytes n)" using be_nat_less [of "be_bytes n"] by simp
  moreover have "(256 :: nat) ^ length (be_bytes n) \<le> 256 ^ k"
    using calculation(2) by (intro power_increasing) simp_all
  ultimately show False by linarith
qed

lemma word_of_minimal_bytes:
  assumes "n < 2 ^ 256"
  shows "be_nat (bytes32 (be_bytes n)) = n * 256 ^ (32 - length (be_bytes n))"
proof -
  have "length (be_bytes n) \<le> 32" using assms by (intro length_be_bytes) simp
  then have "bytes32 (be_bytes n) = be_bytes n @ replicate (32 - length (be_bytes n)) 0"
    by (simp add: bytes32_def)
  then show ?thesis by (simp add: be_nat_zero_tail)
qed

lemma updateState_Inr:
  "updateState c now m = Inr c' \<Longrightarrow>
     trustedHeight m < untrustedHeight m
     \<and> cBlockHash (cConsensusStates c (trustedHeight m)) \<noteq> replicate 32 0
     \<and> untrustedBlockHash m = merkleRoot Sum256 (inTimestamp m) (inAppHash m) (inSimpleTreeProof m)
     \<and> c' = c\<lparr>cConsensusStates := (cConsensusStates c)
                (untrustedHeight m := \<lparr>cBlockHash = untrustedBlockHash m, cAppHash = inAppHash m,
                                       cTimestamp = inTimestamp m\<rparr>),
              cLatestHeight := max (cLatestHeight c) (untrustedHeight m)\<rparr>"
  by (auto simp: updateState_def Let_def max_def not_le split: if_splits)

section \<open>Reachable states\<close>

text \<open>The IBC handler initializes a client once; anybody may submit updates.\<close>

inductive contract_reach :: "contract \<Rightarrow> bool" where
  init: "initializeClient (new_contract step skp revision) cs cons = Inr c \<Longrightarrow> contract_reach c"
| update: "contract_reach c \<Longrightarrow> updateState c now m = Inr c' \<Longrightarrow> contract_reach c'"

definition contract_inv :: "contract \<Rightarrow> bool" where
  "contract_inv c \<longleftrightarrow> cLatestHeight c \<noteq> 0 \<and> cTrustingPeriod c \<noteq> 0
     \<and> cConsensusStates c 0 = no_consensus
     \<and> (\<forall>h. cConsensusStates c h \<noteq> no_consensus \<longrightarrow> h \<le> cLatestHeight c)
     \<and> (\<forall>h. length (cBlockHash (cConsensusStates c h)) = 32)"

lemma contract_inv_init:
  "initializeClient (new_contract step skp revision) cs cons = Inr c \<Longrightarrow> contract_inv c"
  by (auto simp: initializeClient_def new_contract_def contract_inv_def no_consensus_def split: if_splits)

lemma length_merkleRoot: "length (merkleRoot Sum256 t a p) = 32"
  by (simp add: merkleRoot_def innerHash_def Let_def)

lemma contract_inv_update: "contract_inv c \<Longrightarrow> updateState c now m = Inr c' \<Longrightarrow> contract_inv c'"
  by (frule updateState_Inr) (auto simp: contract_inv_def length_merkleRoot le_max_iff_disj max_def split: if_splits)

lemma contract_reach_inv: "contract_reach c \<Longrightarrow> contract_inv c"
  by (induction rule: contract_reach.induct) (auto intro: contract_inv_init contract_inv_update)

text \<open>A \<open>uint256\<close> whose minimal big-endian form has no or all 32 bytes.\<close>

definition aligned :: "nat \<Rightarrow> bool" where
  "aligned n \<longleftrightarrow> n = 0 \<or> 2 ^ 248 \<le> n"

lemma aligned_word: "n < 2 ^ 256 \<Longrightarrow> be_nat (bytes32 (be_bytes n)) = n \<longleftrightarrow> aligned n"
proof -
  assume n: "n < 2 ^ 256"
  show ?thesis
  proof (cases "2 ^ 248 \<le> n")
    case True
    then have "31 < length (be_bytes n)" by (intro length_be_bytes_lower) simp
    with True show ?thesis by (simp add: word_of_minimal_bytes [OF n] aligned_def)
  next
    case False
    then have "length (be_bytes n) \<le> 31" by (intro length_be_bytes) simp
    then have "32 - length (be_bytes n) \<noteq> 0" by simp
    then have "1 < (256 :: nat) ^ (32 - length (be_bytes n))" by (intro one_less_power) simp_all
    then have "n * 256 ^ (32 - length (be_bytes n)) = n \<longleftrightarrow> n = 0" by auto
    with False show ?thesis by (simp only: word_of_minimal_bytes [OF n] aligned_def) simp
  qed
qed

section \<open>Properties\<close>

text \<open>
  In every reachable state of the contract the latest height and the trusting period are
  not zero, and no consensus state is stored at height zero or above the latest height.
\<close>

theorem contract_heights:
  assumes "contract_reach c"
  shows "cLatestHeight c \<noteq> 0 \<and> cTrustingPeriod c \<noteq> 0 \<and> cConsensusStates c 0 = no_consensus
    \<and> (\<forall>h. cLatestHeight c < h \<longrightarrow> cConsensusStates c h = no_consensus)"
  using contract_reach_inv [OF assms] by (auto simp: contract_inv_def not_le [symmetric])

definition example_contract :: contract where
  "example_contract = (new_contract (be_nat (replicate 32 1)) (be_nat (replicate 32 2)) 0)
     \<lparr>cConsensusStates := (\<lambda>h. no_consensus)
        (5 := \<lparr>cBlockHash = replicate 32 5, cAppHash = replicate 32 3, cTimestamp = 1700000000000000000\<rparr>),
      cLatestHeight := 5, cTrustingPeriod := 3600000000000\<rparr>"

lemma example_contract_reach: "contract_reach example_contract"
  by (rule contract_reach.init [of "be_nat (replicate 32 1)" "be_nat (replicate 32 2)" 0
      "\<lparr>StepVerifierDigest = replicate 32 1, SkipVerifierDigest = replicate 32 2,
        TrustingPeriod = 3600000000000, Frozen = False,
        LatestHeight = \<lparr>RevisionNumber = 0, RevisionHeight = 5\<rparr>\<rparr>"
      "\<lparr>BlockHash = replicate 32 5, AppHash = replicate 32 3, Timestamp = 1700000000000000000\<rparr>"])
    (simp add: initializeClient_def new_contract_def example_contract_def bytes32_exact)

theorem contract_heights_witness:
  "cLatestHeight example_contract \<noteq> 0 \<and> cConsensusStates example_contract 0 = no_consensus"
  using contract_heights [OF example_contract_reach] by simp

text \<open>
  C40: The trusting period does not limit anything: the contract compares the time of a block
  in seconds with a timestamp in nanoseconds, so up to the year 33658 an update from a
  consensus state of this century is accepted or refused independently of the time of the
  block it arrives in, however long ago the trusting period ended.
\<close>

theorem trusting_period_never_expires:
  assumes "now < 10 ^ 12" and "later < 10 ^ 12"
    and "10 ^ 18 \<le> unat (cTimestamp (cConsensusStates c (trustedHeight m)))"
  shows "updateState c now m = updateState c later m \<and> updateState c now m \<noteq> Inl OldConsensusExpired"
  using assms
  by (auto simp: updateState_def Let_def check_step_def check_skip_def rbind_eq_Inl_iff)

definition example_update :: UpdateStateInput where
  "example_update = \<lparr>trustedHeight = 5, untrustedHeight = 6, untrustedBlockHash = replicate 32 6,
     inTimestamp = 1700000005000000000, inAppHash = replicate 32 4,
     inSimpleTreeProof = replicate 6 (replicate 32 0), inInput = [be_nat (replicate 32 1), 1, 2]\<rparr>"

theorem trusting_period_never_expires_witness:
  "updateState example_contract 1700000000 example_update =
     updateState example_contract 999999999999 example_update"
  using trusting_period_never_expires [of 1700000000 999999999999 example_contract example_update]
  by (simp add: example_contract_def example_update_def)

end
