(* ===== verification/Async_Prove.thy ===== *)
theory Async_Prove
  imports ZK_Prover
begin

text \<open>
  The concurrent part of \<open>SetupHeadersForUpdate\<close>: the goroutine of \<open>AsyncProve\<close>
  (\<open>go/relay/zkprover.go\<close>), its unbuffered channel, and the loop of \<open>go/relay/prover.go\<close> that
  waits for the proof. The loop does one \<open>select\<close> for each tick it receives from a ticker of ten seconds, and a timer
  of ten minutes, started right after the ticker, delivers into a channel of its own. The
  interleavings are the steps of a relation whose events carry the time, in nanoseconds since the ticker was made: a
  goroutine may be scheduled late, a timer never fires early, and a ticker drops the ticks its channel has no
  room for. \<open>select\<close> picks any ready case, and its \<open>default\<close> only when no case is ready.
\<close>

section \<open>The state\<close>

text \<open>
  The goroutine: in \<open>Prove\<close>, blocked at \<open>ch <- proof\<close>, after \<open>close(ch)\<close>, or gone with the
  whole process after a panic.
\<close>

datatype worker = Proving | Sending ZKProofAndInput | Closed | Crashed

datatype waiter = Waiting | GotProof ZKProofAndInput | ProofFailed | TimedOut

text \<open>
  \<open>clock\<close> is the time of the last event, \<open>returned\<close> the one at which \<open>Prove\<close> ended, \<open>received\<close> the last
  receive from the ticker and \<open>selected\<close> the last \<open>select\<close>; \<open>ticks\<close> counts the received ticks.
\<close>

record wait_state =
  worker :: worker
  waiter :: waiter
  clock :: nat
  returned :: nat
  received :: nat
  selected :: nat
  ticks :: nat
  timer_fired :: bool

definition wait_start :: wait_state where
  "wait_start = \<lparr>worker = Proving, waiter = Waiting, clock = 0, returned = 0, received = 0, selected = 0,
     ticks = 0, timer_fired = False\<rparr>"

text \<open>\<open>time.Second\<close> and \<open>time.Minute\<close> of Go, and the two durations of the loop.\<close>

definition time_Second :: nat where "time_Second = 1000000000"
definition time_Minute :: nat where "time_Minute = 60 * time_Second"

definition tick_period :: nat where "tick_period = 10 * time_Second"
definition wait_timeout :: nat where "wait_timeout = 10 * time_Minute"

text \<open>
  A tick is in the channel at a time if the ticker fired since the last receive: it fires at the multiples of
  its period, and its channel holds one tick.
\<close>

definition tick_ready :: "nat \<Rightarrow> nat \<Rightarrow> bool" where
  "tick_ready prev t \<longleftrightarrow> prev div tick_period < t div tick_period"

section \<open>The goroutine\<close>

text \<open>What the goroutine does when \<open>Prove\<close> is done.\<close>

definition worker_after :: "prove_error + ZKProofAndInput \<Rightarrow> worker" where
  "worker_after r = (case r of
     Inr proof \<Rightarrow> Sending proof
   | Inl (ProvePanic e) \<Rightarrow> Crashed
   | Inl e \<Rightarrow> Closed)"

section \<open>The loop\<close>

text \<open>The ready cases of the \<open>select\<close>, and the state each leads to.\<close>

definition select_ready :: "wait_state \<Rightarrow> wait_state list" where
  "select_ready s =
     (case worker s of
        Sending p \<Rightarrow> [s\<lparr>waiter := GotProof p, worker := Closed\<rparr>]
      | Closed \<Rightarrow> [s\<lparr>waiter := ProofFailed\<rparr>]
      | _ \<Rightarrow> []) @
     (if timer_fired s then [s\<lparr>waiter := TimedOut\<rparr>] else [])"

definition select_outcomes :: "wait_state \<Rightarrow> wait_state list" where
  "select_outcomes s = (if select_ready s = [] then [s] else select_ready s)"

text \<open>
  A step: \<open>Prove\<close> ends at a time \<open>t\<close>; the timer fires at a time \<open>t\<close>, after the timeout and late by less than one period;
  or the loop receives a tick at a time \<open>t\<close> after its last \<open>select\<close>, possibly before the last event of the others,
  and runs its \<open>select\<close> at a time \<open>u\<close>.
\<close>

inductive wait_step :: "(prove_error + ZKProofAndInput) set \<Rightarrow> wait_state \<Rightarrow> wait_state \<Rightarrow> bool"
  for results where
  prove_returns: "worker s = Proving \<Longrightarrow> r \<in> results \<Longrightarrow> clock s \<le> t \<Longrightarrow>
    wait_step results s (s\<lparr>worker := worker_after r, clock := t, returned := t\<rparr>)"
| timer_fires: "worker s \<noteq> Crashed \<Longrightarrow> \<not> timer_fired s \<Longrightarrow> clock s \<le> t \<Longrightarrow> wait_timeout \<le> t \<Longrightarrow>
    wait_step results s (s\<lparr>timer_fired := True, clock := t\<rparr>)"
| tick: "worker s \<noteq> Crashed \<Longrightarrow> waiter s = Waiting \<Longrightarrow> selected s \<le> t \<Longrightarrow> tick_ready (received s) t \<Longrightarrow>
    t \<le> u \<Longrightarrow> clock s \<le> u \<Longrightarrow> timer_fired s \<or> u < wait_timeout + tick_period \<Longrightarrow>
    s' \<in> set (select_outcomes (s\<lparr>ticks := ticks s + 1, received := t, selected := u, clock := u\<rparr>)) \<Longrightarrow>
    wait_step results s s'"

inductive_cases wait_stepE: "wait_step results s s'"

inductive wait_reach :: "(prove_error + ZKProofAndInput) set \<Rightarrow> wait_state \<Rightarrow> bool" for results where
  start: "wait_reach results wait_start"
| step: "wait_reach results s \<Longrightarrow> wait_step results s s' \<Longrightarrow> wait_reach results s'"

lemma wait_times:
  "tick_period = 10000000000" "wait_timeout = 600000000000"
  by (simp_all add: tick_period_def wait_timeout_def time_Minute_def time_Second_def)

lemma worker_after_iff:
  "worker_after r = Sending p \<longleftrightarrow> r = Inr p"
  "worker_after r \<noteq> Proving"
  "worker_after r = Crashed \<longleftrightarrow> (\<exists>e. r = Inl (ProvePanic e))"
  "worker_after r = Closed \<longleftrightarrow> (\<exists>e. r = Inl e \<and> (\<forall>e'. e \<noteq> ProvePanic e'))"
  by (auto simp: worker_after_def split: sum.splits prove_error.splits)

lemma select_outcomes_cases:
  assumes "s' \<in> set (select_outcomes s)"
  obtains (default) "s' = s" "worker s = Proving \<or> worker s = Crashed" "\<not> timer_fired s"
  | (offered) p where "worker s = Sending p" "s' = s\<lparr>waiter := GotProof p, worker := Closed\<rparr>"
  | (closed) "worker s = Closed" "s' = s\<lparr>waiter := ProofFailed\<rparr>"
  | (timeout) "timer_fired s" "s' = s\<lparr>waiter := TimedOut\<rparr>"
  using assms
  by (auto simp: select_outcomes_def select_ready_def split: worker.splits if_splits)

section \<open>The invariant\<close>

text \<open>
  What every interleaving keeps: every received tick is another firing of the ticker; while the loop waits, its last
  \<open>select\<close> was before the timer fired and before \<open>Prove\<close> ended; a proof the loop got, or the goroutine still
  offers, is one that \<open>Prove\<close> returned; the channel is closed without a value only when \<open>Prove\<close> returned an error;
  a crash is a panic of \<open>Prove\<close>.
\<close>

definition times_inv :: "wait_state \<Rightarrow> bool" where
  "times_inv s \<longleftrightarrow>
     received s \<le> selected s \<and> selected s \<le> clock s \<and> ticks s \<le> received s div tick_period \<and> ticks s \<le> 61 \<and>
     (timer_fired s \<longrightarrow> wait_timeout \<le> clock s) \<and>
     (waiter s = Waiting \<longrightarrow> selected s < wait_timeout + tick_period) \<and>
     (waiter s = TimedOut \<longrightarrow> wait_timeout \<le> selected s) \<and>
     (waiter s \<noteq> Waiting \<longrightarrow> tick_period \<le> selected s) \<and>
     (waiter s = Waiting \<longrightarrow> worker s \<noteq> Proving \<longrightarrow> selected s \<le> returned s)"

definition wait_inv :: "(prove_error + ZKProofAndInput) set \<Rightarrow> wait_state \<Rightarrow> bool" where
  "wait_inv results s \<longleftrightarrow> times_inv s \<and>
     (\<forall>p. worker s = Sending p \<longrightarrow> Inr p \<in> results) \<and>
     (\<forall>p. waiter s = GotProof p \<longrightarrow> Inr p \<in> results \<and> worker s = Closed) \<and>
     (worker s = Closed \<longrightarrow> (\<exists>p. waiter s = GotProof p) \<or> (\<exists>e. Inl e \<in> results \<and> (\<forall>e'. e \<noteq> ProvePanic e'))) \<and>
     (waiter s = ProofFailed \<longrightarrow> worker s = Closed) \<and>
     (worker s = Crashed \<longrightarrow> (\<exists>e. Inl (ProvePanic e) \<in> results))"

lemma wait_inv_start: "wait_inv results wait_start"
  by (simp add: wait_inv_def times_inv_def wait_start_def wait_times)

text \<open>A tick that is received while the loop waits.\<close>

lemma received_tick:
  assumes "times_inv s" and "waiter s = Waiting" and "tick_ready (received s) t" "t \<le> u"
  shows "ticks s + 1 \<le> t div tick_period" "ticks s \<le> 60" "tick_period \<le> u"
proof -
  from assms show 1: "ticks s + 1 \<le> t div tick_period" by (simp add: times_inv_def tick_ready_def)
  from assms have "received s < 610000000000" by (simp add: times_inv_def wait_times)
  then have "received s div tick_period \<le> 60" by (simp add: wait_times div_le_mono [of _ 609999999999, THEN order_trans])
  with assms(1) show "ticks s \<le> 60" by (simp add: times_inv_def)
  from 1 have "1 \<le> t div tick_period" by simp
  then have "tick_period \<le> t" by (cases "t < tick_period") simp_all
  with assms(4) show "tick_period \<le> u" by simp
qed

lemma wait_inv_step:
  assumes inv: "wait_inv results s" and step: "wait_step results s s'"
  shows "wait_inv results s'"
  using step
proof (cases rule: wait_step.cases)
  case (prove_returns r t)
  with inv show ?thesis
    by (auto simp: wait_inv_def times_inv_def worker_after_iff)
next
  case (timer_fires t)
  with inv show ?thesis by (auto simp: wait_inv_def times_inv_def)
next
  case (tick t u)
  from inv have times: "times_inv s" by (simp add: wait_inv_def)
  note r = received_tick [OF times tick(2,4,5)]
  from tick(8) show ?thesis
  proof (cases rule: select_outcomes_cases)
    case default
    with tick inv r show ?thesis by (auto simp: wait_inv_def times_inv_def)
  next
    case (offered p)
    with tick inv r show ?thesis by (auto simp: wait_inv_def times_inv_def)
  next
    case closed
    with tick inv r show ?thesis by (auto simp: wait_inv_def times_inv_def)
  next
    case timeout
    with tick inv r show ?thesis by (auto simp: wait_inv_def times_inv_def)
  qed
qed

lemma wait_inv_reach: "wait_reach results s \<Longrightarrow> wait_inv results s"
  by (induction rule: wait_reach.induct) (auto intro: wait_inv_start wait_inv_step)

section \<open>Progress\<close>

definition wait_measure :: "wait_state \<Rightarrow> nat" where
  "wait_measure s = (if worker s = Proving then 1 else 0) + (if timer_fired s then 0 else 1) + (61 - ticks s)"

lemma wait_measure_step:
  assumes inv: "wait_inv results s" and step: "wait_step results s s'"
  shows "wait_measure s' < wait_measure s"
  using step
proof (cases rule: wait_step.cases)
  case (prove_returns r t)
  then show ?thesis by (simp add: wait_measure_def worker_after_iff)
next
  case (timer_fires t)
  then show ?thesis by (simp add: wait_measure_def)
next
  case (tick t u)
  from inv have times: "times_inv s" by (simp add: wait_inv_def)
  from tick(8) received_tick(2) [OF times tick(2,4,5)] show ?thesis
    by (cases rule: select_outcomes_cases) (auto simp: wait_measure_def)
qed

interpretation waiting: measured_steps "wait_step results" "wait_inv results" wait_measure
  by unfold_locales (auto intro: wait_inv_step wait_measure_step)

text \<open>The loop can go on: after the timer's time the timer fires, and then the next tick ends the loop.\<close>

lemma wait_no_deadlock:
  assumes "times_inv s" and "waiter s = Waiting" and "worker s \<noteq> Crashed"
  shows "\<exists>s'. wait_step results s s'"
proof (cases "timer_fired s")
  case True
  let ?t = "clock s + tick_period"
  let ?s = "s\<lparr>ticks := ticks s + 1, received := ?t, selected := ?t, clock := ?t\<rparr>"
  have "received s div tick_period \<le> clock s div tick_period"
    using assms(1) by (intro div_le_mono) (simp add: times_inv_def)
  then have ready: "tick_ready (received s) ?t" by (simp add: tick_ready_def wait_times)
  have "select_outcomes ?s \<noteq> []" by (simp add: select_outcomes_def)
  then obtain s' where "s' \<in> set (select_outcomes ?s)" using hd_in_set by blast
  with wait_step.tick [OF assms(3,2) _ ready, of ?t s'] True assms(1) show ?thesis
    by (auto simp: times_inv_def)
next
  case False
  then have "wait_step results s (s\<lparr>timer_fired := True, clock := clock s + wait_timeout\<rparr>)"
    using assms(3) by (intro wait_step.timer_fires) simp_all
  then show ?thesis ..
qed

text \<open>A goroutine nobody listens to stays where it is.\<close>

lemma sending_stays:
  assumes "wait_step results s s'" and "waiter s \<noteq> Waiting" and "worker s = Sending p"
  shows "waiter s' = waiter s \<and> worker s' = Sending p"
  using assms by (auto elim: wait_stepE)

section \<open>Properties\<close>

text \<open>
  C24: The outcome of waiting, in every interleaving: a proof is one that \<open>Prove\<close> returned, a
  failure means that \<open>Prove\<close> returned an error, a timeout is reported by a \<open>select\<close> that ran at least
  ten minutes after the start, and no outcome comes in the first ten seconds. The loop misses nothing: while it waits,
  its last \<open>select\<close> was not after the end of \<open>Prove\<close>, so the next one takes a result that is there, and
  it was less than ten minutes and ten seconds after the start.
\<close>

theorem wait_outcome_sound:
  assumes "wait_reach results s"
  shows "(\<forall>p. waiter s = GotProof p \<longrightarrow> Inr p \<in> results)
    \<and> (waiter s = ProofFailed \<longrightarrow> (\<exists>e. Inl e \<in> results \<and> (\<forall>e'. e \<noteq> ProvePanic e')))
    \<and> (waiter s = TimedOut \<longrightarrow> 10 * 60 * 1000000000 \<le> selected s)
    \<and> (waiter s \<noteq> Waiting \<longrightarrow> 10 * 1000000000 \<le> selected s)
    \<and> (waiter s = Waiting \<longrightarrow> selected s < 610 * 1000000000
        \<and> (worker s \<noteq> Proving \<longrightarrow> selected s \<le> returned s))"
  using wait_inv_reach [OF assms] unfolding wait_inv_def times_inv_def wait_times by auto

definition example_proof :: ZKProofAndInput where
  "example_proof = \<lparr>ZKInput = [1, 2, 3], ZKProofOf = MockProof\<rparr>"

text \<open>The states after a prover that returns after three seconds, and the first tick.\<close>

definition got_state :: "ZKProofAndInput \<Rightarrow> wait_state" where
  "got_state p = \<lparr>worker = Closed, waiter = GotProof p, clock = tick_period, returned = 3 * time_Second,
     received = tick_period, selected = tick_period, ticks = 1, timer_fired = False\<rparr>"

lemma got_state_reach: "wait_reach {Inr p} (got_state p)"
proof -
  let ?s1 = "wait_start\<lparr>worker := worker_after (Inr p), clock := 3 * time_Second, returned := 3 * time_Second\<rparr>"
  have "wait_step {Inr p} wait_start ?s1"
    by (rule wait_step.prove_returns) (simp_all add: wait_start_def)
  moreover have "wait_step {Inr p} ?s1 (got_state p)"
    by (rule wait_step.tick [where t = tick_period and u = tick_period])
      (simp_all add: wait_start_def got_state_def select_outcomes_def select_ready_def worker_after_def tick_ready_def
        wait_times time_Second_def)
  ultimately show ?thesis by (blast intro: wait_reach.intros)
qed

theorem wait_outcome_sound_witness:
  "waiter (got_state example_proof) = GotProof example_proof \<and> 10 * 1000000000 \<le> selected (got_state example_proof)"
  using wait_outcome_sound [OF got_state_reach, of example_proof] by (simp add: got_state_def)

text \<open>
  C23: The loop ends: every run has at most 63 steps, of which at most 61 are ticks, and a run
  that cannot go on has delivered a proof, a failure or a timeout, unless the process
  crashed. No interleaving of the goroutine, the timer and the ticker deadlocks.
\<close>

theorem wait_terminates:
  assumes "(wait_step results ^^ n) wait_start s"
  shows "n \<le> 63 \<and> ticks s \<le> 61
    \<and> ((\<exists>s'. wait_step results s s') \<or> waiter s \<noteq> Waiting \<or> worker s = Crashed)"
proof -
  have inv: "times_inv s"
    using waiting.run_inv [OF assms wait_inv_start] by (simp add: wait_inv_def)
  then have "ticks s \<le> 61" by (simp add: times_inv_def)
  moreover have "n \<le> 63"
    using waiting.run_length [OF assms wait_inv_start] by (simp add: wait_measure_def wait_start_def)
  ultimately show ?thesis using wait_no_deadlock [OF inv, of results] by blast
qed

theorem wait_terminates_witness:
  "\<exists>s'. wait_step {Inr example_proof} wait_start s'"
  using wait_terminates [of 0 "{Inr example_proof}" wait_start]
  by (simp add: wait_start_def)

text \<open>
  C39: A goroutine whose proof comes after the timeout is never released: from a state in
  which the loop timed out and the goroutine offers its proof, every later state is of
  that kind. The send on the unbuffered channel has no receiver any more.
\<close>

theorem timed_out_goroutine_leaks:
  assumes "waiter s = TimedOut" and "worker s = Sending p" and "(wait_step results ^^ n) s s'"
  shows "waiter s' = TimedOut \<and> worker s' = Sending p"
  using assms(3)
proof (induction n arbitrary: s')
  case 0
  with assms show ?case by simp
next
  case (Suc n)
  then obtain s1 where "(wait_step results ^^ n) s s1" "wait_step results s1 s'" by auto
  with Suc.IH sending_stays [of results s1 s' p] show ?case by simp
qed

definition leaked_state :: wait_state where
  "leaked_state = \<lparr>worker = Sending example_proof, waiter = TimedOut, clock = 700 * time_Second, returned = 700 * time_Second,
     received = wait_timeout, selected = wait_timeout, ticks = 1, timer_fired = True\<rparr>"

text \<open>
  The leak is reached by a slow prover; here the loop's goroutine runs late, the ticker has dropped 59 ticks, and the
  timer has fired before the first \<open>select\<close>.
\<close>

lemma leaked_state_reach: "wait_reach {Inr example_proof} leaked_state"
proof -
  let ?R = "{Inr example_proof}"
  let ?t = "wait_start\<lparr>timer_fired := True, clock := wait_timeout\<rparr>"
  let ?u = "?t\<lparr>waiter := TimedOut, ticks := 1, received := wait_timeout, selected := wait_timeout\<rparr>"
  let ?v = "?u\<lparr>worker := worker_after (Inr example_proof), clock := 700 * time_Second, returned := 700 * time_Second\<rparr>"
  have "wait_step ?R wait_start ?t" by (rule wait_step.timer_fires) (simp_all add: wait_start_def)
  moreover have "wait_step ?R ?t ?u"
    by (rule wait_step.tick [where t = wait_timeout and u = wait_timeout])
      (simp_all add: wait_start_def select_outcomes_def select_ready_def tick_ready_def wait_times)
  moreover have "wait_step ?R ?u ?v"
    by (rule wait_step.prove_returns) (simp_all add: wait_start_def wait_times time_Second_def)
  moreover have "?v = leaked_state" by (simp add: leaked_state_def worker_after_def wait_start_def)
  ultimately show ?thesis using wait_reach.start [of ?R] by (metis wait_reach.step)
qed

theorem timed_out_goroutine_leaks_witness:
  "wait_reach {Inr example_proof} leaked_state \<and> waiter leaked_state = TimedOut
   \<and> worker leaked_state = Sending example_proof"
  using timed_out_goroutine_leaks [of leaked_state example_proof 0 "{Inr example_proof}" leaked_state]
    leaked_state_reach
  by (simp add: leaked_state_def)

text \<open>
  C38: A service that answers with a Groth16 proof of less than 256 bytes makes \<open>Prove\<close> panic
  in its goroutine, where nothing recovers it: the relayer process ends.
\<close>

theorem short_proof_crashes:
  assumes "ZKProverType zpc = Groth16ProverType"
    and "http_get w (prove_url (ProverAddress zpc) trusted target) = Inr (texts, s)"
    and "decode_inputs (unquote w) 3 texts = Inr vs"
    and "proveMock zpc trusted target = Inr m"
    and "length (fst s @ snd s) < 256"
  shows "worker_after (Prove w zpc trusted target) = Crashed"
proof -
  have "Groth16ProverType \<noteq> MockProverType" by (simp add: Groth16ProverType_def MockProverType_def)
  moreover have "ParseGroth16Proof s = Inl SliceOutOfRange"
    using assms(5) by (simp add: ParseGroth16Proof_def fps_at_total)
  ultimately show ?thesis
    using assms(1-4) by (simp add: Prove_def checked_proof_def parse_error_def worker_after_def)
qed

theorem short_proof_crashes_witness:
  "worker_after (Prove (example_net\<lparr>http_get := (\<lambda>url. Inr ([], ([1, 2, 3], [])))\<rparr>) example_client 5 7) = Crashed"
proof -
  have "\<exists>m. proveMock example_client 5 7 = Inr m"
    by (simp add: proveMock_def example_client_def NewZKProverClient_def header_hash_def int64Ptr_def Let_def)
  then obtain m where m: "proveMock example_client 5 7 = Inr m" ..
  have "decode_inputs u 3 [] = Inr (replicate 3 0)" for u
    by (simp add: eval_nat_numeral)
  moreover have "ZKProverType example_client = Groth16ProverType"
    by (simp add: example_client_def NewZKProverClient_def Groth16ProverType_def)
  ultimately show ?thesis
    by (intro short_proof_crashes [where s = "([1, 2, 3], [])", OF _ _ _ m]) simp_all
qed

end
