(* ===== verification/Prover_Config.thy ===== *)
theory Prover_Config
  imports Client_Messages Go_Std
begin

text \<open>
  The configuration of the prover: the message of \<open>go/relay/config.pb.go\<close>, whose wire code
  has the same helpers as the other generated file, and the methods of
  \<open>go/relay/config.go\<close>.
\<close>

section \<open>The message\<close>

record ProverConfig =
  ZkProverAddr :: string
  CfgStepVerifierDigest :: string
  CfgSkipVerifierDigest :: string
  ProverType :: string
  CfgTrustingPeriod :: string

definition ProverConfig_Reset :: ProverConfig where
  "ProverConfig_Reset =
     \<lparr>ZkProverAddr = [], CfgStepVerifierDigest = [], CfgSkipVerifierDigest = [], ProverType = [],
      CfgTrustingPeriod = []\<rparr>"

definition ProverConfig_Size :: "ProverConfig option \<Rightarrow> nat" where
  "ProverConfig_Size r = (case r of None \<Rightarrow> 0 | Some m \<Rightarrow>
     (let l = length (ZkProverAddr m) in if 0 < l then 1 + l + sov (word_of_nat l) else 0) +
     (let l = length (CfgStepVerifierDigest m) in if 0 < l then 1 + l + sov (word_of_nat l) else 0) +
     (let l = length (CfgSkipVerifierDigest m) in if 0 < l then 1 + l + sov (word_of_nat l) else 0) +
     (let l = length (ProverType m) in if 0 < l then 1 + l + sov (word_of_nat l) else 0) +
     (let l = length (CfgTrustingPeriod m) in if 0 < l then 1 + l + sov (word_of_nat l) else 0))"

text \<open>A string field is written as its bytes.\<close>

definition put_string :: "byte \<Rightarrow> string \<Rightarrow> writer" where
  "put_string tag s = put_when (0 < length s) (put_len_delim tag (string_bytes s))"

definition ProverConfig_MarshalToSizedBuffer ::
    "ProverConfig \<Rightarrow> bytes \<Rightarrow> pb_error + (bytes \<times> nat)" where
  "ProverConfig_MarshalToSizedBuffer m = sized_buffer (puts
     [put_string 0x2A (CfgTrustingPeriod m),
      put_string 0x22 (ProverType m),
      put_string 0x1A (CfgSkipVerifierDigest m),
      put_string 0x12 (CfgStepVerifierDigest m),
      put_string 0xA (ZkProverAddr m)])"

definition ProverConfig_Marshal :: "ProverConfig \<Rightarrow> pb_error + bytes" where
  "ProverConfig_Marshal m =
     marshal (ProverConfig_Size (Some m)) (ProverConfig_MarshalToSizedBuffer m)"

definition ProverConfig_MarshalTo :: "ProverConfig \<Rightarrow> bytes \<Rightarrow> pb_error + (bytes \<times> nat)" where
  "ProverConfig_MarshalTo m dAtA =
     marshal_to (ProverConfig_Size (Some m)) (ProverConfig_MarshalToSizedBuffer m) dAtA"

definition ProverConfig_XXX_Marshal ::
    "(ProverConfig \<Rightarrow> bytes \<Rightarrow> pb_error + bytes) \<Rightarrow> ProverConfig \<Rightarrow> bytes \<Rightarrow> bool \<Rightarrow> pb_error + bytes" where
  "ProverConfig_XXX_Marshal lib m b deterministic =
     (if deterministic then lib m b else xxx_marshal (ProverConfig_MarshalToSizedBuffer m) b)"

definition string_field ::
    "int \<Rightarrow> string \<Rightarrow> bytes \<Rightarrow> nat \<Rightarrow> (string \<Rightarrow> 'm) \<Rightarrow> pb_error + ('m \<times> nat)" where
  "string_field wireType name dAtA iNdEx store =
     bytes_field wireType name dAtA iNdEx (\<lambda>bs. store (bytes_string bs))"

definition ProverConfig_field :: "ProverConfig handler" where
  "ProverConfig_field fieldNum wireType dAtA iNdEx m =
     (if fieldNum = 1 then
        Some (string_field wireType ''ZkProverAddr'' dAtA iNdEx (\<lambda>v. m\<lparr>ZkProverAddr := v\<rparr>))
      else if fieldNum = 2 then
        Some (string_field wireType ''StepVerifierDigest'' dAtA iNdEx
          (\<lambda>v. m\<lparr>CfgStepVerifierDigest := v\<rparr>))
      else if fieldNum = 3 then
        Some (string_field wireType ''SkipVerifierDigest'' dAtA iNdEx
          (\<lambda>v. m\<lparr>CfgSkipVerifierDigest := v\<rparr>))
      else if fieldNum = 4 then
        Some (string_field wireType ''ProverType'' dAtA iNdEx (\<lambda>v. m\<lparr>ProverType := v\<rparr>))
      else if fieldNum = 5 then
        Some (string_field wireType ''TrustingPeriod'' dAtA iNdEx (\<lambda>v. m\<lparr>CfgTrustingPeriod := v\<rparr>))
      else None)"

definition ProverConfig_Unmarshal :: "bytes \<Rightarrow> ProverConfig \<Rightarrow> (pb_error + ProverConfig) option" where
  "ProverConfig_Unmarshal dAtA m = unmarshal ''ProverConfig'' ProverConfig_field dAtA m"

subsection \<open>Its encoding\<close>

definition enc_opt_string :: "byte \<Rightarrow> string \<Rightarrow> bytes" where
  "enc_opt_string tag s = enc_opt_bytes tag (string_bytes s)"

definition ProverConfig_enc :: "ProverConfig \<Rightarrow> bytes" where
  "ProverConfig_enc m =
     enc_opt_string 0xA (ZkProverAddr m) @ enc_opt_string 0x12 (CfgStepVerifierDigest m) @
     enc_opt_string 0x1A (CfgSkipVerifierDigest m) @ enc_opt_string 0x22 (ProverType m) @
     enc_opt_string 0x2A (CfgTrustingPeriod m)"

lemma writes_opt_string [writes_intros]: "writes (put_string tag s) (enc_opt_string tag s)"
  using writes_opt_bytes [of "string_bytes s" tag] by (simp add: put_string_def enc_opt_string_def)

lemma ProverConfig_writes: "length (ProverConfig_enc m) \<le> length d \<Longrightarrow>
    ProverConfig_MarshalToSizedBuffer m d =
      Inr (take (length d - length (ProverConfig_enc m)) d @ ProverConfig_enc m,
           length (ProverConfig_enc m))"
  unfolding ProverConfig_MarshalToSizedBuffer_def
  by (intro sized_buffer_eq)
     (use writes_Cons [OF writes_opt_string writes_Cons [OF writes_opt_string writes_Cons [OF
        writes_opt_string writes_Cons [OF writes_opt_string writes_Cons [OF writes_opt_string
        writes_Nil]]]]] in \<open>simp_all add: ProverConfig_enc_def del: puts.simps\<close>)

lemma feeds_opt_string:
  assumes "t < 0x80" and "tag_num t > 0" and "tag_type t = 2"
    and "\<And>d i. fld (tag_num t) 2 d i m = Some (string_field 2 fname d i store)"
    and "store [] = m"
  shows "feeds name fld (enc_opt_string t s) m (store s)"
proof -
  have "feeds name fld (enc_opt_bytes t (string_bytes s)) m
      ((\<lambda>bs. store (bytes_string bs)) (string_bytes s))"
    using assms
    by (intro feeds_opt_bytes [where fname = fname and ?store = "\<lambda>bs. store (bytes_string bs)"])
       (auto simp: string_field_def string_bytes_def)
  then show ?thesis by (simp add: enc_opt_string_def)
qed

lemma ProverConfig_feeds:
  "feeds ''ProverConfig'' ProverConfig_field (ProverConfig_enc m) ProverConfig_Reset m"
proof -
  let ?f = "feeds ''ProverConfig'' ProverConfig_field"
  let ?m0 = ProverConfig_Reset
  let ?m1 = "?m0\<lparr>ZkProverAddr := ZkProverAddr m\<rparr>"
  let ?m2 = "?m1\<lparr>CfgStepVerifierDigest := CfgStepVerifierDigest m\<rparr>"
  let ?m3 = "?m2\<lparr>CfgSkipVerifierDigest := CfgSkipVerifierDigest m\<rparr>"
  let ?m4 = "?m3\<lparr>ProverType := ProverType m\<rparr>"
  let ?m5 = "?m4\<lparr>CfgTrustingPeriod := CfgTrustingPeriod m\<rparr>"
  note defs = ProverConfig_field_def ProverConfig_Reset_def tag_simps
  have 1: "?f (enc_opt_string 0xA (ZkProverAddr m)) ?m0 ?m1"
    by (rule feeds_opt_string) (simp_all add: defs)
  have 2: "?f (enc_opt_string 0x12 (CfgStepVerifierDigest m)) ?m1 ?m2"
    by (rule feeds_opt_string) (simp_all add: defs)
  have 3: "?f (enc_opt_string 0x1A (CfgSkipVerifierDigest m)) ?m2 ?m3"
    by (rule feeds_opt_string) (simp_all add: defs)
  have 4: "?f (enc_opt_string 0x22 (ProverType m)) ?m3 ?m4"
    by (rule feeds_opt_string) (simp_all add: defs)
  have 5: "?f (enc_opt_string 0x2A (CfgTrustingPeriod m)) ?m4 ?m5"
    by (rule feeds_opt_string) (simp_all add: defs)
  have m: "?m5 = m" by (simp add: ProverConfig_Reset_def)
  from feeds_append [OF 1 feeds_append [OF 2 feeds_append [OF 3 feeds_append [OF 4 5]]]]
  show ?thesis by (simp only: ProverConfig_enc_def m)
qed

interpretation prover_config: pb_message "''ProverConfig''" ProverConfig_field ProverConfig_Reset
  "\<lambda>m. ProverConfig_Size (Some m)" ProverConfig_MarshalToSizedBuffer ProverConfig_enc
proof
  show "i < j \<and> j \<le> length d"
    if "ProverConfig_field n w d i m = Some (Inr (m', j))" "length d < max_len" for n w d i m m' j
    using that by (auto simp: ProverConfig_field_def string_field_def dest: field_bounds split: if_splits)
  show "ProverConfig_Size (Some m) = length (ProverConfig_enc m)" for m
    by (simp add: ProverConfig_Size_def ProverConfig_enc_def enc_opt_string_def length_enc Let_def)
qed (simp_all only: ProverConfig_writes ProverConfig_feeds)

section \<open>Its methods\<close>

datatype config_error =
    EmptyProverType
  | InvalidStepVerifierDigest hex_error
  | InvalidSkipVerifierDigest hex_error
  | InvalidTrustingPeriod duration_error

definition Validate :: "fraction \<Rightarrow> ProverConfig \<Rightarrow> config_error + unit" where
  "Validate frac c =
     (if ProverType c = [] then Inl EmptyProverType
      else case hex_DecodeString (TrimPrefix (CfgStepVerifierDigest c) ''0x'') of
        Inl err \<Rightarrow> Inl (InvalidStepVerifierDigest err)
      | Inr bz \<Rightarrow>
        (case hex_DecodeString (TrimPrefix (CfgSkipVerifierDigest c) ''0x'') of
           Inl err \<Rightarrow> Inl (InvalidSkipVerifierDigest err)
         | Inr bz \<Rightarrow>
           (case ParseDuration frac (CfgTrustingPeriod c) of
              Inl err \<Rightarrow> Inl (InvalidTrustingPeriod err)
            | Inr d \<Rightarrow> Inr ())))"

text \<open>The getters panic with the error of the parser: \<open>Inl\<close>.\<close>

definition GetStepVerifierDigest :: "ProverConfig \<Rightarrow> hex_error + bytes" where
  "GetStepVerifierDigest c = hex_DecodeString (TrimPrefix (CfgStepVerifierDigest c) ''0x'')"

definition GetSkipVerifierDigest :: "ProverConfig \<Rightarrow> hex_error + bytes" where
  "GetSkipVerifierDigest c = hex_DecodeString (TrimPrefix (CfgSkipVerifierDigest c) ''0x'')"

definition GetTrustingPeriod :: "fraction \<Rightarrow> ProverConfig \<Rightarrow> duration_error + int" where
  "GetTrustingPeriod frac c = ParseDuration frac (CfgTrustingPeriod c)"

section \<open>Properties\<close>

text \<open>
  \<open>ProverConfig\<close> round trip: \<open>Marshal\<close> succeeds with \<open>Size\<close> bytes and \<open>Unmarshal\<close> of
  them gives every string of the configuration back, byte for byte.
\<close>

theorem prover_config_roundtrip:
  assumes "ProverConfig_Size (Some m) < max_len"
  shows "\<exists>bs. ProverConfig_Marshal m = Inr bs \<and> length bs = ProverConfig_Size (Some m)
    \<and> ProverConfig_Unmarshal bs ProverConfig_Reset = Some (Inr m)"
  unfolding ProverConfig_Marshal_def ProverConfig_Unmarshal_def
  by (rule prover_config.message_roundtrip [OF assms])

definition example_config :: ProverConfig where
  "example_config = \<lparr>ZkProverAddr = ''http://localhost'', CfgStepVerifierDigest = ''0x01'',
     CfgSkipVerifierDigest = ''ff'', ProverType = ''mock'', CfgTrustingPeriod = ''-1h''\<rparr>"

theorem prover_config_roundtrip_witness:
  "\<exists>bs. ProverConfig_Marshal example_config = Inr bs
    \<and> ProverConfig_Unmarshal bs ProverConfig_Reset = Some (Inr example_config)"
proof -
  have "ProverConfig_Size (Some example_config) < max_len"
    by (simp add: ProverConfig_Size_def example_config_def sov_small)
  then show ?thesis using prover_config_roundtrip by blast
qed

text \<open>
  \<open>Validate\<close> accepts a configuration exactly when its prover type is not empty and none
  of the three getters panics on it: a validated configuration can be used, and nothing
  usable is refused.
\<close>

theorem validate_iff_getters:
  "Validate frac c = Inr () \<longleftrightarrow>
     ProverType c \<noteq> [] \<and> (\<exists>step. GetStepVerifierDigest c = Inr step)
     \<and> (\<exists>skip. GetSkipVerifierDigest c = Inr skip) \<and> (\<exists>d. GetTrustingPeriod frac c = Inr d)"
  by (auto simp: Validate_def GetStepVerifierDigest_def GetSkipVerifierDigest_def
      GetTrustingPeriod_def split: sum.splits)

definition hex_digest :: "bool \<Rightarrow> bytes \<Rightarrow> string" where
  "hex_digest prefix bs = (if prefix then ''0x'' else []) @ hex_EncodeToString bs"

lemma decode_hex_digest: "hex_DecodeString (TrimPrefix (hex_digest p bs) ''0x'') = Inr bs"
  using TrimPrefix_append [of "''0x''" "hex_EncodeToString bs"]
  by (cases p) (simp_all add: hex_digest_def hex_not_prefixed hex_decode_encode)

text \<open>
  C34: Digests written in hexadecimal, with or without \<open>0x\<close>, are what the getters return
  after the configuration went over the wire, and the received configuration is valid if
  its other two fields are.
\<close>

theorem config_digests_received:
  assumes "CfgStepVerifierDigest c = hex_digest p d1" and "CfgSkipVerifierDigest c = hex_digest q d2"
    and "ProverType c \<noteq> []" and "ParseDuration frac (CfgTrustingPeriod c) = Inr d"
    and "ProverConfig_Marshal c = Inr bs" and "length bs < max_len"
  shows "\<exists>r. ProverConfig_Unmarshal bs ProverConfig_Reset = Some (Inr r) \<and> Validate frac r = Inr ()
    \<and> GetStepVerifierDigest r = Inr d1 \<and> GetSkipVerifierDigest r = Inr d2
    \<and> GetTrustingPeriod frac r = Inr d"
proof -
  have "ProverConfig_Unmarshal bs ProverConfig_Reset = Some (Inr c)"
    using assms(5,6) unfolding ProverConfig_Marshal_def ProverConfig_Unmarshal_def
    by (rule prover_config.roundtrip)
  then show ?thesis
    using assms(1-4)
    by (simp add: Validate_def GetStepVerifierDigest_def GetSkipVerifierDigest_def
        GetTrustingPeriod_def decode_hex_digest)
qed

theorem config_digests_received_witness:
  "\<exists>bs r. ProverConfig_Marshal example_config = Inr bs
    \<and> ProverConfig_Unmarshal bs ProverConfig_Reset = Some (Inr r)
    \<and> GetStepVerifierDigest r = Inr [1] \<and> GetSkipVerifierDigest r = Inr [255]"
proof -
  have c: "ProverConfig_Marshal example_config = Inr (ProverConfig_enc example_config)"
    by (simp only: ProverConfig_Marshal_def prover_config.marshal_enc)
  have l: "length (ProverConfig_enc example_config) < max_len"
    by (simp add: ProverConfig_enc_def enc_opt_string_def length_enc example_config_def sov_small)
  have p: "ParseDuration (\<lambda>f k u. 0) (CfgTrustingPeriod example_config) = Inr (- 3600000000000)"
    by (simp add: example_config_def ParseDuration_def duration_loop.simps duration_step_def
        unit_char_def is_digit_def unitMap_def digit_value_def)
  have "CfgStepVerifierDigest example_config = hex_digest True [1]"
    and "CfgSkipVerifierDigest example_config = hex_digest False [255]"
    and "ProverType example_config \<noteq> []"
    by (simp_all add: example_config_def hex_digest_def hex_char_def)
  from config_digests_received [OF this p c l] c show ?thesis by blast
qed

end
