(* ===== verification/Relay_Prover.thy ===== *)
theory Relay_Prover
  imports Async_Prove Simple_Tree Prover_Config
begin

text \<open>
  The prover of the relayer, \<open>go/relay/prover.go\<close>: construction from the configuration, the
  initial client and consensus state, and the update message. The chain the relayer reads
  (\<open>rpcclient.Client\<close> of CometBFT) and the counterparty are records of functions; the wait for
  the proof is the outcome of the relation of \<open>Async_Prove\<close>.
\<close>

section \<open>What the prover reads\<close>

text \<open>\<open>header_at\<close> is the RPC \<open>Header\<close>, \<open>Hash\<close> the method of CometBFT's header.\<close>

record ('v, 'b) chain =
  header_at :: "int \<Rightarrow> string + ('v, 'b) Header"
  Hash :: "('v, 'b) Header \<Rightarrow> bytes"

text \<open>
  A \<open>tmclient.Header\<close> of ibc-go: the header in its protobuf form ('p), the hash its commit
  signs, and \<open>GetHeight()\<close>. \<open>HeaderFromProto\<close> is CometBFT's conversion; \<open>proto_time_of\<close> and
  \<open>proto_app_hash\<close> read two fields of the protobuf form.
\<close>

record 'p tm_header =
  signed_header :: 'p
  commit_hash :: bytes
  tm_height :: Height

record ('p, 'v, 'b) header_lib =
  HeaderFromProto :: "'p \<Rightarrow> string + ('v, 'b) Header"
  proto_time_of :: "'p \<Rightarrow> go_time"
  proto_app_hash :: "'p \<Rightarrow> bytes"

text \<open>A header of the relayer's interface \<open>core.Header\<close>: of this type, or of another one.\<close>

datatype 'p core_header = TmHeader "'p tm_header" | OtherHeader

text \<open>
  The counterparty: its latest height, and the height of the client state it stores for
  this chain, after \<open>QueryClientState\<close> and \<open>UnpackAny\<close>.
\<close>

record counterparty =
  cp_latest_height :: "string + Height"
  cp_client_height :: "Height \<Rightarrow> string + Height"

datatype relay_error =
    QueryFailed string
  | TrustedNotBelow uint64 uint64
  | GetProofFailed uint64 uint64
  | ProofTimeout uint64 uint64
  | BadHeader string
  | LightClientFailed int string
  | DigestLength bytes
  | RelayPanic string

section \<open>The prover\<close>

record Prover =
  pr_config :: ProverConfig
  zkProverClient :: ZKProverClient

definition tm_client :: "('v, 'b) chain \<Rightarrow> int \<Rightarrow> string + bytes" where
  "tm_client ch h = (case header_at ch h of Inl e \<Rightarrow> Inl e | Inr hdr \<Rightarrow> Inr (Hash ch hdr))"

text \<open>\<open>NewProver\<close> panics (\<open>Inl\<close>) when a digest of the configuration is not hexadecimal.\<close>

definition NewProver :: "('v, 'b) chain \<Rightarrow> ProverConfig \<Rightarrow> hex_error + Prover" where
  "NewProver ch config =
     rbind (GetStepVerifierDigest config) (\<lambda>step.
     rbind (GetSkipVerifierDigest config) (\<lambda>skp.
       Inr \<lparr>pr_config = config,
            zkProverClient = NewZKProverClient (ProverType config) (ZkProverAddr config) step skp (tm_client ch)\<rparr>))"

text \<open>\<open>Build\<close> of \<open>config.go\<close>: \<open>None\<close> is a chain of another type.\<close>

definition Build :: "ProverConfig \<Rightarrow> ('v, 'b) chain option \<Rightarrow> (string + hex_error) + Prover" where
  "Build config ch = (case ch of
     None \<Rightarrow> Inl (Inl ''chain type'')
   | Some c \<Rightarrow> (case NewProver c config of Inl e \<Rightarrow> Inl (Inr e) | Inr p \<Rightarrow> Inr p))"

definition Init :: "('v, 'b) chain \<Rightarrow> Prover \<Rightarrow> Prover" where
  "Init ch pr = pr\<lparr>zkProverClient := (zkProverClient pr)\<lparr>tm_header_hash := tm_client ch\<rparr>\<rparr>"

text \<open>The methods of the relayer's interface that do nothing, and the latest header.\<close>

definition SetRelayInfo :: "Prover \<Rightarrow> string option \<times> Prover" where
  "SetRelayInfo pr = (None, pr)"

definition SetupForRelay :: "Prover \<Rightarrow> string option \<times> Prover" where
  "SetupForRelay pr = (None, pr)"

definition ProveHostConsensusState :: "Prover \<Rightarrow> Height \<Rightarrow> string + bytes" where
  "ProveHostConsensusState pr height = Inr []"

definition GetLatestFinalizedHeader :: "(int \<Rightarrow> string + 'p tm_header) \<Rightarrow> string + 'p tm_header" where
  "GetLatestFinalizedHeader update_light_client = update_light_client 0"

definition CheckRefreshRequired :: "Prover \<Rightarrow> string + bool" where
  "CheckRefreshRequired pr = Inr False"

section \<open>The initial state\<close>

text \<open>
  \<open>update_light_client\<close> is \<open>UpdateLightClient\<close>; a nil height asks for the latest header. The
  getters of the configuration panic, the length checks return an error.
\<close>

definition panic_hex :: "hex_error + 'a \<Rightarrow> relay_error + 'a" where
  "panic_hex r = (case r of Inl e \<Rightarrow> Inl (RelayPanic ''hex'') | Inr x \<Rightarrow> Inr x)"

definition panic_duration :: "duration_error + 'a \<Rightarrow> relay_error + 'a" where
  "panic_duration r = (case r of Inl e \<Rightarrow> Inl (RelayPanic ''duration'') | Inr x \<Rightarrow> Inr x)"

definition CreateInitialLightClientState ::
    "fraction \<Rightarrow> ('p, 'v, 'b) header_lib \<Rightarrow> (int \<Rightarrow> string + 'p tm_header) \<Rightarrow> Prover \<Rightarrow> Height option
       \<Rightarrow> relay_error + (ClientState \<times> ConsensusState)" where
  "CreateInitialLightClientState frac lib update_light_client pr height =
     (let tmHeight = (case height of None \<Rightarrow> 0 | Some h \<Rightarrow> sint (RevisionHeight h)) in
      case update_light_client tmHeight of
        Inl e \<Rightarrow> Inl (LightClientFailed tmHeight e)
      | Inr selfHeader \<Rightarrow>
        rbind (panic_hex (GetStepVerifierDigest (pr_config pr))) (\<lambda>step.
        rbind (panic_hex (GetSkipVerifierDigest (pr_config pr))) (\<lambda>skp.
        rbind (panic_duration (GetTrustingPeriod frac (pr_config pr))) (\<lambda>period.
          if length step \<noteq> 32 then Inl (DigestLength step)
          else if length skp \<noteq> 32 then Inl (DigestLength skp)
          else Inr
            (\<lparr>StepVerifierDigest = step, SkipVerifierDigest = skp,
              TrustingPeriod = word_of_int period, Frozen = False, LatestHeight = tm_height selfHeader\<rparr>,
             \<lparr>BlockHash = commit_hash selfHeader,
              AppHash = proto_app_hash lib (signed_header selfHeader),
              Timestamp = UnixNano (proto_time_of lib (signed_header selfHeader))\<rparr>)))))"

section \<open>The update message\<close>

text \<open>Up to the start of the goroutine: the heights, and the header at the target height.\<close>

definition setup_start ::
    "('v, 'b) chain \<Rightarrow> counterparty \<Rightarrow> 'p core_header
       \<Rightarrow> relay_error + ('p tm_header \<times> uint64 \<times> uint64 \<times> ('v, 'b) Header)" where
  "setup_start ch cp latestFinalizedHeader =
     (case latestFinalizedHeader of OtherHeader \<Rightarrow> Inl (RelayPanic ''interface conversion'')
      | TmHeader h \<Rightarrow>
        (case cp_latest_height cp of Inl e \<Rightarrow> Inl (QueryFailed e) | Inr cph \<Rightarrow>
         (case cp_client_height cp cph of Inl e \<Rightarrow> Inl (QueryFailed e) | Inr latest \<Rightarrow>
          let trusted = RevisionHeight latest; target = RevisionHeight (tm_height h) in
          if target \<le> trusted then Inl (TrustedNotBelow trusted target)
          else case header_at ch (sint target) of Inl e \<Rightarrow> Inl (QueryFailed e)
            | Inr res \<Rightarrow> Inr (h, trusted, target, res))))"

text \<open>After the loop, which left it with \<open>outcome\<close>.\<close>

definition setup_finish ::
    "hash_fun \<Rightarrow> ('v, 'b) marshalers \<Rightarrow> ('p, 'v, 'b) header_lib \<Rightarrow> abi \<Rightarrow> ('v, 'b) chain
       \<Rightarrow> 'p tm_header \<Rightarrow> uint64 \<Rightarrow> uint64 \<Rightarrow> ('v, 'b) Header \<Rightarrow> waiter \<Rightarrow> relay_error + UpdateStateMessage" where
  "setup_finish H ms lib a ch h trusted target res outcome =
     (case outcome of
        ProofFailed \<Rightarrow> Inl (GetProofFailed trusted target)
      | TimedOut \<Rightarrow> Inl (ProofTimeout trusted target)
      | Waiting \<Rightarrow> Inl (RelayPanic ''still waiting'')
      | GotProof zkProof \<Rightarrow>
        (case HeaderFromProto lib (signed_header h) of Inl e \<Rightarrow> Inl (BadHeader e) | Inr tmHeader \<Rightarrow>
         (case getSimpleTreeProof H ms (Some tmHeader) of None \<Rightarrow> Inl (RelayPanic ''leaves is nil'')
          | Some simpleTreeProof \<Rightarrow>
            (case EncodeEthABI a (ZKProofOf zkProof) of Inl e \<Rightarrow> Inl (RelayPanic ''abi'')
             | Inr proof \<Rightarrow> Inr
                \<lparr>TrustedHeight = trusted, UntrustedHeight = target, UntrustedBlockHash = Hash ch res,
                 MsgTimestamp = UnixNano (proto_time_of lib (signed_header h)),
                 MsgAppHash = proto_app_hash lib (signed_header h),
                 SimpleTreeProof = simpleTreeProof,
                 Input = map HexBigInt_Bytes (ZKInput zkProof), ZkProof = proof\<rparr>))))"

definition SetupHeadersForUpdate ::
    "hash_fun \<Rightarrow> ('v, 'b) marshalers \<Rightarrow> ('p, 'v, 'b) header_lib \<Rightarrow> abi \<Rightarrow> ('v, 'b) chain
       \<Rightarrow> counterparty \<Rightarrow> 'p core_header \<Rightarrow> waiter \<Rightarrow> relay_error + UpdateStateMessage" where
  "SetupHeadersForUpdate H ms lib a ch cp header outcome =
     rbind (setup_start ch cp header) (\<lambda>(h, trusted, target, res).
       setup_finish H ms lib a ch h trusted target res outcome)"

section \<open>Properties\<close>

lemma CreateInitialLightClientState_Inr:
  "CreateInitialLightClientState frac lib update_light_client pr height = Inr (cs, cons) \<longleftrightarrow>
    (\<exists>hdr step skp period.
       update_light_client (case height of None \<Rightarrow> 0 | Some h \<Rightarrow> sint (RevisionHeight h)) = Inr hdr
       \<and> GetStepVerifierDigest (pr_config pr) = Inr step \<and> length step = 32
       \<and> GetSkipVerifierDigest (pr_config pr) = Inr skp \<and> length skp = 32
       \<and> GetTrustingPeriod frac (pr_config pr) = Inr period
       \<and> cs = \<lparr>StepVerifierDigest = step, SkipVerifierDigest = skp, TrustingPeriod = word_of_int period,
               Frozen = False, LatestHeight = tm_height hdr\<rparr>
       \<and> cons = \<lparr>BlockHash = commit_hash hdr, AppHash = proto_app_hash lib (signed_header hdr),
                 Timestamp = UnixNano (proto_time_of lib (signed_header hdr))\<rparr>)"
  by (auto simp: CreateInitialLightClientState_def Let_def panic_hex_def panic_duration_def rbind_eq_Inr_iff
      split: sum.splits if_splits option.splits)

text \<open>
  When an update message is built: exactly if the header is one of Tendermint, the counterparty's
  height and client state can be read, the header is above the trusted height, the chain has a header
  at its height, the wait ended with a proof, and the header's fields and the proof can be encoded. The
  heights of the message are then those two, and its inputs the bytes of the proof's inputs.
\<close>

theorem SetupHeadersForUpdate_success_iff:
  "SetupHeadersForUpdate H ms lib a ch cp header outcome = Inr msg \<longleftrightarrow>
    (\<exists>h cph latest res zkProof tmHeader tree bs.
       header = TmHeader h \<and> cp_latest_height cp = Inr cph \<and> cp_client_height cp cph = Inr latest
       \<and> RevisionHeight latest < RevisionHeight (tm_height h)
       \<and> header_at ch (sint (RevisionHeight (tm_height h))) = Inr res
       \<and> outcome = GotProof zkProof \<and> HeaderFromProto lib (signed_header h) = Inr tmHeader
       \<and> getSimpleTreeProof H ms (Some tmHeader) = Some tree \<and> EncodeEthABI a (ZKProofOf zkProof) = Inr bs
       \<and> msg = \<lparr>TrustedHeight = RevisionHeight latest, UntrustedHeight = RevisionHeight (tm_height h),
                UntrustedBlockHash = Hash ch res, MsgTimestamp = UnixNano (proto_time_of lib (signed_header h)),
                MsgAppHash = proto_app_hash lib (signed_header h), SimpleTreeProof = tree,
                Input = map HexBigInt_Bytes (ZKInput zkProof), ZkProof = bs\<rparr>)"
  by (cases header; cases outcome)
    (auto simp: SetupHeadersForUpdate_def setup_start_def setup_finish_def rbind_eq_Inr_iff Let_def not_le
      split: sum.splits option.splits if_splits)

end
