(* ===== verification/State_Proofs.thy ===== *)
theory State_Proofs
  imports Relay_Prover
begin

text \<open>
  Proofs of IBC states: \<open>ProveState\<close> of \<open>go/relay/prover.go\<close>, the conversion of a Merkle proof
  in \<open>go/relay/tree.go\<close>, and the record the contract gets, \<open>go/relay/proof.go\<close>. The proof types
  and the verification are those of ics23 and ibc-go, the ABI packer is go-ethereum's; they
  are the records \<open>state_lib\<close> and \<open>existence_abi\<close>.
\<close>

section \<open>Proofs of ics23\<close>

text \<open>A leaf operation is a pointer, of which only the prefix is read.\<close>

record ics_existence =
  ics_key :: bytes
  ics_value :: bytes
  ics_leaf_prefix :: "bytes option"
  ics_path :: "(bytes \<times> bytes) list"

datatype commitment_proof = Exist ics_existence | OtherProof

section \<open>The record for the contract\<close>

record ExistenceProof =
  Spec :: byte
  Prefix :: bytes
  Key :: bytes
  Value :: bytes
  Path :: "(bytes \<times> bytes) list"

text \<open>
  The packer for the type \<open>tuple[2]\<close>. What it unpacks is an \<open>interface{}\<close>: a slice of structs with
  the fields of an existence proof, or a value of another Go type.
\<close>

datatype unpacked = UnpackedSlice "ExistenceProof list" | UnpackedOther

record existence_abi =
  ep_pack :: "ExistenceProof list \<Rightarrow> string + bytes"
  ep_unpack :: "bytes \<Rightarrow> string + unpacked"

datatype state_error =
    InvalidMerkleProof
  | NotMember string
  | EpAbi string
  | StateQuery string
  | ValueUnmatch bytes bytes
  | UnmarshalProof string
  | StatePanic string

definition ep_result :: "string + 'a \<Rightarrow> state_error + 'a" where
  "ep_result r = (case r of Inl e \<Rightarrow> Inl (EpAbi e) | Inr x \<Rightarrow> Inr x)"

definition EthABIEncodeExistenceProofs :: "existence_abi \<Rightarrow> ExistenceProof list \<Rightarrow> state_error + bytes" where
  "EthABIEncodeExistenceProofs a proofs = ep_result (ep_pack a proofs)"

fun append_proofs :: "ExistenceProof list \<Rightarrow> ExistenceProof list \<Rightarrow> ExistenceProof list" where
  "append_proofs acc [] = acc"
| "append_proofs acc (p # ps) =
     append_proofs (acc @ [\<lparr>Spec = Spec p, Prefix = Prefix p, Key = Key p, Value = Value p, Path = Path p\<rparr>]) ps"

definition EthABIDecodeExistenceProofs :: "existence_abi \<Rightarrow> bytes \<Rightarrow> state_error + ExistenceProof list" where
  "EthABIDecodeExistenceProofs a data =
     rbind (ep_result (ep_unpack a data)) (\<lambda>v. case v of
        UnpackedOther \<Rightarrow> Inl (StatePanic ''interface conversion'')
      | UnpackedSlice ps \<Rightarrow> Inr (append_proofs [] ps))"

section \<open>Conversion\<close>

definition SimpleTree :: byte where "SimpleTree = 0"
definition IAVLSpec :: byte where "IAVLSpec = 1"

fun append_path :: "(bytes \<times> bytes) list \<Rightarrow> (bytes \<times> bytes) list \<Rightarrow> (bytes \<times> bytes) list" where
  "append_path acc [] = acc"
| "append_path acc (s # steps) = append_path (acc @ [(fst s, snd s)]) steps"

definition buildExistenceProofIAVL :: "ics_existence \<Rightarrow> state_error + ExistenceProof" where
  "buildExistenceProofIAVL proof = (case ics_leaf_prefix proof of
     None \<Rightarrow> Inl (StatePanic ''nil leaf'')
   | Some prefix \<Rightarrow> Inr \<lparr>Spec = IAVLSpec, Prefix = prefix, Key = ics_key proof, Value = ics_value proof,
       Path = append_path [] (ics_path proof)\<rparr>)"

definition buildExistenceProofSimpleTree :: "ics_existence \<Rightarrow> state_error + ExistenceProof" where
  "buildExistenceProofSimpleTree proof = (case ics_leaf_prefix proof of
     None \<Rightarrow> Inl (StatePanic ''nil leaf'')
   | Some prefix \<Rightarrow> Inr \<lparr>Spec = SimpleTree, Prefix = prefix, Key = ics_key proof, Value = ics_value proof,
       Path = append_path [] (ics_path proof)\<rparr>)"

definition IBCStoreKey :: string where "IBCStoreKey = ''ibc''"

text \<open>
  \<open>VerifyMembership\<close> of ibc-go with the SDK's proof specifications: the root, the path with its
  store key, the value and the proof.
\<close>

record state_lib =
  VerifyMembership :: "bytes \<Rightarrow> string list \<Rightarrow> bytes \<Rightarrow> commitment_proof list \<Rightarrow> string + unit"
  QueryTendermintProof :: "int \<Rightarrow> bytes \<Rightarrow> string + (bytes \<times> bytes \<times> Height)"
  UnmarshalMerkleProof :: "bytes \<Rightarrow> string + commitment_proof list"

definition verifyAndConvertToExistenceProof ::
    "existence_abi \<Rightarrow> state_lib \<Rightarrow> bytes \<Rightarrow> string \<Rightarrow> bytes \<Rightarrow> commitment_proof list \<Rightarrow> state_error + bytes" where
  "verifyAndConvertToExistenceProof a lib root path value merkleProof =
     (if length merkleProof \<noteq> 2 then Inl InvalidMerkleProof
      else case merkleProof ! 0 of OtherProof \<Rightarrow> Inl InvalidMerkleProof | Exist pe0 \<Rightarrow>
       (case merkleProof ! 1 of OtherProof \<Rightarrow> Inl InvalidMerkleProof | Exist pe1 \<Rightarrow>
        (case VerifyMembership lib root [IBCStoreKey, path] value merkleProof of
           Inl e \<Rightarrow> Inl (NotMember e)
         | Inr u \<Rightarrow>
           rbind (buildExistenceProofIAVL pe0) (\<lambda>p0.
           rbind (buildExistenceProofSimpleTree pe1) (\<lambda>p1.
             EthABIEncodeExistenceProofs a [p0, p1])))))"

section \<open>\<open>ProveState\<close>\<close>

text \<open>\<open>[32]byte(s)\<close> panics on a slice of less than 32 bytes.\<close>

definition to_array32 :: "bytes \<Rightarrow> state_error + bytes" where
  "to_array32 s = (if length s < 32 then Inl (StatePanic ''slice to array'') else Inr (take 32 s))"

definition ProveState ::
    "existence_abi \<Rightarrow> state_lib \<Rightarrow> ('v, 'b) chain \<Rightarrow> Height \<Rightarrow> string \<Rightarrow> bytes \<Rightarrow> state_error + (bytes \<times> Height)" where
  "ProveState a lib ch ctx_height path value =
     (let height = sint (RevisionHeight ctx_height) in
      case header_at ch height of Inl e \<Rightarrow> Inl (StateQuery e) | Inr hdr \<Rightarrow>
       (case QueryTendermintProof lib height (string_bytes path) of Inl e \<Rightarrow> Inl (StateQuery e)
        | Inr (v, proof, proofHeight) \<Rightarrow>
          if v \<noteq> value then Inl (ValueUnmatch v value)
          else case UnmarshalMerkleProof lib proof of Inl e \<Rightarrow> Inl (UnmarshalProof e)
          | Inr merkleProof \<Rightarrow>
            if length merkleProof \<noteq> 2 then Inl InvalidMerkleProof
            else rbind (to_array32 (slice (hAppHash hdr))) (\<lambda>root.
              rbind (verifyAndConvertToExistenceProof a lib root path value merkleProof) (\<lambda>exitProof.
                Inr (exitProof, proofHeight)))))"

section \<open>Facts\<close>

lemma append_path_eq: "append_path acc ps = acc @ ps"
  by (induction acc ps rule: append_path.induct) simp_all

lemma append_proofs_eq: "append_proofs acc ps = acc @ ps"
  by (induction acc ps rule: append_proofs.induct) simp_all

definition converted :: "byte \<Rightarrow> ics_existence \<Rightarrow> bytes \<Rightarrow> ExistenceProof" where
  "converted spec pe prefix = \<lparr>Spec = spec, Prefix = prefix, Key = ics_key pe, Value = ics_value pe,
     Path = ics_path pe\<rparr>"

lemma build_eq:
  "buildExistenceProofIAVL pe = (case ics_leaf_prefix pe of None \<Rightarrow> Inl (StatePanic ''nil leaf'')
     | Some prefix \<Rightarrow> Inr (converted IAVLSpec pe prefix))"
  "buildExistenceProofSimpleTree pe = (case ics_leaf_prefix pe of None \<Rightarrow> Inl (StatePanic ''nil leaf'')
     | Some prefix \<Rightarrow> Inr (converted SimpleTree pe prefix))"
  by (simp_all add: buildExistenceProofIAVL_def buildExistenceProofSimpleTree_def converted_def
      append_path_eq split: option.splits)

text \<open>What a converted proof is.\<close>

definition conversion_of ::
    "existence_abi \<Rightarrow> state_lib \<Rightarrow> bytes \<Rightarrow> string \<Rightarrow> bytes \<Rightarrow> commitment_proof list \<Rightarrow> bytes \<Rightarrow> bool" where
  "conversion_of a lib root path value mp bs \<longleftrightarrow>
     (\<exists>pe0 pe1 f0 f1. mp = [Exist pe0, Exist pe1]
       \<and> VerifyMembership lib root [''ibc'', path] value mp = Inr ()
       \<and> ics_leaf_prefix pe0 = Some f0 \<and> ics_leaf_prefix pe1 = Some f1
       \<and> ep_pack a [converted 1 pe0 f0, converted 0 pe1 f1] = Inr bs)"

lemma ep_result_Inr: "ep_result r = Inr x \<longleftrightarrow> r = Inr x"
  by (simp add: ep_result_def split: sum.splits)

lemma list_2: "length xs = 2 \<Longrightarrow> xs = [xs ! 0, xs ! 1]"
  by (cases xs; cases "tl xs") auto

lemma verifyAndConvert_Inr:
  "verifyAndConvertToExistenceProof a lib root path value mp = Inr bs \<longleftrightarrow>
     conversion_of a lib root path value mp bs"
proof (cases "length mp = 2")
  case True
  obtain p0 p1 where mp: "mp = [p0, p1]" using list_2 [OF True] by blast
  show ?thesis
    unfolding conversion_of_def verifyAndConvertToExistenceProof_def mp
    by (cases p0; cases p1; cases "VerifyMembership lib root [IBCStoreKey, path] value [p0, p1]")
      (auto simp: build_eq EthABIEncodeExistenceProofs_def ep_result_Inr IBCStoreKey_def IAVLSpec_def
        SimpleTree_def rbind_eq_Inr_iff split: option.splits)
qed (auto simp: verifyAndConvertToExistenceProof_def conversion_of_def)

lemma ProveState_Inr:
  assumes "header_at ch (sint (RevisionHeight h)) = Inr hdr" and "length (slice (hAppHash hdr)) = 32"
  shows "ProveState a lib ch h path value = Inr (bs, ph) \<longleftrightarrow>
    (\<exists>proof mp. QueryTendermintProof lib (sint (RevisionHeight h)) (string_bytes path) = Inr (value, proof, ph)
      \<and> UnmarshalMerkleProof lib proof = Inr mp
      \<and> conversion_of a lib (slice (hAppHash hdr)) path value mp bs)"
proof -
  have "conversion_of a lib root path value mp bs \<Longrightarrow> length mp = 2" for root mp
    by (auto simp: conversion_of_def)
  then show ?thesis
    using assms
    by (auto simp: ProveState_def Let_def to_array32_def verifyAndConvert_Inr rbind_eq_Inr_iff
        split: sum.splits)
qed

section \<open>Properties\<close>

text \<open>
  C21: What \<open>ProveState\<close> gives to the contract is proved under the right root: it succeeds exactly
  if the chain stores \<open>value\<close> at the path, the proof has two existence proofs, and the proof was
  verified against the application hash of the header at the requested height, for the
  store \<open>ibc\<close> and that path and value; the result is the packed pair, the IAVL proof first,
  nothing of the proofs changed.
\<close>

theorem ProveState_success_iff:
  assumes "header_at ch (sint (RevisionHeight h)) = Inr hdr" and "length (slice (hAppHash hdr)) = 32"
  shows "ProveState a lib ch h path value = Inr (bs, ph) \<longleftrightarrow>
    (\<exists>proof mp. QueryTendermintProof lib (sint (RevisionHeight h)) (string_bytes path) = Inr (value, proof, ph)
      \<and> UnmarshalMerkleProof lib proof = Inr mp
      \<and> conversion_of a lib (slice (hAppHash hdr)) path value mp bs)"
  by (rule ProveState_Inr [OF assms])

text \<open>A packer and a chain on which a proof is found.\<close>

definition example_pe :: ics_existence where
  "example_pe = \<lparr>ics_key = [1], ics_value = [2], ics_leaf_prefix = Some [0], ics_path = [([1], [3])]\<rparr>"

definition example_ep_abi :: existence_abi where
  "example_ep_abi = \<lparr>ep_pack = (\<lambda>ps. if length ps = 2 then Inr (concat (map Value ps)) else Inl ''size''),
     ep_unpack = (\<lambda>bs. Inl ''no'')\<rparr>"

definition example_state_lib :: state_lib where
  "example_state_lib =
     \<lparr>VerifyMembership = (\<lambda>root path value mp. if root = replicate 32 3 \<and> value = [2] then Inr () else Inl ''no''),
      QueryTendermintProof = (\<lambda>h path. Inr ([2], [9], \<lparr>RevisionNumber = 0, RevisionHeight = 5\<rparr>)),
      UnmarshalMerkleProof = (\<lambda>bs. Inr [Exist example_pe, Exist example_pe])\<rparr>"

definition example_state_chain :: "(nat, bytes) chain" where
  "example_state_chain = \<lparr>header_at = (\<lambda>h. Inr example_header), Hash = (\<lambda>h. [])\<rparr>"

theorem ProveState_success_iff_witness:
  "ProveState example_ep_abi example_state_lib example_state_chain
     \<lparr>RevisionNumber = 0, RevisionHeight = 5\<rparr> ''connections/0'' [2] =
     Inr ([2, 2], \<lparr>RevisionNumber = 0, RevisionHeight = 5\<rparr>)"
proof (subst ProveState_success_iff)
  show "header_at example_state_chain (sint (RevisionHeight \<lparr>RevisionNumber = 0, RevisionHeight = 5\<rparr>)) =
      Inr example_header"
    by (simp add: example_state_chain_def)
qed (simp_all add: example_header_def slice_def example_state_lib_def example_ep_abi_def conversion_of_def
    example_pe_def converted_def)

end
