(* ===== verification/Light_Client.thy ===== *)
theory Light_Client
  imports Prover_Config
begin

text \<open>
  The local light client of the relayer, \<open>go/relay/tendermint.go\<close>: the database it opens and
  closes around every use, the queries and updates of CometBFT's light client, and the
  initialization from the latest header. CometBFT, its database and \<open>retry-go\<close> are the record
  \<open>light_lib\<close>; the state is the outside world (\<open>env\<close>: disk, network and clock), the handles of
  the database that are open, and the variables that the closures given to \<open>retry.Do\<close> assign.
\<close>

section \<open>State and effects\<close>

record ('s, 'db) light_state =
  env :: 's
  handles :: "'db list"
  v_db :: "'db option"
  v_height :: int

text \<open>
  \<open>LightErr\<close> is an error wrapped by \<open>lightError\<close>, \<open>PlainErr\<close> one returned as it is.
\<close>

datatype light_error = PlainErr string | LightErr string | LightPanic string

type_synonym ('s, 'db, 'a) effect = "('s, 'db) light_state \<Rightarrow> (light_error + 'a) \<times> ('s, 'db) light_state"

text \<open>A closure for \<open>retry.Do\<close> returns an error or nil.\<close>

type_synonym ('s, 'db) attempt = "('s, 'db) light_state \<Rightarrow> string option \<times> ('s, 'db) light_state"

definition ebind :: "('s, 'db, 'a) effect \<Rightarrow> ('a \<Rightarrow> ('s, 'db, 'b) effect) \<Rightarrow> ('s, 'db, 'b) effect" where
  "ebind m f s = (case m s of (Inl e, s') \<Rightarrow> (Inl e, s') | (Inr x, s') \<Rightarrow> f x s')"

text \<open>The light client libraries. \<open>'c\<close> is a client, \<open>'lb\<close> a light block, \<open>'h\<close> the header of ibc-go.\<close>

record ('s, 'db, 'c, 'lb, 'h) light_lib =
  NewGoLevelDB :: "'db list \<Rightarrow> 's \<Rightarrow> (string + 'db) \<times> 's"
  CloseDB :: "'db \<Rightarrow> 's \<Rightarrow> string option \<times> 's"
  retry_Do :: "nat \<Rightarrow> ('s, 'db) attempt \<Rightarrow> ('s, 'db) attempt"
  NewProvider :: "'s \<Rightarrow> string option"
  NewClientFromTrustedStore :: "int \<Rightarrow> 'db \<Rightarrow> 's \<Rightarrow> string + 'c"
  NewClient :: "int \<Rightarrow> int \<Rightarrow> bytes \<Rightarrow> 'db \<Rightarrow> 's \<Rightarrow> (string + 'c) \<times> 's"
  UpdateClient :: "'c \<Rightarrow> 's \<Rightarrow> (string + 'lb option) \<times> 's"
  TrustedLightBlock :: "'c \<Rightarrow> int \<Rightarrow> 's \<Rightarrow> string + 'lb"
  VerifyLightBlockAtHeight :: "'c \<Rightarrow> int \<Rightarrow> 's \<Rightarrow> (string + 'lb) \<times> 's"
  LastTrustedHeight :: "'c \<Rightarrow> 's \<Rightarrow> string + int"
  ProviderLightBlock :: "int \<Rightarrow> 's \<Rightarrow> string + 'lb"
  lb_hash :: "'lb \<Rightarrow> bytes"
  to_tm_header :: "'lb \<Rightarrow> string + 'h"
  ChainLatestHeight :: "'s \<Rightarrow> string + uint64"
  ChainTimestamp :: "uint64 \<Rightarrow> 's \<Rightarrow> string + int"
  Now :: "'s \<Rightarrow> int"
  RemoveAll :: "'s \<Rightarrow> string option \<times> 's"

definition rtyAttNum :: nat where "rtyAttNum = 5"

definition pure_call :: "('s \<Rightarrow> string + 'a) \<Rightarrow> ('s, 'db, 'a) effect" where
  "pure_call f s = (case f (env s) of Inl e \<Rightarrow> (Inl (PlainErr e), s) | Inr x \<Rightarrow> (Inr x, s))"

definition call :: "('s \<Rightarrow> (string + 'a) \<times> 's) \<Rightarrow> ('s, 'db, 'a) effect" where
  "call f s = (case f (env s) of (Inl e, w) \<Rightarrow> (Inl (PlainErr e), s\<lparr>env := w\<rparr>) | (Inr x, w) \<Rightarrow> (Inr x, s\<lparr>env := w\<rparr>))"

text \<open>\<open>return nil, lightError(err)\<close> instead of \<open>return nil, err\<close>.\<close>

definition light_err :: "('s, 'db, 'a) effect \<Rightarrow> ('s, 'db, 'a) effect" where
  "light_err m s = (case m s of (Inl (PlainErr e), s') \<Rightarrow> (Inl (LightErr e), s') | r \<Rightarrow> r)"

section \<open>The database\<close>

definition open_attempt :: "('s, 'db, 'c, 'lb, 'h) light_lib \<Rightarrow> ('s, 'db) attempt" where
  "open_attempt lib s = (case NewGoLevelDB lib (handles s) (env s) of
     (Inl e, w) \<Rightarrow> (Some (''can't open light client database: '' @ e), s\<lparr>env := w, v_db := None\<rparr>)
   | (Inr db, w) \<Rightarrow> (None, s\<lparr>env := w, handles := db # handles s, v_db := Some db\<rparr>))"

definition NewLightDB :: "('s, 'db, 'c, 'lb, 'h) light_lib \<Rightarrow> ('s, 'db, 'db) effect" where
  "NewLightDB lib s = (case retry_Do lib rtyAttNum (open_attempt lib) (s\<lparr>v_db := None\<rparr>) of
     (Some e, s') \<Rightarrow> (Inl (PlainErr e), s')
   | (None, s') \<Rightarrow> (case v_db s' of
        None \<Rightarrow> (Inl (LightPanic ''nil database''), s')
      | Some db \<Rightarrow> (Inr db, s')))"

text \<open>The closing function \<open>df\<close>: it panics when the database cannot be closed.\<close>

definition close_db :: "('s, 'db, 'c, 'lb, 'h) light_lib \<Rightarrow> 'db \<Rightarrow> ('s, 'db, unit) effect" where
  "close_db lib db s = (case CloseDB lib db (env s) of
     (Some e, w) \<Rightarrow> (Inl (LightPanic e), s\<lparr>env := w\<rparr>)
   | (None, w) \<Rightarrow> (Inr (), s\<lparr>env := w, handles := remove1 db (handles s)\<rparr>))"

text \<open>\<open>defer df()\<close>: the body, then the closing, whatever the body returned.\<close>

definition defer_close ::
    "('s, 'db, 'c, 'lb, 'h) light_lib \<Rightarrow> 'db \<Rightarrow> ('s, 'db, 'a) effect \<Rightarrow> ('s, 'db, 'a) effect" where
  "defer_close lib db body s = (case body s of (r, s') \<Rightarrow>
     (case close_db lib db s' of (Inl e, s'') \<Rightarrow> (Inl e, s'') | (Inr u, s'') \<Rightarrow> (r, s'')))"

definition DeleteLightDB :: "('s, 'db, 'c, 'lb, 'h) light_lib \<Rightarrow> ('s, 'db, unit) effect" where
  "DeleteLightDB lib = call (\<lambda>w. case RemoveAll lib w of (None, w') \<Rightarrow> (Inr (), w') | (Some e, w') \<Rightarrow> (Inl e, w'))"

section \<open>Clients\<close>

text \<open>\<open>getTrustingPeriod\<close> drops the error of the parser: the period is then zero.\<close>

definition getTrustingPeriod :: "fraction \<Rightarrow> ProverConfig \<Rightarrow> int" where
  "getTrustingPeriod frac c = (case ParseDuration frac (CfgTrustingPeriod c) of Inl e \<Rightarrow> 0 | Inr d \<Rightarrow> d)"

definition LightHTTP :: "('s, 'db, 'c, 'lb, 'h) light_lib \<Rightarrow> ('s, 'db, unit) effect" where
  "LightHTTP lib s = (case NewProvider lib (env s) of
     Some e \<Rightarrow> (Inl (LightPanic e), s) | None \<Rightarrow> (Inr (), s))"

definition LightClient ::
    "fraction \<Rightarrow> ProverConfig \<Rightarrow> ('s, 'db, 'c, 'lb, 'h) light_lib \<Rightarrow> 'db \<Rightarrow> ('s, 'db, 'c) effect" where
  "LightClient frac cfg lib db = ebind (LightHTTP lib) (\<lambda>_.
     pure_call (NewClientFromTrustedStore lib (getTrustingPeriod frac cfg) db))"

record trust_options =
  Period :: int
  TrustHeight :: int
  TrustHash :: bytes

definition TrustOptions :: "fraction \<Rightarrow> ProverConfig \<Rightarrow> int \<Rightarrow> bytes \<Rightarrow> trust_options" where
  "TrustOptions frac cfg height hash =
     \<lparr>Period = getTrustingPeriod frac cfg, TrustHeight = height, TrustHash = hash\<rparr>"

definition LightClientWithTrust ::
    "('s, 'db, 'c, 'lb, 'h) light_lib \<Rightarrow> 'db \<Rightarrow> trust_options \<Rightarrow> ('s, 'db, 'c) effect" where
  "LightClientWithTrust lib db to = ebind (LightHTTP lib) (\<lambda>_.
     call (NewClient lib (Period to) (TrustHeight to) (TrustHash to) db))"

text \<open>\<open>time.Since\<close>, in nanoseconds; a \<open>time.Duration\<close> saturates.\<close>

definition time_since :: "int \<Rightarrow> int \<Rightarrow> int" where
  "time_since now t = max (- (2 ^ 63)) (min (2 ^ 63 - 1) (now - t))"

text \<open>The closure that looks for a recent header.\<close>

definition latest_attempt :: "fraction \<Rightarrow> ProverConfig \<Rightarrow> ('s, 'db, 'c, 'lb, 'h) light_lib \<Rightarrow> ('s, 'db) attempt" where
  "latest_attempt frac cfg lib s = (case ChainLatestHeight lib (env s) of
     Inl e \<Rightarrow> (Some e, s)
   | Inr h \<Rightarrow>
     if h = 0 then (Some ''shouldn't be here'', s)
     else case ChainTimestamp lib h (env s) of
       Inl e \<Rightarrow> (Some e, s)
     | Inr t \<Rightarrow>
       if getTrustingPeriod frac cfg < time_since (Now lib (env s)) t then (Some ''trusting period has expired'', s)
       else (None, s\<lparr>v_height := sint h\<rparr>))"

definition LightClientWithoutTrust ::
    "fraction \<Rightarrow> ProverConfig \<Rightarrow> ('s, 'db, 'c, 'lb, 'h) light_lib \<Rightarrow> 'db \<Rightarrow> ('s, 'db, 'c) effect" where
  "LightClientWithoutTrust frac cfg lib db = ebind (LightHTTP lib) (\<lambda>_ s.
     case retry_Do lib rtyAttNum (latest_attempt frac cfg lib) (s\<lparr>v_height := 0\<rparr>) of
       (Some e, s') \<Rightarrow> (Inl (PlainErr e), s')
     | (None, s') \<Rightarrow>
       let height = v_height s' in
       ebind (pure_call (ProviderLightBlock lib height)) (\<lambda>lb.
         call (NewClient lib (getTrustingPeriod frac cfg) height (lb_hash lib lb) db)) s')"

section \<open>Queries and updates\<close>

definition GetLightSignedHeaderAtHeight ::
    "fraction \<Rightarrow> ProverConfig \<Rightarrow> ('s, 'db, 'c, 'lb, 'h) light_lib \<Rightarrow> int \<Rightarrow> ('s, 'db, 'h) effect" where
  "GetLightSignedHeaderAtHeight frac cfg lib height =
     ebind (NewLightDB lib) (\<lambda>db. defer_close lib db
       (ebind (LightClient frac cfg lib db) (\<lambda>client.
        ebind (pure_call (TrustedLightBlock lib client height)) (\<lambda>sh.
          pure_call (\<lambda>w. to_tm_header lib sh)))))"

definition GetLatestLightHeader ::
    "fraction \<Rightarrow> ProverConfig \<Rightarrow> ('s, 'db, 'c, 'lb, 'h) light_lib \<Rightarrow> ('s, 'db, 'h) effect" where
  "GetLatestLightHeader frac cfg lib = GetLightSignedHeaderAtHeight frac cfg lib 0"

definition GetLatestLightHeight ::
    "fraction \<Rightarrow> ProverConfig \<Rightarrow> ('s, 'db, 'c, 'lb, 'h) light_lib \<Rightarrow> ('s, 'db, int) effect" where
  "GetLatestLightHeight frac cfg lib =
     ebind (NewLightDB lib) (\<lambda>db. defer_close lib db
       (ebind (LightClient frac cfg lib db) (\<lambda>client. pure_call (LastTrustedHeight lib client))))"

text \<open>The block \<open>UpdateLightClient\<close> returns: the latest one for height zero, else a verified one.\<close>

definition updated_block ::
    "('s, 'db, 'c, 'lb, 'h) light_lib \<Rightarrow> 'c \<Rightarrow> int \<Rightarrow> ('s, 'db, 'lb) effect" where
  "updated_block lib client height =
     (if height = 0 then
        ebind (call (UpdateClient lib client)) (\<lambda>sh. case sh of
          None \<Rightarrow> pure_call (TrustedLightBlock lib client 0)
        | Some lb \<Rightarrow> (\<lambda>s. (Inr lb, s)))
      else call (VerifyLightBlockAtHeight lib client height))"

definition UpdateLightClient ::
    "fraction \<Rightarrow> ProverConfig \<Rightarrow> ('s, 'db, 'c, 'lb, 'h) light_lib \<Rightarrow> int \<Rightarrow> ('s, 'db, 'h) effect" where
  "UpdateLightClient frac cfg lib height =
     ebind (light_err (NewLightDB lib)) (\<lambda>db. defer_close lib db
       (ebind (light_err (LightClient frac cfg lib db)) (\<lambda>client.
        ebind (light_err (updated_block lib client height)) (\<lambda>sh.
          pure_call (\<lambda>w. to_tm_header lib sh)))))"

section \<open>Facts\<close>

text \<open>
  \<open>retry.Do\<close> as documented: the closure runs until it succeeds, at most \<open>n\<close> times, and the last
  error is returned; time passes between two attempts.
\<close>

fun retried :: "('s \<Rightarrow> 's) \<Rightarrow> nat \<Rightarrow> ('s, 'db) attempt \<Rightarrow> ('s, 'db) attempt" where
  "retried sleep 0 f s = (Some ''no attempt'', s)"
| "retried sleep (Suc n) f s = (case f s of
     (None, s') \<Rightarrow> (None, s')
   | (Some e, s') \<Rightarrow> if n = 0 then (Some e, s') else retried sleep n f (s'\<lparr>env := sleep (env s')\<rparr>))"

definition retry_ok :: "('s, 'db, 'c, 'lb, 'h) light_lib \<Rightarrow> bool" where
  "retry_ok lib \<longleftrightarrow> (\<exists>sleep. \<forall>n f s. retry_Do lib n f s = retried sleep n f s)"

lemma retried_success: "retried sleep n f s = (None, s') \<Longrightarrow> \<exists>s1. f s1 = (None, s')"
  by (induction sleep n f s rule: retried.induct) (auto split: prod.splits option.splits if_splits)

text \<open>Effects that neither open nor close a database.\<close>

definition keeps_handles :: "('s, 'db, 'a) effect \<Rightarrow> bool" where
  "keeps_handles m \<longleftrightarrow> (\<forall>s. handles (snd (m s)) = handles s)"

named_theorems keeps

lemma keeps_ebind [keeps]: "keeps_handles m \<Longrightarrow> (\<And>x. keeps_handles (f x)) \<Longrightarrow> keeps_handles (ebind m f)"
  by (auto simp: keeps_handles_def ebind_def split: prod.splits sum.splits) (metis snd_conv)+

lemma keeps_pure_call [keeps]: "keeps_handles (pure_call f)"
  by (auto simp: keeps_handles_def pure_call_def split: sum.splits)

lemma keeps_call [keeps]: "keeps_handles (call f)"
  by (auto simp: keeps_handles_def call_def split: prod.splits sum.splits)

lemma keeps_light_err [keeps]: "keeps_handles m \<Longrightarrow> keeps_handles (light_err m)"
  unfolding keeps_handles_def light_err_def
  by (auto split: prod.splits sum.splits light_error.splits) (metis snd_conv)+

lemma keeps_LightHTTP [keeps]: "keeps_handles (LightHTTP lib)"
  by (auto simp: keeps_handles_def LightHTTP_def split: option.splits)

lemma keeps_LightClient [keeps]: "keeps_handles (LightClient frac cfg lib db)"
  unfolding LightClient_def by (intro keeps)

lemma keeps_return [keeps]: "keeps_handles (\<lambda>s. (Inr x, s))"
  by (simp add: keeps_handles_def)

lemma keeps_updated_block [keeps]: "keeps_handles (updated_block lib client height)"
  by (auto simp: updated_block_def intro!: keeps split: option.splits)

text \<open>Opening: a database on success, nothing on failure.\<close>

lemma open_attempts:
  assumes "retried sleep n (open_attempt lib) s = (r, s')"
  shows "(\<forall>e. r = Some e \<longrightarrow> handles s' = handles s)
    \<and> (r = None \<longrightarrow> (\<exists>db. v_db s' = Some db \<and> handles s' = db # handles s))"
  using assms
proof (induction n arbitrary: s)
  case (Suc n)
  show ?case
  proof (cases "open_attempt lib s")
    case (Pair r1 s1)
    show ?thesis
    proof (cases r1)
      case None
      with Pair Suc.prems show ?thesis
        by (auto simp: open_attempt_def split: prod.splits sum.splits)
    next
      case (Some e)
      with Pair have "handles s1 = handles s"
        by (auto simp: open_attempt_def split: prod.splits sum.splits)
      with Suc.prems Suc.IH [of "s1\<lparr>env := sleep (env s1)\<rparr>"] Pair Some show ?thesis
        by (auto split: if_splits)
    qed
  qed
qed auto

definition opens_one :: "('s, 'db, 'db) effect \<Rightarrow> bool" where
  "opens_one m \<longleftrightarrow> (\<forall>s r s'. m s = (r, s') \<longrightarrow>
     (case r of Inl e \<Rightarrow> handles s' = handles s | Inr db \<Rightarrow> handles s' = db # handles s))"

lemma NewLightDB_opens:
  assumes "retry_ok lib"
  shows "opens_one (NewLightDB lib)"
  unfolding opens_one_def
proof (intro allI impI)
  fix s r s'
  assume "NewLightDB lib s = (r, s')"
  moreover obtain sleep where r: "retry_Do lib n f x = retried sleep n f x" for n f x
    using assms by (auto simp: retry_ok_def)
  moreover obtain r1 s1 where "retried sleep rtyAttNum (open_attempt lib) (s\<lparr>v_db := None\<rparr>) = (r1, s1)"
    by fastforce
  moreover note open_attempts [OF this]
  ultimately show "case r of Inl e \<Rightarrow> handles s' = handles s | Inr db \<Rightarrow> handles s' = db # handles s"
    by (cases r1) (auto simp: NewLightDB_def r)
qed

lemma light_err_opens: "opens_one m \<Longrightarrow> opens_one (light_err m)"
  unfolding opens_one_def light_err_def
  by (fastforce split: prod.splits sum.splits light_error.splits)

text \<open>
  What a use of the database leaves: the handles of before, or one more when the deferred closing of that database failed, which
  panics. \<open>closes\<close>: closing never fails.
\<close>

definition settles :: "('s, 'db, 'c, 'lb, 'h) light_lib \<Rightarrow> ('s, 'db, 'a) effect \<Rightarrow> bool" where
  "settles lib m \<longleftrightarrow> (\<forall>s. handles (snd (m s)) = handles s
     \<or> (\<exists>e db w. fst (CloseDB lib db w) = Some e \<and> fst (m s) = Inl (LightPanic e) \<and> handles (snd (m s)) = db # handles s))"

definition closes :: "('s, 'db, 'c, 'lb, 'h) light_lib \<Rightarrow> bool" where
  "closes lib \<longleftrightarrow> (\<forall>db w. fst (CloseDB lib db w) = None)"

lemma settles_closes: "settles lib m \<Longrightarrow> closes lib \<Longrightarrow> handles (snd (m s)) = handles s"
  unfolding settles_def closes_def by (metis option.distinct(1))

lemma settles_keeps: "keeps_handles m \<Longrightarrow> settles lib m"
  by (simp add: settles_def keeps_handles_def)

lemma settles_ebind:
  assumes "settles lib m" and "\<And>x. settles lib (f x)"
  shows "settles lib (ebind m f)"
  unfolding settles_def
proof
  fix s
  obtain r s1 where m: "m s = (r, s1)" by (cases "m s")
  show "handles (snd (ebind m f s)) = handles s \<or> (\<exists>e db w. fst (CloseDB lib db w) = Some e
      \<and> fst (ebind m f s) = Inl (LightPanic e) \<and> handles (snd (ebind m f s)) = db # handles s)"
  proof (cases r)
    case (Inl e)
    with assms(1) [unfolded settles_def, rule_format, of s] m show ?thesis by (simp add: ebind_def)
  next
    case (Inr x)
    with assms(1) [unfolded settles_def, rule_format, of s] m have "handles s1 = handles s" by auto
    with assms(2) [of x, unfolded settles_def, rule_format, of s1] m Inr show ?thesis by (simp add: ebind_def)
  qed
qed

text \<open>A body between the opening and the deferred closing.\<close>

lemma settles_with_database:
  assumes opn: "opens_one opn" and body: "\<And>db. keeps_handles (body db)"
  shows "settles lib (ebind opn (\<lambda>db. defer_close lib db (body db)))"
  unfolding settles_def
proof
  fix s
  let ?m = "ebind opn (\<lambda>db. defer_close lib db (body db))"
  obtain r s1 where o: "opn s = (r, s1)" by (cases "opn s")
  with opn have h1: "case r of Inl e \<Rightarrow> handles s1 = handles s | Inr db \<Rightarrow> handles s1 = db # handles s"
    by (simp add: opens_one_def)
  show "handles (snd (?m s)) = handles s \<or> (\<exists>e db w. fst (CloseDB lib db w) = Some e
      \<and> fst (?m s) = Inl (LightPanic e) \<and> handles (snd (?m s)) = db # handles s)"
  proof (cases r)
    case (Inl e)
    with o h1 show ?thesis by (simp add: ebind_def)
  next
    case (Inr db)
    obtain r2 s2 where b: "body db s1 = (r2, s2)" by (cases "body db s1")
    with body [of db] h1 Inr have h: "handles s2 = db # handles s"
      by (auto simp: keeps_handles_def) (metis snd_conv)
    obtain x w where c: "CloseDB lib db (env s2) = (x, w)" by (cases "CloseDB lib db (env s2)")
    show ?thesis
    proof (cases x)
      case None
      with o Inr b c h show ?thesis by (simp add: ebind_def defer_close_def close_db_def)
    next
      case (Some e)
      then have "fst (CloseDB lib db (env s2)) = Some e" by (simp add: c)
      moreover from o Inr b c h Some have "fst (?m s) = Inl (LightPanic e)" "handles (snd (?m s)) = db # handles s"
        by (simp_all add: ebind_def defer_close_def close_db_def)
      ultimately show ?thesis by blast
    qed
  qed
qed

lemma settles_database_users:
  assumes "retry_ok lib"
  shows "settles lib (UpdateLightClient frac cfg lib height)"
    and "settles lib (GetLightSignedHeaderAtHeight frac cfg lib height)"
    and "settles lib (GetLatestLightHeight frac cfg lib)"
  unfolding UpdateLightClient_def GetLightSignedHeaderAtHeight_def GetLatestLightHeight_def
  by (intro settles_with_database light_err_opens NewLightDB_opens assms keeps)+

section \<open>Properties\<close>

text \<open>
  Every use of the light client's database closes it again: after \<open>UpdateLightClient\<close>,
  \<open>GetLightSignedHeaderAtHeight\<close> and \<open>GetLatestLightHeight\<close> the open handles are those of before,
  whether they return a result, an error or panic, and however many attempts the opening took.
\<close>

theorem light_database_closed:
  assumes "retry_ok lib" and "closes lib"
  shows "handles (snd (UpdateLightClient frac cfg lib height s)) = handles s
    \<and> handles (snd (GetLightSignedHeaderAtHeight frac cfg lib height s)) = handles s
    \<and> handles (snd (GetLatestLightHeight frac cfg lib s)) = handles s"
  using settles_closes [OF settles_database_users(1) [OF assms(1)] assms(2)]
    settles_closes [OF settles_database_users(2) [OF assms(1)] assms(2)]
    settles_closes [OF settles_database_users(3) [OF assms(1)] assms(2)] by blast

text \<open>
  Libraries for examples: the state is the number of attempts and the clock, the database
  opens at the third attempt, and blocks are numbers.
\<close>

definition example_light :: "(nat, nat, nat, nat, nat) light_lib" where
  "example_light =
     \<lparr>NewGoLevelDB = (\<lambda>hs w. if w < 2 then (Inl ''busy'', w) else (Inr w, w)),
      CloseDB = (\<lambda>db w. (None, w)),
      retry_Do = retried Suc,
      NewProvider = (\<lambda>w. None),
      NewClientFromTrustedStore = (\<lambda>period db w. Inr db),
      NewClient = (\<lambda>period height hash db w. if hash = [word_of_int height] then (Inr db, w) else (Inl ''hash'', w)),
      UpdateClient = (\<lambda>c w. (Inr None, w)),
      TrustedLightBlock = (\<lambda>c h w. if h = 0 then Inr 41 else Inl ''height''),
      VerifyLightBlockAtHeight = (\<lambda>c h w. (Inl ''unverified'', w)),
      LastTrustedHeight = (\<lambda>c w. Inr 41),
      ProviderLightBlock = (\<lambda>h w. Inr (nat h)),
      lb_hash = (\<lambda>b. [word_of_nat b]),
      to_tm_header = Inr,
      ChainLatestHeight = (\<lambda>w. Inr (if w < 2 then 0 else 42)),
      ChainTimestamp = (\<lambda>h w. Inr 100),
      Now = (\<lambda>w. 150),
      RemoveAll = (\<lambda>w. (None, w))\<rparr>"

lemma example_light_fields:
  "CloseDB example_light db w = (None, w)" "retry_Do example_light = retried Suc"
  "NewProvider example_light w = None" "NewClientFromTrustedStore example_light i db w = Inr db"
  "NewClient example_light i height hash db w =
     (if hash = [word_of_int height] then (Inr db, w) else (Inl ''hash'', w))"
  "LastTrustedHeight example_light db w = Inr 41" "to_tm_header example_light b = Inr b"
  by (simp_all add: example_light_def)

definition example_light_state :: "(nat, nat) light_state" where
  "example_light_state = \<lparr>env = 0, handles = [], v_db = None, v_height = 0\<rparr>"

definition example_light_config :: ProverConfig where
  "example_light_config = \<lparr>ZkProverAddr = [], CfgStepVerifierDigest = [], CfgSkipVerifierDigest = [],
     ProverType = ''mock'', CfgTrustingPeriod = ''100ns''\<rparr>"

lemma example_light_ok: "retry_ok example_light" "closes example_light"
  by (auto simp: retry_ok_def closes_def example_light_def)

theorem light_database_closed_witness:
  "handles (snd (UpdateLightClient (\<lambda>f k u. 0) example_light_config example_light 0 example_light_state)) = []"
  using light_database_closed [OF example_light_ok, of _ _ 0 example_light_state]
  by (simp add: example_light_state_def)

lemma ebind_InrE:
  assumes "ebind m f s = (Inr x, s')"
  obtains y s1 where "m s = (Inr y, s1)" and "f y s1 = (Inr x, s')"
  using assms by (auto simp: ebind_def split: prod.splits sum.splits)

lemma ebind_InlE:
  assumes "ebind m f s = (Inl e, s')"
  obtains (first) "m s = (Inl e, s')" | (second) y s1 where "m s = (Inr y, s1)" and "f y s1 = (Inl e, s')"
  using assms by (auto simp: ebind_def split: prod.splits sum.splits)

lemma light_err_Inr: "light_err m s = (Inr x, s') \<longleftrightarrow> m s = (Inr x, s')"
  by (auto simp: light_err_def split: prod.splits sum.splits light_error.splits)

lemma light_err_not_plain: "light_err m s \<noteq> (Inl (PlainErr e), s')"
  by (auto simp: light_err_def split: prod.splits sum.splits light_error.splits)

lemma defer_close_Inr: "defer_close lib db m s = (Inr x, s') \<Longrightarrow> \<exists>s1. m s = (Inr x, s1)"
  by (auto simp: defer_close_def split: prod.splits sum.splits)

lemma defer_close_plain: "defer_close lib db m s = (Inl (PlainErr e), s') \<Longrightarrow> \<exists>s1. m s = (Inl (PlainErr e), s1)"
  by (auto simp: defer_close_def close_db_def split: prod.splits sum.splits option.splits)

lemma pure_call_Inr: "pure_call f s = (Inr x, s') \<longleftrightarrow> f (env s) = Inr x \<and> s' = s"
  by (auto simp: pure_call_def split: sum.splits)

lemma pure_call_Inl: "pure_call f s = (Inl e, s') \<longleftrightarrow> (\<exists>m. f (env s) = Inl m \<and> e = PlainErr m) \<and> s' = s"
  by (auto simp: pure_call_def split: sum.splits)

lemma call_Inr: "call f s = (Inr x, s') \<longleftrightarrow> (\<exists>w. f (env s) = (Inr x, w) \<and> s' = s\<lparr>env := w\<rparr>)"
  by (auto simp: call_def split: prod.splits sum.splits)

lemma LightClient_Inr:
  "LightClient frac cfg lib db s = (Inr c, s') \<longleftrightarrow> NewProvider lib (env s) = None
     \<and> NewClientFromTrustedStore lib (getTrustingPeriod frac cfg) db (env s) = Inr c \<and> s' = s"
  by (auto simp: LightClient_def ebind_def LightHTTP_def pure_call_def split: option.splits sum.splits)

text \<open>The block a client gives for a height, from the world \<open>w\<close> on.\<close>

definition block_of :: "('s, 'db, 'c, 'lb, 'h) light_lib \<Rightarrow> 'c \<Rightarrow> int \<Rightarrow> 's \<Rightarrow> 'lb \<Rightarrow> bool" where
  "block_of lib c height w lb \<longleftrightarrow>
     (if height = 0
      then (\<exists>w'. UpdateClient lib c w = (Inr (Some lb), w')
              \<or> UpdateClient lib c w = (Inr None, w') \<and> TrustedLightBlock lib c 0 w' = Inr lb)
      else \<exists>w'. VerifyLightBlockAtHeight lib c height w = (Inr lb, w'))"

lemma updated_block_Inr: "updated_block lib c height s = (Inr lb, s') \<Longrightarrow> block_of lib c height (env s) lb"
  by (auto simp: updated_block_def block_of_def call_Inr pure_call_Inr elim!: ebind_InrE
      split: if_splits option.splits)

lemma UpdateLightClient_Inr:
  "UpdateLightClient frac cfg lib height s = (Inr h, s') \<Longrightarrow>
     \<exists>db s1 c lb. NewLightDB lib s = (Inr db, s1)
        \<and> NewClientFromTrustedStore lib (getTrustingPeriod frac cfg) db (env s1) = Inr c
        \<and> block_of lib c height (env s1) lb \<and> to_tm_header lib lb = Inr h"
  unfolding UpdateLightClient_def
  by (auto elim!: ebind_InrE dest!: defer_close_Inr updated_block_Inr
      simp: light_err_Inr LightClient_Inr pure_call_Inr)

lemma UpdateLightClient_plain:
  "UpdateLightClient frac cfg lib height s = (Inl (PlainErr e), s') \<Longrightarrow> \<exists>lb. to_tm_header lib lb = Inl e"
  unfolding UpdateLightClient_def
  by (auto elim!: ebind_InlE dest!: defer_close_plain simp: light_err_not_plain pure_call_Inl)

text \<open>
  A header that \<open>UpdateLightClient\<close> returns is verified: it is the header of a block that
  CometBFT's light client, opened on the trusted store with the configured trusting period,
  verified at the requested height, or of its latest block when the height is zero (the last
  trusted one if there is no newer). Of the errors, only that of the validator set's
  conversion is returned without the prefix of the light client.
\<close>

theorem UpdateLightClient_verified:
  "(UpdateLightClient frac cfg lib height s = (Inr h, s') \<longrightarrow>
     (\<exists>db s1 c lb. NewLightDB lib s = (Inr db, s1)
        \<and> NewClientFromTrustedStore lib (getTrustingPeriod frac cfg) db (env s1) = Inr c
        \<and> block_of lib c height (env s1) lb \<and> to_tm_header lib lb = Inr h))
   \<and> (UpdateLightClient frac cfg lib height s = (Inl (PlainErr e), s') \<longrightarrow> (\<exists>lb. to_tm_header lib lb = Inl e))"
  using UpdateLightClient_Inr [of frac cfg lib height s h s'] UpdateLightClient_plain [of frac cfg lib height s e s']
  by blast

theorem UpdateLightClient_verified_witness:
  "\<exists>db s1 c lb. NewLightDB example_light example_light_state = (Inr db, s1)
    \<and> block_of example_light c 0 (env s1) lb \<and> to_tm_header example_light lb = Inr 41"
proof -
  let ?f = "\<lambda>f k u. 0"
  have "\<exists>s'. UpdateLightClient ?f example_light_config example_light 0 example_light_state = (Inr 41, s')"
    by (simp add: UpdateLightClient_def ebind_def light_err_def NewLightDB_def example_light_def
        example_light_state_def rtyAttNum_def open_attempt_def eval_nat_numeral defer_close_def
        LightClient_def LightHTTP_def pure_call_def updated_block_def call_def close_db_def)
  then show ?thesis
    using UpdateLightClient_verified [of ?f example_light_config example_light 0 example_light_state 41]
    by blast
qed

text \<open>
  A client made without a root of trust starts from a recent block: when
  \<open>LightClientWithoutTrust\<close> returns a client, the client was made for the height the node
  reported last, which is not zero and whose block is not older than the trusting period, with
  the hash of the provider's block at that height; earlier attempts leave nothing behind.
\<close>

theorem LightClientWithoutTrust_recent:
  assumes "retry_ok lib" and "LightClientWithoutTrust frac cfg lib db s = (Inr c, s')"
  shows "\<exists>w h t lb. ChainLatestHeight lib w = Inr h \<and> h \<noteq> 0 \<and> ChainTimestamp lib h w = Inr t
    \<and> time_since (Now lib w) t \<le> getTrustingPeriod frac cfg
    \<and> ProviderLightBlock lib (sint h) w = Inr lb
    \<and> NewClient lib (getTrustingPeriod frac cfg) (sint h) (lb_hash lib lb) db w = (Inr c, env s')"
proof -
  obtain sleep where r: "retry_Do lib n f x = retried sleep n f x" for n f x
    using assms(1) by (auto simp: retry_ok_def)
  obtain s2 where ok: "retried sleep rtyAttNum (latest_attempt frac cfg lib) (s\<lparr>v_height := 0\<rparr>) = (None, s2)"
    and rest: "ebind (pure_call (ProviderLightBlock lib (v_height s2))) (\<lambda>lb.
         call (NewClient lib (getTrustingPeriod frac cfg) (v_height s2) (lb_hash lib lb) db)) s2 = (Inr c, s')"
    using assms(2) by (auto simp: LightClientWithoutTrust_def LightHTTP_def r Let_def elim!: ebind_InrE
        split: option.splits prod.splits)
  from retried_success [OF ok] obtain s1 where "latest_attempt frac cfg lib s1 = (None, s2)" ..
  then obtain h t where "ChainLatestHeight lib (env s2) = Inr h" "h \<noteq> 0" "ChainTimestamp lib h (env s2) = Inr t"
    "time_since (Now lib (env s2)) t \<le> getTrustingPeriod frac cfg" "v_height s2 = sint h"
    by (auto simp: latest_attempt_def split: sum.splits if_splits)
  with rest show ?thesis
    by (force elim!: ebind_InrE simp: pure_call_Inr call_Inr)
qed

theorem LightClientWithoutTrust_recent_witness:
  "\<exists>t w. ChainTimestamp example_light 42 w = Inr t \<and> time_since (Now example_light w) t \<le> 100
    \<and> ProviderLightBlock example_light (sint (42 :: uint64)) w = Inr 42"
proof -
  let ?f = "\<lambda>f k u. 0"
  have p: "getTrustingPeriod ?f example_light_config = 100"
    by (simp add: getTrustingPeriod_def example_light_config_def ParseDuration_def duration_loop.simps
        duration_step_def Let_def unit_char_def is_digit_def unitMap_def digit_value_def)
  have five: "rtyAttNum = Suc (Suc (Suc (Suc (Suc 0))))"
    by (simp add: rtyAttNum_def)
  have "fst (LightClientWithoutTrust ?f example_light_config example_light 7 example_light_state) = Inr 7"
    by (simp add: LightClientWithoutTrust_def ebind_def LightHTTP_def example_light_state_def
        example_light_def five latest_attempt_def time_since_def p
        pure_call_def call_def Let_def)
  then obtain s' where
    "LightClientWithoutTrust ?f example_light_config example_light 7 example_light_state = (Inr 7, s')"
    by (cases "LightClientWithoutTrust ?f example_light_config example_light 7 example_light_state") simp
  from LightClientWithoutTrust_recent [OF example_light_ok(1) this] obtain w h t lb where
    w: "ChainLatestHeight example_light w = Inr h" "h \<noteq> 0" "ChainTimestamp example_light h w = Inr t"
      "time_since (Now example_light w) t \<le> 100" "ProviderLightBlock example_light (sint h) w = Inr lb"
    by (auto simp: p)
  then have "h = 42" by (auto simp: example_light_def split: if_splits)
  with w show ?thesis by (auto simp: example_light_def)
qed

end
