(* ===== verification/Light_Commands.thy ===== *)
theory Light_Commands
  imports Light_Client ZK_Prover
begin

text \<open>
  The commands on the light client's database, \<open>go/relay/cmd/light.go\<close>: \<open>init\<close>, \<open>update\<close>, \<open>header\<close>
  and \<open>delete\<close>, as effects over the state of \<open>Light_Client\<close>. What cobra gives to a command
  (the arguments, whose number it has checked, and the flags) and the lookup of the chain
  in the relayer's configuration are arguments. \<open>ParseInt\<close> is that of \<open>strconv\<close>.
\<close>

section \<open>Numbers on the command line\<close>

datatype num_error = ErrSyntax | ErrRange

text \<open>\<open>ParseUint(s, 10, 64)\<close> after the check that \<open>s\<close> is not empty; \<open>n\<close> is the number read so far.\<close>

fun parse_digits :: "nat \<Rightarrow> string \<Rightarrow> num_error + nat" where
  "parse_digits n [] = Inr n"
| "parse_digits n (c # cs) =
     (if \<not> is_digit c then Inl ErrSyntax
      else
        let n' = n * 10 + unat (digit_value c) in
        if 2 ^ 64 \<le> n' then Inl ErrRange else parse_digits n' cs)"

definition ParseUint :: "string \<Rightarrow> num_error + nat" where
  "ParseUint s = (if s = [] then Inl ErrSyntax else parse_digits 0 s)"

definition ParseInt :: "string \<Rightarrow> num_error + int" where
  "ParseInt s =
     (if s = [] then Inl ErrSyntax
      else
        let neg = (hd s = CHR ''-'');
            s' = (if hd s = CHR ''+'' \<or> neg then tl s else s) in
        case ParseUint s' of
          Inl e \<Rightarrow> Inl e
        | Inr un \<Rightarrow>
          if \<not> neg \<and> 2 ^ 63 \<le> un then Inl ErrRange
          else if neg \<and> 2 ^ 63 < un then Inl ErrRange
          else Inr (if neg then - int un else int un))"

section \<open>Commands\<close>

text \<open>
  What the configuration holds for a chain: whether its chain and its prover have the types
  the commands assert.
\<close>

record chain_entry =
  is_tendermint :: bool
  is_zk_prover :: bool

type_synonym chains = "string \<Rightarrow> string + chain_entry"

definition give :: "'a \<Rightarrow> ('s, 'db, 'a) effect" where
  "give x s = (Inr x, s)"

definition fail :: "light_error \<Rightarrow> ('s, 'db, 'a) effect" where
  "fail e s = (Inl e, s)"

text \<open>A value or an error the command returns at once: the flags of cobra.\<close>

definition flag :: "string + 'a \<Rightarrow> ('s, 'db, 'a) effect" where
  "flag r = (case r of Inl e \<Rightarrow> fail (PlainErr e) | Inr x \<Rightarrow> give x)"

definition get_prover :: "chains \<Rightarrow> bool \<Rightarrow> string \<Rightarrow> ('s, 'db, unit) effect" where
  "get_prover get_chain assert_chain chainID = ebind (flag (get_chain chainID)) (\<lambda>c.
     if assert_chain \<and> \<not> is_tendermint c then fail (LightPanic ''interface conversion'')
     else if \<not> is_zk_prover c then fail (LightPanic ''interface conversion'')
     else give ())"

record light_flags =
  flag_force :: "string + bool"
  flag_height :: "string + int"
  flag_hash :: "string + bytes"

definition errInitWrongFlags :: string where
  "errInitWrongFlags = ''expected either (--hash/-x & --height) OR --url/-u OR --force/-f, none given''"

definition wrapInitFailed :: "('s, 'db, 'a) effect \<Rightarrow> ('s, 'db, 'a) effect" where
  "wrapInitFailed m s = (case m s of (Inl (PlainErr e), s') \<Rightarrow> (Inl (PlainErr (''init failed: '' @ e)), s') | r \<Rightarrow> r)"

text \<open>The body of \<open>init\<close>, with the database open.\<close>

definition init_body ::
    "fraction \<Rightarrow> ProverConfig \<Rightarrow> ('s, 'db, 'c, 'lb, 'h) light_lib \<Rightarrow> light_flags \<Rightarrow> 'db \<Rightarrow> ('s, 'db, unit) effect" where
  "init_body frac cfg lib fl db =
     ebind (flag (flag_force fl)) (\<lambda>force.
     ebind (flag (flag_height fl)) (\<lambda>height.
     ebind (flag (flag_hash fl)) (\<lambda>hash.
       if force then ebind (LightClientWithoutTrust frac cfg lib db) (\<lambda>_. give ())
       else if 0 < height \<and> 0 < length hash then
         ebind (wrapInitFailed (LightClientWithTrust lib db (TrustOptions frac cfg height hash))) (\<lambda>_. give ())
       else fail (PlainErr errInitWrongFlags))))"

definition initLight ::
    "fraction \<Rightarrow> ProverConfig \<Rightarrow> ('s, 'db, 'c, 'lb, 'h) light_lib \<Rightarrow> chains \<Rightarrow> light_flags \<Rightarrow> string
       \<Rightarrow> ('s, 'db, unit) effect" where
  "initLight frac cfg lib get_chain fl chainID =
     ebind (get_prover get_chain True chainID) (\<lambda>_.
     ebind (NewLightDB lib) (\<lambda>db. defer_close lib db (init_body frac cfg lib fl db)))"

text \<open>\<open>update\<close> prints the two headers' heights.\<close>

definition updateLight ::
    "fraction \<Rightarrow> ProverConfig \<Rightarrow> ('s, 'db, 'c, 'lb, 'h) light_lib \<Rightarrow> chains \<Rightarrow> string \<Rightarrow> ('s, 'db, 'h \<times> 'h) effect" where
  "updateLight frac cfg lib get_chain chainID =
     ebind (get_prover get_chain False chainID) (\<lambda>_.
     ebind (GetLatestLightHeader frac cfg lib) (\<lambda>bh.
     ebind (UpdateLightClient frac cfg lib 0) (\<lambda>ah. give (bh, ah))))"

definition ErrLightNotInitialized :: string where
  "ErrLightNotInitialized = ''light client is not initialized''"

text \<open>The height of \<open>header\<close>: zero asks for the last trusted one, for which \<open>-1\<close> means that there is none.\<close>

definition header_height ::
    "fraction \<Rightarrow> ProverConfig \<Rightarrow> ('s, 'db, 'c, 'lb, 'h) light_lib \<Rightarrow> string \<Rightarrow> ('s, 'db, int) effect" where
  "header_height frac cfg lib arg = (case ParseInt arg of
     Inl e \<Rightarrow> fail (PlainErr ''strconv.ParseInt'')
   | Inr height \<Rightarrow>
     if height = 0 then
       ebind (GetLatestLightHeight frac cfg lib) (\<lambda>height.
         if height = - 1 then fail (PlainErr ErrLightNotInitialized) else give height)
     else give height)"

text \<open>\<open>header\<close>: \<open>json\<close> is the codec's \<open>MarshalJSON\<close>; the second argument is optional.\<close>

definition lightHeader ::
    "fraction \<Rightarrow> ProverConfig \<Rightarrow> ('s, 'db, 'c, 'lb, 'h) light_lib \<Rightarrow> chains \<Rightarrow> ('h \<Rightarrow> string + string)
       \<Rightarrow> string \<Rightarrow> string option \<Rightarrow> ('s, 'db, string) effect" where
  "lightHeader frac cfg lib get_chain json chainID arg =
     ebind (get_prover get_chain True chainID) (\<lambda>_.
     ebind (case arg of
         None \<Rightarrow> GetLatestLightHeader frac cfg lib
       | Some a \<Rightarrow> ebind (header_height frac cfg lib a) (\<lambda>height. GetLightSignedHeaderAtHeight frac cfg lib height))
       (\<lambda>header. flag (json header)))"

definition deleteLight :: "('s, 'db, 'c, 'lb, 'h) light_lib \<Rightarrow> chains \<Rightarrow> string \<Rightarrow> ('s, 'db, unit) effect" where
  "deleteLight lib get_chain chainID =
     ebind (get_prover get_chain False chainID) (\<lambda>_. ebind (DeleteLightDB lib) (\<lambda>_. give ()))"

section \<open>Facts\<close>

text \<open>\<open>ParseInt\<close> reads what the verb \<open>%d\<close> prints.\<close>

lemma parse_digits_snoc:
  "parse_digits n (cs @ [c]) = rbind (parse_digits n cs) (\<lambda>k. parse_digits k [c])"
  by (induction n cs rule: parse_digits.induct) (auto simp: Let_def)

lemma digit_of: "d < 10 \<Longrightarrow> is_digit (char_of (48 + d)) \<and> unat (digit_value (char_of (48 + d))) = d"
  by (simp add: is_digit_def digit_value_def unat_of_nat_64)

lemma parse_digits_decimal: "n < 2 ^ 64 \<Longrightarrow> parse_digits 0 (decimal n) = Inr n"
proof (induction n rule: decimal.induct)
  case (1 n)
  show ?case
  proof (cases "n < 10")
    case True
    then show ?thesis using digit_of [of n] by (simp add: decimal.simps [of n])
  next
    case False
    moreover from 1 False have "parse_digits 0 (decimal (n div 10)) = Inr (n div 10)" by simp
    moreover have "n div 10 * 10 + n mod 10 = n" by simp
    ultimately show ?thesis
      using digit_of [of "n mod 10"] "1.prems" by (simp add: decimal.simps [of n] parse_digits_snoc Let_def)
  qed
qed

lemma decimal_not_sign: "decimal n \<noteq> [] \<and> is_digit (hd (decimal n))"
proof (induction n rule: decimal.induct)
  case (1 n)
  then show ?case
    using digit_of [of n] by (auto simp: decimal.simps [of n])
qed

lemma ParseInt_decimal: "n < 2 ^ 63 \<Longrightarrow> ParseInt (decimal n) = Inr (int n)"
proof -
  assume n: "n < 2 ^ 63"
  have "hd (decimal n) \<noteq> CHR ''-''" and "hd (decimal n) \<noteq> CHR ''+''"
    using decimal_not_sign [of n] by (auto simp: is_digit_def)
  then show ?thesis
    using n parse_digits_decimal [of n] decimal_not_sign [of n]
    by (simp add: ParseInt_def ParseUint_def Let_def)
qed

text \<open>No command changes which databases are open.\<close>

lemma keeps_give [keeps]: "keeps_handles (give x)"
  by (simp add: keeps_handles_def give_def)

lemma keeps_fail [keeps]: "keeps_handles (fail e)"
  by (simp add: keeps_handles_def fail_def)

lemma keeps_flag [keeps]: "keeps_handles (flag r)"
  by (cases r) (simp_all add: flag_def keeps)

lemma keeps_if [keeps]: "keeps_handles m \<Longrightarrow> keeps_handles m' \<Longrightarrow> keeps_handles (if b then m else m')"
  by simp

lemma keeps_get_prover [keeps]: "keeps_handles (get_prover get_chain b chainID)"
  unfolding get_prover_def by (intro keeps)

lemma keeps_wrapInitFailed [keeps]: "keeps_handles m \<Longrightarrow> keeps_handles (wrapInitFailed m)"
  unfolding keeps_handles_def wrapInitFailed_def
  by (auto split: prod.splits sum.splits light_error.splits) (metis snd_conv)+

lemma keeps_LightClientWithTrust [keeps]: "keeps_handles (LightClientWithTrust lib db to)"
  unfolding LightClientWithTrust_def by (intro keeps)

lemma retried_handles:
  assumes "\<And>s. handles (snd (f s)) = handles s"
  shows "handles (snd (retried sleep n f s)) = handles s"
proof (induction n arbitrary: s)
  case (Suc n)
  obtain r s1 where f: "f s = (r, s1)" by fastforce
  with assms [of s] have "handles s1 = handles s" by simp
  with f Suc show ?case by (auto split: option.splits)
qed simp

lemma latest_attempt_handles: "handles (snd (latest_attempt frac cfg lib s)) = handles s"
  by (simp add: latest_attempt_def split: sum.splits)

lemma keeps_LightClientWithoutTrust:
  assumes "retry_ok lib"
  shows "keeps_handles (LightClientWithoutTrust frac cfg lib db)"
proof -
  obtain sleep where r: "retry_Do lib n f x = retried sleep n f x" for n f x
    using assms by (auto simp: retry_ok_def)
  have "keeps_handles (\<lambda>s. case retry_Do lib rtyAttNum (latest_attempt frac cfg lib) (s\<lparr>v_height := 0\<rparr>) of
       (Some e, s') \<Rightarrow> (Inl (PlainErr e), s')
     | (None, s') \<Rightarrow>
       let height = v_height s' in
       ebind (pure_call (ProviderLightBlock lib height)) (\<lambda>lb.
         call (NewClient lib (getTrustingPeriod frac cfg) height (lb_hash lib lb) db)) s')"
    unfolding keeps_handles_def
  proof
    fix s
    obtain e s1 where s1: "retried sleep rtyAttNum (latest_attempt frac cfg lib) (s\<lparr>v_height := 0\<rparr>) = (e, s1)"
      by fastforce
    have h: "handles s1 = handles s"
      using retried_handles [of "latest_attempt frac cfg lib" sleep rtyAttNum "s\<lparr>v_height := 0\<rparr>"]
      by (simp add: latest_attempt_handles s1)
    have k: "keeps_handles (ebind (pure_call (ProviderLightBlock lib height)) (\<lambda>lb.
         call (NewClient lib (getTrustingPeriod frac cfg) height (lb_hash lib lb) db)))" for height
      by (intro keeps)
    show "handles (snd (case retry_Do lib rtyAttNum (latest_attempt frac cfg lib) (s\<lparr>v_height := 0\<rparr>) of
       (Some e, s') \<Rightarrow> (Inl (PlainErr e), s')
     | (None, s') \<Rightarrow>
       let height = v_height s' in
       ebind (pure_call (ProviderLightBlock lib height)) (\<lambda>lb.
         call (NewClient lib (getTrustingPeriod frac cfg) height (lb_hash lib lb) db)) s')) = handles s"
      by (cases e) (simp_all add: r s1 h Let_def k [unfolded keeps_handles_def, rule_format])
  qed
  then show ?thesis
    unfolding LightClientWithoutTrust_def by (intro keeps_ebind keeps_LightHTTP)
qed

lemma settles_initLight:
  assumes "retry_ok lib"
  shows "settles lib (initLight frac cfg lib get_chain fl chainID)"
  unfolding initLight_def init_body_def
  by (intro settles_ebind settles_keeps keeps_get_prover settles_with_database assms NewLightDB_opens keeps
      keeps_LightClientWithoutTrust)

lemma settles_commands:
  assumes "retry_ok lib"
  shows "settles lib (updateLight frac cfg lib get_chain chainID)"
    and "settles lib (lightHeader frac cfg lib get_chain json chainID arg)"
proof -
  note k = settles_database_users [OF assms]
  show "settles lib (updateLight frac cfg lib get_chain chainID)"
    unfolding updateLight_def GetLatestLightHeader_def
    by (intro settles_ebind k settles_keeps keeps_get_prover keeps_give)
  have "settles lib (header_height frac cfg lib a)" for a
    unfolding header_height_def
    by (auto split: sum.splits intro!: settles_ebind k settles_keeps [OF keeps_give] settles_keeps [OF keeps_fail])
  then show "settles lib (lightHeader frac cfg lib get_chain json chainID arg)"
    unfolding lightHeader_def GetLatestLightHeader_def
    by (cases arg) (auto intro!: settles_ebind k settles_keeps [OF keeps_get_prover] settles_keeps [OF keeps_flag])
qed

lemma keeps_deleteLight: "keeps_handles (deleteLight lib get_chain chainID)"
  unfolding deleteLight_def DeleteLightDB_def by (intro keeps)

lemma get_prover_Inr:
  "get_prover get_chain b chainID s = (Inr u, s') \<longleftrightarrow>
     s' = s \<and> (\<exists>c. get_chain chainID = Inr c \<and> (b \<longrightarrow> is_tendermint c) \<and> is_zk_prover c)"
  by (cases "get_chain chainID") (auto simp: get_prover_def ebind_def flag_def give_def fail_def)

lemma flag_Inr: "flag r s = (Inr x, s') \<longleftrightarrow> r = Inr x \<and> s' = s"
  by (cases r) (auto simp: flag_def give_def fail_def)

lemma give_fail_Inr: "give x s = (Inr y, s') \<longleftrightarrow> y = x \<and> s' = s" "fail e s \<noteq> (Inr y, s')"
  by (auto simp: give_def fail_def)

lemma wrapInitFailed_Inr: "wrapInitFailed m s = (Inr x, s') \<longleftrightarrow> m s = (Inr x, s')"
  by (auto simp: wrapInitFailed_def split: prod.splits sum.splits light_error.splits)

lemma LightHTTP_Inr: "LightHTTP lib s = (Inr u, s') \<longleftrightarrow> NewProvider lib (env s) = None \<and> s' = s"
  by (auto simp: LightHTTP_def split: option.splits)

lemma defer_close_closed:
  "defer_close lib db m s = (Inr x, s') \<Longrightarrow> \<exists>s2. m s = (Inr x, s2) \<and> CloseDB lib db (env s2) = (None, env s')"
  by (auto simp: defer_close_def close_db_def split: prod.splits sum.splits option.splits)

text \<open>What \<open>init\<close> did when its body returned: the flags it read and the client CometBFT made.\<close>

lemma init_body_Inr:
  assumes "retry_ok lib" and "init_body frac cfg lib fl db s1 = (Inr (), s2)"
  shows "flag_force fl = Inr True \<and> (\<exists>w h t lb c. ChainLatestHeight lib w = Inr h \<and> h \<noteq> 0 \<and> ChainTimestamp lib h w = Inr t
        \<and> time_since (Now lib w) t \<le> getTrustingPeriod frac cfg \<and> ProviderLightBlock lib (sint h) w = Inr lb
        \<and> NewClient lib (getTrustingPeriod frac cfg) (sint h) (lb_hash lib lb) db w = (Inr c, env s2))
    \<or> flag_force fl = Inr False \<and> (\<exists>height hash c. flag_height fl = Inr height \<and> 0 < height
        \<and> flag_hash fl = Inr hash \<and> hash \<noteq> []
        \<and> NewClient lib (getTrustingPeriod frac cfg) height hash db (env s1) = (Inr c, env s2))"
proof -
  from assms(2) obtain force height hash where
    f: "flag_force fl = Inr force" "flag_height fl = Inr height" "flag_hash fl = Inr hash"
    and body: "(if force then ebind (LightClientWithoutTrust frac cfg lib db) (\<lambda>_. give ())
       else if 0 < height \<and> 0 < length hash then
         ebind (wrapInitFailed (LightClientWithTrust lib db (TrustOptions frac cfg height hash))) (\<lambda>_. give ())
       else fail (PlainErr errInitWrongFlags)) s1 = (Inr (), s2)"
    by (auto simp: init_body_def flag_Inr elim!: ebind_InrE)
  show ?thesis
  proof (cases force)
    case True
    with body obtain c where "LightClientWithoutTrust frac cfg lib db s1 = (Inr c, s2)"
      by (auto simp: give_def elim!: ebind_InrE)
    from LightClientWithoutTrust_recent [OF assms(1) this] f True show ?thesis by metis
  next
    case False
    then have "0 < height \<and> hash \<noteq> []
        \<and> (\<exists>c. NewClient lib (getTrustingPeriod frac cfg) height hash db (env s1) = (Inr c, env s2))"
      using body by (auto simp: give_fail_Inr wrapInitFailed_Inr LightClientWithTrust_def LightHTTP_Inr
          call_Inr TrustOptions_def elim!: ebind_InrE split: if_splits)
    with f False show ?thesis by auto
  qed
qed

section \<open>Properties\<close>

text \<open>
  C29: No command leaks the database: after \<open>init\<close>, \<open>update\<close>, \<open>header\<close> and \<open>delete\<close>, whatever their
  flags and arguments and whether they succeed, fail or panic, the open handles are those of before, as long as closing does
  not fail. When it does, the command ends at once with the panic of the closing, and only the handle that could not be
  closed is left; \<open>delete\<close> opens none.
\<close>

theorem commands_close_database:
  assumes "retry_ok lib"
  shows "(closes lib \<longrightarrow> handles (snd (initLight frac cfg lib get_chain fl chainID s)) = handles s
      \<and> handles (snd (updateLight frac cfg lib get_chain chainID s)) = handles s
      \<and> handles (snd (lightHeader frac cfg lib get_chain json chainID arg s)) = handles s
      \<and> handles (snd (deleteLight lib get_chain chainID s)) = handles s)
    \<and> settles lib (initLight frac cfg lib get_chain fl chainID)
    \<and> settles lib (updateLight frac cfg lib get_chain chainID)
    \<and> settles lib (lightHeader frac cfg lib get_chain json chainID arg)
    \<and> handles (snd (deleteLight lib get_chain chainID s)) = handles s"
proof -
  note s = settles_initLight [OF assms] settles_commands [OF assms]
  show ?thesis
    by (simp add: s settles_closes [OF s(1)] settles_closes [OF s(2)] settles_closes [OF s(3)]
        keeps_deleteLight [unfolded keeps_handles_def])
qed

definition example_chains :: chains where
  "example_chains chainID =
     (if chainID = ''ibc0'' then Inr \<lparr>is_tendermint = True, is_zk_prover = True\<rparr> else Inl ''no such chain'')"

definition example_flags :: light_flags where
  "example_flags = \<lparr>flag_force = Inr False, flag_height = Inr 42, flag_hash = Inr [42]\<rparr>"

theorem commands_close_database_witness:
  "handles (snd (initLight (\<lambda>f k u. 0) example_light_config example_light example_chains example_flags ''ibc0''
     example_light_state)) = []"
  using commands_close_database [OF example_light_ok(1), of "\<lambda>f k u. 0" example_light_config example_chains example_flags "''ibc0''"
      example_light_state] example_light_ok(2)
  by (simp add: example_light_state_def)

text \<open>
  C28: The root of trust of \<open>init\<close>: it succeeds in two ways only. With \<open>--force\<close>, CometBFT made a client for the latest height the node
  reports, which is not zero and whose block is, at that moment (the world \<open>w\<close>), not older than the configured trusting period, with the hash
  of the provider's block at that height. Without it, a positive height and a hash that is not empty were given and CometBFT made a
  client of exactly them, with the configured trusting period. Either way this is the last thing done before the database is closed.
  Without any of the two it opens the database, closes it and returns the error that asks for them.
\<close>

theorem init_trust_root:
  assumes "retry_ok lib"
  shows "(initLight frac cfg lib get_chain fl chainID s = (Inr (), s') \<longrightarrow>
      (\<exists>db s1 w'. NewLightDB lib s = (Inr db, s1) \<and> CloseDB lib db w' = (None, env s')
        \<and> (flag_force fl = Inr True \<and> (\<exists>w h t lb c. ChainLatestHeight lib w = Inr h \<and> h \<noteq> 0 \<and> ChainTimestamp lib h w = Inr t
              \<and> time_since (Now lib w) t \<le> getTrustingPeriod frac cfg \<and> ProviderLightBlock lib (sint h) w = Inr lb
              \<and> NewClient lib (getTrustingPeriod frac cfg) (sint h) (lb_hash lib lb) db w = (Inr c, w'))
           \<or> flag_force fl = Inr False \<and> (\<exists>height hash c. flag_height fl = Inr height \<and> 0 < height
              \<and> flag_hash fl = Inr hash \<and> hash \<noteq> []
              \<and> NewClient lib (getTrustingPeriod frac cfg) height hash db (env s1) = (Inr c, w')))))
    \<and> (get_chain chainID = Inr \<lparr>is_tendermint = True, is_zk_prover = True\<rparr> \<and> NewLightDB lib s = (Inr db, s1)
        \<and> flag_force fl = Inr False \<and> flag_height fl = Inr height \<and> flag_hash fl = Inr hash
        \<and> (height \<le> 0 \<or> hash = []) \<and> fst (CloseDB lib db (env s1)) = None
       \<longrightarrow> fst (initLight frac cfg lib get_chain fl chainID s) = Inl (PlainErr errInitWrongFlags))"
proof (intro conjI impI)
  assume "initLight frac cfg lib get_chain fl chainID s = (Inr (), s')"
  then obtain db s1 where db: "NewLightDB lib s = (Inr db, s1)"
    and d: "defer_close lib db (init_body frac cfg lib fl db) s1 = (Inr (), s')"
    by (auto simp: initLight_def get_prover_Inr elim!: ebind_InrE)
  from defer_close_closed [OF d] obtain s2 where
    "init_body frac cfg lib fl db s1 = (Inr (), s2)" "CloseDB lib db (env s2) = (None, env s')" by blast
  from init_body_Inr [OF assms this(1)] this(2) db show "\<exists>db s1 w'. NewLightDB lib s = (Inr db, s1) \<and> CloseDB lib db w' = (None, env s')
        \<and> (flag_force fl = Inr True \<and> (\<exists>w h t lb c. ChainLatestHeight lib w = Inr h \<and> h \<noteq> 0 \<and> ChainTimestamp lib h w = Inr t
              \<and> time_since (Now lib w) t \<le> getTrustingPeriod frac cfg \<and> ProviderLightBlock lib (sint h) w = Inr lb
              \<and> NewClient lib (getTrustingPeriod frac cfg) (sint h) (lb_hash lib lb) db w = (Inr c, w'))
           \<or> flag_force fl = Inr False \<and> (\<exists>height hash c. flag_height fl = Inr height \<and> 0 < height
              \<and> flag_hash fl = Inr hash \<and> hash \<noteq> []
              \<and> NewClient lib (getTrustingPeriod frac cfg) height hash db (env s1) = (Inr c, w')))"
    by blast
next
  assume a: "get_chain chainID = Inr \<lparr>is_tendermint = True, is_zk_prover = True\<rparr> \<and> NewLightDB lib s = (Inr db, s1)
        \<and> flag_force fl = Inr False \<and> flag_height fl = Inr height \<and> flag_hash fl = Inr hash
        \<and> (height \<le> 0 \<or> hash = []) \<and> fst (CloseDB lib db (env s1)) = None"
  then have "init_body frac cfg lib fl db s1 = (Inl (PlainErr errInitWrongFlags), s1)"
    by (auto simp: init_body_def ebind_def flag_def give_def fail_def)
  with a have "fst (defer_close lib db (init_body frac cfg lib fl db) s1) = Inl (PlainErr errInitWrongFlags)"
    by (cases "CloseDB lib db (env s1)") (simp add: defer_close_def close_db_def)
  then show "fst (initLight frac cfg lib get_chain fl chainID s) = Inl (PlainErr errInitWrongFlags)"
    using a by (simp add: initLight_def ebind_def get_prover_def flag_def give_def)
qed

text \<open>Both ways into a client, on the library whose node reports height 42.\<close>

theorem init_trust_root_witness:
  "(\<exists>db c w. NewClient example_light 100 42 [42] db 2 = (Inr c, w))
    \<and> (\<exists>w h t. ChainLatestHeight example_light w = Inr h \<and> h \<noteq> 0 \<and> ChainTimestamp example_light h w = Inr t
        \<and> time_since (Now example_light w) t \<le> 100)"
proof -
  let ?f = "\<lambda>f k u. 0" and ?forced = "example_flags\<lparr>flag_force := Inr True\<rparr>"
  have p: "getTrustingPeriod ?f example_light_config = 100"
    by (simp add: getTrustingPeriod_def example_light_config_def ParseDuration_def duration_loop.simps
        duration_step_def Let_def unit_char_def is_digit_def unitMap_def digit_value_def)
  have five: "rtyAttNum = Suc (Suc (Suc (Suc (Suc 0))))" by (simp add: rtyAttNum_def)
  have db: "NewLightDB example_light example_light_state =
      (Inr 2, \<lparr>env = 2, handles = [2], v_db = Some 2, v_height = 0\<rparr>)"
    by (simp add: NewLightDB_def five open_attempt_def example_light_def example_light_state_def)
  note run = initLight_def ebind_def get_prover_def flag_def give_def example_chains_def db init_body_def
    example_flags_def call_def p defer_close_def close_db_def LightHTTP_def
  have "\<exists>s'. initLight ?f example_light_config example_light example_chains example_flags ''ibc0'' example_light_state
      = (Inr (), s')"
    by (simp add: run wrapInitFailed_def LightClientWithTrust_def TrustOptions_def example_light_fields)
  then obtain s' where "initLight ?f example_light_config example_light example_chains example_flags ''ibc0''
      example_light_state = (Inr (), s')" ..
  with init_trust_root [OF example_light_ok(1), of ?f example_light_config example_chains example_flags "''ibc0''"
      example_light_state s', THEN conjunct1] have "\<exists>db c w. NewClient example_light 100 42 [42] db 2 = (Inr c, w)"
    by (auto simp: db p example_flags_def)
  moreover have attempt: "latest_attempt ?f example_light_config example_light st = (None, st\<lparr>v_height := 42\<rparr>)"
    if "env st = 2" for st
    using that by (simp add: latest_attempt_def p time_since_def example_light_def)
  have "LightClientWithoutTrust ?f example_light_config example_light 2 \<lparr>env = 2, handles = [2], v_db = Some 2, v_height = 0\<rparr>
      = (Inr 2, \<lparr>env = 2, handles = [2], v_db = Some 2, v_height = 42\<rparr>)"
    by (simp add: LightClientWithoutTrust_def LightHTTP_def ebind_def example_light_fields five attempt pure_call_def call_def Let_def)
      (simp add: example_light_def call_def)
  then have "fst (initLight ?f example_light_config example_light example_chains ?forced ''ibc0'' example_light_state) = Inr ()"
    by (simp add: run example_light_fields)
  then obtain s2 where "initLight ?f example_light_config example_light example_chains ?forced ''ibc0''
      example_light_state = (Inr (), s2)"
    by (cases "initLight ?f example_light_config example_light example_chains ?forced ''ibc0'' example_light_state") simp
  with init_trust_root [OF example_light_ok(1), of ?f example_light_config example_chains ?forced "''ibc0''"
      example_light_state s2, THEN conjunct1] have "\<exists>w h t. ChainLatestHeight example_light w = Inr h \<and> h \<noteq> 0
        \<and> ChainTimestamp example_light h w = Inr t \<and> time_since (Now example_light w) t \<le> 100"
    unfolding p by fastforce
  ultimately show ?thesis ..
qed

text \<open>
  The header \<open>header\<close> shows is a trusted one: with a height in decimal, it is the JSON form of the
  header at that height in the trusted store, or for \<open>0\<close> at the last trusted height, which is
  not \<open>-1\<close>: a store without a header gives the error that the client is not initialized.
\<close>

theorem lightHeader_trusted:
  assumes "n < 2 ^ 63" and "lightHeader frac cfg lib get_chain json chainID (Some (decimal n)) s = (Inr out, s')"
  shows "\<exists>height s1 header s2. GetLightSignedHeaderAtHeight frac cfg lib height s1 = (Inr header, s2)
    \<and> json header = Inr out
    \<and> (if n = 0 then height \<noteq> - 1 \<and> GetLatestLightHeight frac cfg lib s = (Inr height, s1)
       else height = int n \<and> s1 = s)"
  using assms(2) ParseInt_decimal [OF assms(1)]
  by (auto simp: lightHeader_def header_height_def get_prover_Inr flag_Inr give_fail_Inr
      elim!: ebind_InrE split: if_splits)

theorem lightHeader_trusted_witness:
  "\<exists>height s1 header s2. GetLightSignedHeaderAtHeight (\<lambda>f k u. 0) example_light_config
     (example_light\<lparr>TrustedLightBlock := \<lambda>c h w. Inr (nat h)\<rparr>) height s1 = (Inr header, s2) \<and> header = 41"
proof -
  let ?f = "\<lambda>f k u. 0" and ?lib = "example_light\<lparr>TrustedLightBlock := \<lambda>c h w. Inr (nat h)\<rparr>"
  let ?json = "\<lambda>h :: nat. if h = 41 then Inr ''41'' else Inl ''json''"
  have five: "rtyAttNum = Suc (Suc (Suc (Suc (Suc 0))))" by (simp add: rtyAttNum_def)
  have db: "NewLightDB ?lib \<lparr>env = w, handles = hs, v_db = d, v_height = v\<rparr> =
      (Inr (max 2 w), \<lparr>env = max 2 w, handles = max 2 w # hs, v_db = Some (max 2 w), v_height = v\<rparr>)"
    if "w = 0 \<or> 2 \<le> w" for w hs d v
    using that by (auto simp: NewLightDB_def five open_attempt_def example_light_def max_def)
  have c: "close_db ?lib db s = (Inr (), s\<lparr>handles := remove1 db (handles s)\<rparr>)" for db s
    by (simp add: close_db_def example_light_fields)
  have client: "LightClient ?f example_light_config ?lib db s = (Inr db, s)" for db s
    by (simp add: LightClient_Inr example_light_fields)
  let ?s = "\<lparr>env = 2, handles = [], v_db = Some 2, v_height = 0\<rparr>"
  have "GetLatestLightHeight ?f example_light_config ?lib example_light_state = (Inr 41, ?s)"
    by (simp add: GetLatestLightHeight_def ebind_def example_light_state_def db c client defer_close_def
        pure_call_def example_light_fields)
  moreover have "GetLightSignedHeaderAtHeight ?f example_light_config ?lib 41 ?s = (Inr 41, ?s)"
    by (simp add: GetLightSignedHeaderAtHeight_def ebind_def db c client defer_close_def pure_call_def
        example_light_fields)
  ultimately have "\<exists>s'. lightHeader ?f example_light_config ?lib example_chains ?json ''ibc0'' (Some (decimal 0))
      example_light_state = (Inr ''41'', s')"
    using ParseInt_decimal [of 0]
    by (simp add: lightHeader_def header_height_def ebind_def get_prover_def flag_def give_def example_chains_def)
  then obtain s' where "lightHeader ?f example_light_config ?lib example_chains ?json ''ibc0'' (Some (decimal 0))
      example_light_state = (Inr ''41'', s')" ..
  from lightHeader_trusted [OF _ this] show ?thesis
    by (auto split: if_splits)
qed

end
