(* ===== verification/Client_Interfaces.thy ===== *)
theory Client_Interfaces
  imports Client_Messages ZK_Prover
begin

text \<open>
  The methods by which ibc-go and the relayer see the messages, \<open>go/relay/lightclient.go\<close>, and the
  JSON form of an update message, \<open>go/relay/types.go\<close>. The light client runs on the other
  chain, so most of the interface of ibc-go is not implemented and panics.
\<close>

section \<open>Interfaces of ibc-go\<close>

definition TENDERMINT_ZK_CLIENT_TYPE :: string where "TENDERMINT_ZK_CLIENT_TYPE = ''tendermint-zk''"

definition REVISION_NUMBER :: uint64 where "REVISION_NUMBER = 0"

definition ClientState_ClientType :: "ClientState \<Rightarrow> string" where
  "ClientState_ClientType cs = TENDERMINT_ZK_CLIENT_TYPE"

definition ClientState_GetLatestHeight :: "ClientState \<Rightarrow> Height" where
  "ClientState_GetLatestHeight cs = LatestHeight cs"

definition ClientState_Validate :: "ClientState \<Rightarrow> string option" where
  "ClientState_Validate cs = None"

datatype client_method =
    ClientStatus | ExportMetadata | ZeroCustomFields | GetTimestampAtHeight | Initialize
  | VerifyClientMembership | VerifyNonMembership | VerifyClientMessage | CheckForMisbehaviour
  | UpdateStateOnMisbehaviour | UpdateState | CheckSubstituteAndUpdateState | VerifyUpgradeAndUpdateState

text \<open>The other methods of a client state: each one panics.\<close>

definition client_method_panic :: "client_method \<Rightarrow> string" where
  "client_method_panic m = ''not implemented''"

definition ConsensusState_ClientType :: "ConsensusState \<Rightarrow> string" where
  "ConsensusState_ClientType cs = TENDERMINT_ZK_CLIENT_TYPE"

definition ConsensusState_GetTimestamp :: "ConsensusState \<Rightarrow> uint64" where
  "ConsensusState_GetTimestamp cs = Timestamp cs"

definition ConsensusState_ValidateBasic :: "ConsensusState \<Rightarrow> string option" where
  "ConsensusState_ValidateBasic cs = None"

definition UpdateStateMessage_ClientType :: "UpdateStateMessage \<Rightarrow> string" where
  "UpdateStateMessage_ClientType m = TENDERMINT_ZK_CLIENT_TYPE"

definition UpdateStateMessage_ValidateBasic :: "UpdateStateMessage \<Rightarrow> string option" where
  "UpdateStateMessage_ValidateBasic m = None"

definition UpdateStateMessage_GetHeight :: "UpdateStateMessage \<Rightarrow> Height" where
  "UpdateStateMessage_GetHeight m = \<lparr>RevisionNumber = REVISION_NUMBER, RevisionHeight = UntrustedHeight m\<rparr>"

section \<open>JSON\<close>

definition encodeHexString :: "bytes \<Rightarrow> string" where
  "encodeHexString bz = ''0x'' @ hex_EncodeToString bz"

text \<open>The loop fills \<open>res\<close>, which has an element for each byte string.\<close>

fun hex_slice_loop :: "nat \<Rightarrow> bytes list \<Rightarrow> string list \<Rightarrow> string list" where
  "hex_slice_loop i [] res = res"
| "hex_slice_loop i (bz # bzs) res = hex_slice_loop (i + 1) bzs (res[i := encodeHexString bz])"

definition bytesSliceToHexSlice :: "bytes list \<Rightarrow> string list" where
  "bytesSliceToHexSlice bzs = hex_slice_loop 0 bzs (replicate (length bzs) [])"

definition UpdateStateMessage_MarshalJSON :: "UpdateStateMessage \<Rightarrow> string" where
  "UpdateStateMessage_MarshalJSON msg = json_object
     [(''TrustedHeight'', decimal (unat (TrustedHeight msg))),
      (''UntrustedHeight'', decimal (unat (UntrustedHeight msg))),
      (''UntrustedBlockHash'', json_string (encodeHexString (UntrustedBlockHash msg))),
      (''Timestamp'', decimal (unat (MsgTimestamp msg))),
      (''AppHash'', json_string (encodeHexString (MsgAppHash msg))),
      (''SimpleTreeProof'', json_array (map json_string (bytesSliceToHexSlice (SimpleTreeProof msg)))),
      (''Input'', json_array (map json_string (bytesSliceToHexSlice (Input msg)))),
      (''ZkProof'', json_string (encodeHexString (ZkProof msg)))]"

section \<open>Facts\<close>

lemma hex_slice_loop_eq:
  "hex_slice_loop (length filled) bzs (filled @ replicate (length bzs) []) = filled @ map encodeHexString bzs"
proof (induction bzs arbitrary: filled)
  case (Cons bz bzs)
  from Cons [of "filled @ [encodeHexString bz]"] show ?case by simp
qed simp

lemma bytesSliceToHexSlice_map: "bytesSliceToHexSlice bzs = map encodeHexString bzs"
  using hex_slice_loop_eq [of "[]" bzs] by (simp add: bytesSliceToHexSlice_def)

text \<open>The characters of numbers and of hexadecimal strings do not end a JSON value.\<close>

definition word_char :: "char \<Rightarrow> bool" where
  "word_char c \<longleftrightarrow> c \<notin> {CHR '','', CHR 0x22, CHR '']''}"

lemma hex_word_chars: "c \<in> set (hex_EncodeToString bs) \<Longrightarrow> word_char c"
proof (induction bs)
  case (Cons b bs)
  have "list_all (\<lambda>n. word_char (hex_char n)) [0..<16]"
    by (simp add: upt_rec hex_char_def word_char_def)
  then have "word_char (hex_char n)" if "n < 16" for n
    using that by (simp add: list_all_iff)
  with Cons show ?case by (auto simp: nibble_bounds)
qed simp

lemma encodeHexString_chars: "c \<in> set (encodeHexString bs) \<Longrightarrow> word_char c"
  using hex_word_chars by (auto simp: encodeHexString_def word_char_def)

lemma encodeHexString_inj: "encodeHexString a = encodeHexString b \<longleftrightarrow> a = b"
  unfolding encodeHexString_def by (metis hex_decode_encode same_append_eq sum.inject(2))

lemma decimal_chars: "c \<in> set (decimal n) \<Longrightarrow> word_char c"
proof (induction n rule: decimal.induct)
  case (1 n)
  have "word_char (char_of (48 + d))" if "d < 10" for d :: nat
  proof -
    have "(of_char (char_of (48 + d) :: char) :: nat) = 48 + d" using that by simp
    then have "(char_of (48 + d) :: char) \<noteq> x" if "(of_char x :: nat) \<noteq> 48 + d" for x
      using that by metis
    then show ?thesis using that by (auto simp: word_char_def)
  qed
  with 1 show ?case by (cases "n < 10") (auto simp: decimal.simps [of n])
qed

lemma decimal_value: "foldl (\<lambda>a c. a * 10 + (of_char c - 48)) 0 (decimal n) = n"
proof (induction n rule: decimal.induct)
  case (1 n)
  then show ?case by (cases "n < 10") (simp_all add: decimal.simps [of n])
qed

lemma decimal_inj: "decimal m = decimal n \<longleftrightarrow> m = n"
  by (metis decimal_value)

text \<open>A value of such characters is read up to the character that ends it.\<close>

lemma peel_word:
  assumes "\<And>c. c \<in> set a \<Longrightarrow> word_char c" and "\<And>c. c \<in> set b \<Longrightarrow> word_char c" and "\<not> word_char e"
  shows "a @ e # x = b @ e # y \<longleftrightarrow> a = b \<and> x = y"
proof -
  have "e \<notin> set a" "e \<notin> set b" using assms by blast+
  then show ?thesis
  proof (induction a arbitrary: b)
    case Nil
    then show ?case by (cases b) auto
  next
    case (Cons c a)
    then show ?case by (cases b) auto
  qed
qed

lemma peel_decimal: "decimal m @ CHR '','' # x = decimal n @ CHR '','' # y \<longleftrightarrow> m = n \<and> x = y"
  by (subst peel_word) (auto simp: decimal_chars decimal_inj word_char_def [of "CHR '',''"])

lemma peel_hex: "encodeHexString a @ CHR 0x22 # x = encodeHexString b @ CHR 0x22 # y \<longleftrightarrow> a = b \<and> x = y"
  by (subst peel_word) (auto simp: encodeHexString_chars encodeHexString_inj word_char_def [of "CHR 0x22"])

definition hex_items :: "bytes list \<Rightarrow> string" where
  "hex_items bs = comma_separated (map json_string (map encodeHexString bs))"

lemma hex_items_Cons:
  "hex_items (b # bs) = CHR 0x22 # encodeHexString b @ CHR 0x22 # (if bs = [] then [] else CHR '','' # hex_items bs)"
  by (cases bs) (simp_all add: hex_items_def json_string_def)

lemma peel_items: "hex_items as @ CHR '']'' # x = hex_items bs @ CHR '']'' # y \<longleftrightarrow> as = bs \<and> x = y"
proof (induction as arbitrary: bs)
  case Nil
  show ?case by (cases bs) (auto simp: hex_items_Cons, simp_all add: hex_items_def)
next
  case (Cons a as)
  show ?case
  proof (cases bs)
    case Nil
    then show ?thesis by (simp add: hex_items_Cons) (simp add: hex_items_def)
  next
    case (Cons b bs')
    with Cons.IH [of bs'] show ?thesis
      by (cases "as = []"; cases "bs' = []") (auto simp: hex_items_Cons peel_hex)
  qed
qed

section \<open>Properties\<close>

text \<open>
  The JSON form of an update message shows all of it: two messages with the same text are equal,
  so nothing of a logged message is lost, the order and the lengths of the two lists included.
\<close>

theorem message_json_injective:
  "UpdateStateMessage_MarshalJSON m = UpdateStateMessage_MarshalJSON m' \<longleftrightarrow> m = m'"
proof
  have arr: "json_array (map json_string (bytesSliceToHexSlice bs)) = CHR ''['' # hex_items bs @ '']''" for bs
    by (simp add: json_array_def hex_items_def bytesSliceToHexSlice_map)
  assume "UpdateStateMessage_MarshalJSON m = UpdateStateMessage_MarshalJSON m'"
  then show "m = m'"
    by (cases m; cases m')
      (simp add: UpdateStateMessage_MarshalJSON_def json_object_def json_string_def arr
        peel_decimal peel_hex peel_items encodeHexString_inj word_unat_eq_iff)
qed simp

end
