(* ===== verification/Client_Creation.thy ===== *)
theory Client_Creation
  imports Update_Contract State_Proofs Light_Commands Client_Interfaces
begin

text \<open>
  The creation of a client across the components: the local light client gives a verified header,
  \<open>CreateInitialLightClientState\<close> makes the two states of it, and the contract's
  \<open>initializeClient\<close> takes them.
\<close>

section \<open>From the local light client\<close>

text \<open>The errors of \<open>UpdateLightClient\<close> with the prefix of \<open>lightError\<close>.\<close>

definition light_result :: "light_error + 'h \<Rightarrow> string + 'h" where
  "light_result r = (case r of
     Inl (PlainErr e) \<Rightarrow> Inl e
   | Inl (LightErr e) \<Rightarrow> Inl (''light client: '' @ e)
   | Inl (LightPanic e) \<Rightarrow> Inl e
   | Inr h \<Rightarrow> Inr h)"

lemma light_result_Inr: "light_result r = Inr h \<longleftrightarrow> r = Inr h"
  by (simp add: light_result_def split: sum.splits light_error.splits)

lemma ParseDuration_range: "ParseDuration frac s = Inr d \<Longrightarrow> - (2 ^ 63) \<le> d \<and> d < 2 ^ 63"
proof -
  have "- (2 ^ 63) \<le> sint (w :: uint64) \<and> sint w < 2 ^ 63" for w
    using sint_greater_eq [of w] sint_less [of w] by simp
  then show "ParseDuration frac s = Inr d \<Longrightarrow> - (2 ^ 63) \<le> d \<and> d < 2 ^ 63"
    by (auto simp: ParseDuration_def Let_def rbind_eq_Inr_iff split: if_splits)
qed

lemma unat_of_duration: "- (2 ^ 63) \<le> d \<Longrightarrow> d < 2 ^ 63 \<Longrightarrow>
    unat (word_of_int d :: uint64) = (if 0 \<le> d then nat d else nat (2 ^ 64 + d))"
proof -
  assume d: "- (2 ^ 63) \<le> d" "d < 2 ^ 63"
  have "d mod 2 ^ 64 = (if 0 \<le> d then d else 2 ^ 64 + d)"
    using d mod_add_self2 [of d "2 ^ 64"] mod_pos_pos_trivial [of "d + 2 ^ 64" "2 ^ 64"]
    by (auto simp del: mod_add_self2)
  then show ?thesis
    by (simp add: unat_eq_nat_uint uint_word_of_int)
qed

section \<open>Properties\<close>

text \<open>
  C18: The states a client is created from are those of a verified header: when
  \<open>CreateInitialLightClientState\<close> succeeds with \<open>UpdateLightClient\<close>, the latest height, the block
  hash, the application hash and the timestamp are of one header, that of a block which CometBFT's
  light client verified for the requested height, with the same trusting period as the client state has.
\<close>

theorem created_state_verified:
  assumes "CreateInitialLightClientState frac hlib
      (\<lambda>h. light_result (fst (UpdateLightClient frac (pr_config pr) lib h s))) pr height = Inr (cs, cons)"
  shows "\<exists>db s1 c lb hdr. NewLightDB lib s = (Inr db, s1)
    \<and> NewClientFromTrustedStore lib (getTrustingPeriod frac (pr_config pr)) db (env s1) = Inr c
    \<and> block_of lib c (case height of None \<Rightarrow> 0 | Some h \<Rightarrow> sint (RevisionHeight h)) (env s1) lb
    \<and> to_tm_header lib lb = Inr hdr
    \<and> LatestHeight cs = tm_height hdr \<and> BlockHash cons = commit_hash hdr
    \<and> AppHash cons = proto_app_hash hlib (signed_header hdr)
    \<and> Timestamp cons = UnixNano (proto_time_of hlib (signed_header hdr))
    \<and> TrustingPeriod cs = word_of_int (getTrustingPeriod frac (pr_config pr))"
proof -
  let ?h = "case height of None \<Rightarrow> 0 | Some h \<Rightarrow> sint (RevisionHeight h)"
  from assms obtain hdr period s' where
    up: "UpdateLightClient frac (pr_config pr) lib ?h s = (Inr hdr, s')"
    and period: "GetTrustingPeriod frac (pr_config pr) = Inr period"
    and f: "LatestHeight cs = tm_height hdr" "BlockHash cons = commit_hash hdr"
      "AppHash cons = proto_app_hash hlib (signed_header hdr)"
      "Timestamp cons = UnixNano (proto_time_of hlib (signed_header hdr))" "TrustingPeriod cs = word_of_int period"
    by (cases "UpdateLightClient frac (pr_config pr) lib ?h s")
      (auto simp: CreateInitialLightClientState_Inr light_result_Inr)
  have "getTrustingPeriod frac (pr_config pr) = period"
    using period by (simp add: getTrustingPeriod_def GetTrustingPeriod_def)
  with UpdateLightClient_Inr [OF up] f show ?thesis by blast
qed

text \<open>
  C19: When the contract takes the states the relayer makes: exactly if the two digests are the
  contract's, the trusting period is not zero, the height is not zero and of the contract's
  revision, both hashes have 32 bytes and the timestamp is not zero; the contract then trusts the
  header's block at its height. The period it stores is the configured duration modulo \<open>2^64\<close>: a
  negative duration, which \<open>Validate\<close> accepts, becomes a period of more than 290 years.
\<close>

theorem initial_state_accepted_iff:
  assumes created: "CreateInitialLightClientState frac hlib update_light_client pr height = Inr (cs, cons)"
    and period: "GetTrustingPeriod frac (pr_config pr) = Inr period"
  shows "((\<exists>c'. initializeClient c cs cons = Inr c') \<longleftrightarrow>
      be_nat (StepVerifierDigest cs) = stepVerifierDigest c \<and> be_nat (SkipVerifierDigest cs) = skipVerifierDigest c
      \<and> period \<noteq> 0 \<and> RevisionHeight (LatestHeight cs) \<noteq> 0
      \<and> RevisionNumber (LatestHeight cs) = revisionNumber c
      \<and> length (BlockHash cons) = 32 \<and> length (AppHash cons) = 32 \<and> Timestamp cons \<noteq> 0)
    \<and> (\<forall>c'. initializeClient c cs cons = Inr c' \<longrightarrow>
      cConsensusStates c' (RevisionHeight (LatestHeight cs)) =
        \<lparr>cBlockHash = BlockHash cons, cAppHash = AppHash cons, cTimestamp = Timestamp cons\<rparr>
      \<and> cLatestHeight c' = RevisionHeight (LatestHeight cs)
      \<and> unat (cTrustingPeriod c') = (if 0 \<le> period then nat period else nat (2 ^ 64 + period)))"
proof -
  from created period have cs: "length (StepVerifierDigest cs) = 32" "length (SkipVerifierDigest cs) = 32"
    "\<not> Frozen cs" "TrustingPeriod cs = word_of_int period"
    by (auto simp: CreateInitialLightClientState_Inr)
  have p: "- (2 ^ 63) \<le> period \<and> period < 2 ^ 63"
    using ParseDuration_range [OF period [unfolded GetTrustingPeriod_def]] .
  have u: "unat (TrustingPeriod cs) = (if 0 \<le> period then nat period else nat (2 ^ 64 + period))"
    using p by (simp only: cs(4) unat_of_duration)
  have z: "TrustingPeriod cs = 0 \<longleftrightarrow> period = 0"
    using u p by (auto simp: unat_eq_0 [symmetric] split: if_splits)
  show ?thesis
    unfolding initializeClient_def
    by (auto simp: cs(1-3) z u bytes32_exact split: if_splits)
qed

definition created_prover :: Prover where
  "created_prover = \<lparr>pr_config = \<lparr>ZkProverAddr = [], CfgStepVerifierDigest = hex_digest True (replicate 32 1),
     CfgSkipVerifierDigest = hex_digest False (replicate 32 2), ProverType = ''mock'', CfgTrustingPeriod = ''-1h''\<rparr>,
     zkProverClient = example_client\<rparr>"

definition created_lib :: "(nat, nat, bytes) header_lib" where
  "created_lib = \<lparr>HeaderFromProto = (\<lambda>p. Inl ''unused''),
     proto_time_of = (\<lambda>p. \<lparr>unix_seconds = 1700000000, nanosecond = p\<rparr>), proto_app_hash = (\<lambda>p. replicate 32 3)\<rparr>"

definition created_header :: "nat tm_header" where
  "created_header = \<lparr>signed_header = 7, commit_hash = replicate 32 5, tm_height = \<lparr>RevisionNumber = 0, RevisionHeight = 41\<rparr>\<rparr>"

definition created_light :: "(nat, nat, nat, nat, nat tm_header) light_lib" where
  "created_light =
     \<lparr>NewGoLevelDB = NewGoLevelDB example_light, CloseDB = CloseDB example_light, retry_Do = retried Suc,
      NewProvider = NewProvider example_light, NewClientFromTrustedStore = NewClientFromTrustedStore example_light,
      NewClient = NewClient example_light, UpdateClient = UpdateClient example_light,
      TrustedLightBlock = TrustedLightBlock example_light,
      VerifyLightBlockAtHeight = VerifyLightBlockAtHeight example_light,
      LastTrustedHeight = LastTrustedHeight example_light, ProviderLightBlock = ProviderLightBlock example_light,
      lb_hash = lb_hash example_light,
      to_tm_header = (\<lambda>b. if b = 41 then Inr created_header else Inl ''validators''),
      ChainLatestHeight = ChainLatestHeight example_light, ChainTimestamp = ChainTimestamp example_light,
      Now = Now example_light, RemoveAll = RemoveAll example_light\<rparr>"

lemma created_update: "fst (UpdateLightClient frac cfg created_light 0 example_light_state) = Inr created_header"
  by (simp add: UpdateLightClient_def ebind_def light_err_def NewLightDB_def created_light_def example_light_def
      example_light_state_def rtyAttNum_def open_attempt_def eval_nat_numeral defer_close_def
      LightClient_def LightHTTP_def pure_call_def updated_block_def call_def close_db_def)

lemma created_period: "GetTrustingPeriod (\<lambda>f k u. 0) (pr_config created_prover) = Inr (- 3600000000000)"
  by (simp add: GetTrustingPeriod_def created_prover_def ParseDuration_def duration_loop.simps duration_step_def
      unit_char_def is_digit_def unitMap_def digit_value_def)

lemma created_states:
  "CreateInitialLightClientState (\<lambda>f k u. 0) created_lib
     (\<lambda>h. light_result (fst (UpdateLightClient (\<lambda>f k u. 0) (pr_config created_prover) created_light h example_light_state)))
     created_prover None = Inr
     (\<lparr>StepVerifierDigest = replicate 32 1, SkipVerifierDigest = replicate 32 2,
       TrustingPeriod = word_of_int (- 3600000000000), Frozen = False, LatestHeight = tm_height created_header\<rparr>,
      \<lparr>BlockHash = replicate 32 5, AppHash = replicate 32 3,
       Timestamp = UnixNano \<lparr>unix_seconds = 1700000000, nanosecond = 7\<rparr>\<rparr>)"
proof -
  have "GetStepVerifierDigest (pr_config created_prover) = Inr (replicate 32 1)"
    and "GetSkipVerifierDigest (pr_config created_prover) = Inr (replicate 32 2)"
    unfolding GetStepVerifierDigest_def GetSkipVerifierDigest_def created_prover_def Prover.simps ProverConfig.simps
    by (rule decode_hex_digest)+
  then show ?thesis
    unfolding CreateInitialLightClientState_Inr
    by (simp add: created_update light_result_def created_period created_header_def created_lib_def)
qed

theorem created_state_verified_witness:
  "\<exists>c lb hdr db s1. block_of created_light c 0 (env s1) lb \<and> NewLightDB created_light example_light_state = (Inr db, s1)
    \<and> to_tm_header created_light lb = Inr hdr \<and> commit_hash hdr = replicate 32 5"
  using created_state_verified [OF created_states] by fastforce

theorem initial_state_accepted_iff_witness:
  "\<exists>cs cons c'. initializeClient (new_contract (be_nat (replicate 32 1)) (be_nat (replicate 32 2)) 0) cs cons = Inr c'
    \<and> 2 ^ 63 \<le> unat (cTrustingPeriod c') \<and> Validate (\<lambda>f k u. 0) (pr_config created_prover) = Inr ()"
proof -
  let ?c = "new_contract (be_nat (replicate 32 1)) (be_nat (replicate 32 2)) 0"
  have ts: "UnixNano \<lparr>unix_seconds = 1700000000, nanosecond = 7\<rparr> \<noteq> 0"
    by (simp add: UnixNano_def)
  note i = initial_state_accepted_iff [OF created_states created_period, of ?c]
  then obtain c' where c': "initializeClient ?c
      \<lparr>StepVerifierDigest = replicate 32 1, SkipVerifierDigest = replicate 32 2,
       TrustingPeriod = word_of_int (- 3600000000000), Frozen = False, LatestHeight = tm_height created_header\<rparr>
      \<lparr>BlockHash = replicate 32 5, AppHash = replicate 32 3,
       Timestamp = UnixNano \<lparr>unix_seconds = 1700000000, nanosecond = 7\<rparr>\<rparr> = Inr c'"
    using ts by (auto simp: new_contract_def created_header_def)
  with i have "2 ^ 63 \<le> unat (cTrustingPeriod c')" by simp
  moreover have "Validate (\<lambda>f k u. 0) (pr_config created_prover) = Inr ()"
    using created_period
    by (simp add: Validate_def GetTrustingPeriod_def created_prover_def decode_hex_digest split: sum.splits)
  ultimately show ?thesis using c' by blast
qed

end
