(* ===== verification/Self_Client.thy ===== *)
theory Self_Client
  imports Client_Creation
begin

text \<open>
  The other direction of a connection, \<open>e2e/chains/tendermint/simapp/ibc.go\<close>: the Tendermint chain checks the
  client that the other chain has of it, and computes its own consensus state at a height. The
  chain id's revision (\<open>ParseChainID\<close>), the comparison of heights of ibc-go (\<open>GTE\<close>), the staking keeper and
  CometBFT's header are parameters.
\<close>

section \<open>Heights\<close>

text \<open>Heights are ordered by revision first, then by height, as ibc-go documents them.\<close>

instantiation Height_ext :: (linorder) linorder
begin

definition less_eq_Height_ext :: "'a Height_scheme \<Rightarrow> 'a Height_scheme \<Rightarrow> bool" where
  "less_eq_Height_ext a b \<longleftrightarrow> RevisionNumber a < RevisionNumber b
     \<or> RevisionNumber a = RevisionNumber b \<and> (RevisionHeight a < RevisionHeight b
       \<or> RevisionHeight a = RevisionHeight b \<and> Height.more a \<le> Height.more b)"

definition less_Height_ext :: "'a Height_scheme \<Rightarrow> 'a Height_scheme \<Rightarrow> bool" where
  "less_Height_ext a b \<longleftrightarrow> a \<le> b \<and> \<not> b \<le> a"

instance
  by standard (auto simp: less_eq_Height_ext_def less_Height_ext_def intro: Height.equality)

end

lemma height_le_iff:
  "(a :: Height) \<le> b \<longleftrightarrow> RevisionNumber a < RevisionNumber b
     \<or> RevisionNumber a = RevisionNumber b \<and> RevisionHeight a \<le> RevisionHeight b"
  by (auto simp: less_eq_Height_ext_def le_less)

section \<open>The keeper\<close>

record 'p self_chain =
  GTE :: "Height \<Rightarrow> Height \<Rightarrow> bool"
  ParseChainID :: "string \<Rightarrow> uint64"
  ChainID :: string
  BlockHeight :: int
  UnbondingTime :: int
  GetHistoricalInfo :: "int \<Rightarrow> 'p option"

datatype exported_client = ZKClient ClientState | OtherClient

datatype exported_height = ClientHeight Height | OtherHeightType

datatype self_error =
    InvalidType
  | ClientFrozen
  | InvalidSelfHeight Height Height
  | InvalidClient uint64 uint64
  | RevisionMismatch uint64 uint64
  | HistoryNotFound uint64
  | HeaderInvalid string

definition ValidateSelfClient :: "'p self_chain \<Rightarrow> exported_client \<Rightarrow> self_error + unit" where
  "ValidateSelfClient k clientState = (case clientState of
     OtherClient \<Rightarrow> Inl InvalidType
   | ZKClient tmClient \<Rightarrow>
     if Frozen tmClient then Inl ClientFrozen
     else
       let revision = ParseChainID k (ChainID k);
           selfHeight = \<lparr>RevisionNumber = revision, RevisionHeight = word_of_int (BlockHeight k)\<rparr> in
       if GTE k (LatestHeight tmClient) selfHeight then Inl (InvalidSelfHeight (LatestHeight tmClient) selfHeight)
       else
         let unbondingPeriod = word_of_int (UnbondingTime k) in
         if unbondingPeriod < TrustingPeriod tmClient
         then Inl (InvalidClient unbondingPeriod (TrustingPeriod tmClient)) else Inr ())"

definition GetSelfConsensusState ::
    "('p, 'v, 'b) header_lib \<Rightarrow> ('v, 'b) chain \<Rightarrow> 'p self_chain \<Rightarrow> exported_height \<Rightarrow> self_error + ConsensusState" where
  "GetSelfConsensusState lib ch k height = (case height of
     OtherHeightType \<Rightarrow> Inl InvalidType
   | ClientHeight selfHeight \<Rightarrow>
     let revision = ParseChainID k (ChainID k) in
     if revision \<noteq> RevisionNumber selfHeight then Inl (RevisionMismatch revision (RevisionNumber selfHeight))
     else case GetHistoricalInfo k (sint (RevisionHeight selfHeight)) of
       None \<Rightarrow> Inl (HistoryNotFound (RevisionHeight selfHeight))
     | Some histInfo \<Rightarrow> (case HeaderFromProto lib histInfo of
         Inl e \<Rightarrow> Inl (HeaderInvalid e)
       | Inr header \<Rightarrow> Inr
           \<lparr>BlockHash = Hash ch header, AppHash = slice (hAppHash header),
            Timestamp = UnixNano (proto_time_of lib histInfo)\<rparr>))"

section \<open>Properties\<close>

text \<open>
  C20: The chain agrees with the client the relayer made of it: it accepts that client exactly if
  the client's height is below the chain's own, in the order of ibc-go, and the configured trusting
  period is not negative and not above the unbonding period; so a negative period, which the contract takes, is refused
  here. And the consensus state the chain computes at the client's height is the one the relayer
  sent, if the history of the chain has the header the relayer used.
\<close>

theorem created_client_self_valid:
  assumes created: "CreateInitialLightClientState frac lib update_light_client pr height = Inr (cs, cons)"
    and period: "GetTrustingPeriod frac (pr_config pr) = Inr period"
    and unbonding: "0 \<le> UnbondingTime k" "UnbondingTime k < 2 ^ 63"
    and update: "update_light_client (case height of None \<Rightarrow> 0 | Some h \<Rightarrow> sint (RevisionHeight h)) = Inr hdr"
    and header: "HeaderFromProto lib (signed_header hdr) = Inr res" "commit_hash hdr = Hash ch res"
      "proto_app_hash lib (signed_header hdr) = slice (hAppHash res)"
    and gte: "\<And>a b. GTE k a b \<longleftrightarrow> b \<le> a"
    and self: "RevisionNumber (tm_height hdr) = ParseChainID k (ChainID k)"
      "GetHistoricalInfo k (sint (RevisionHeight (tm_height hdr))) = Some (signed_header hdr)"
  shows "(ValidateSelfClient k (ZKClient cs) = Inr () \<longleftrightarrow>
      LatestHeight cs < \<lparr>RevisionNumber = ParseChainID k (ChainID k), RevisionHeight = word_of_int (BlockHeight k)\<rparr>
      \<and> 0 \<le> period \<and> period \<le> UnbondingTime k)
    \<and> GetSelfConsensusState lib ch k (ClientHeight (LatestHeight cs)) = Inr cons"
proof -
  from created period update have c: "cs = \<lparr>StepVerifierDigest = StepVerifierDigest cs, SkipVerifierDigest = SkipVerifierDigest cs,
      TrustingPeriod = word_of_int period, Frozen = False, LatestHeight = tm_height hdr\<rparr>"
    and cons: "cons = \<lparr>BlockHash = commit_hash hdr, AppHash = proto_app_hash lib (signed_header hdr),
      Timestamp = UnixNano (proto_time_of lib (signed_header hdr))\<rparr>"
    by (auto simp: CreateInitialLightClientState_Inr)
  have f: "\<not> Frozen cs" "TrustingPeriod cs = word_of_int period" "LatestHeight cs = tm_height hdr"
    by (subst c, simp)+
  have p: "- (2 ^ 63) \<le> period" "period < 2 ^ 63"
    using ParseDuration_range [OF period [unfolded GetTrustingPeriod_def]] by simp_all
  have "\<not> (word_of_int (UnbondingTime k) :: uint64) < word_of_int period \<longleftrightarrow> 0 \<le> period \<and> period \<le> UnbondingTime k"
    unfolding word_less_nat_alt unat_of_duration [OF p] using unbonding p
    by (subst unat_of_duration) (auto simp: not_less nat_le_eq_zle)
  moreover have "ValidateSelfClient k (ZKClient cs) = Inr () \<longleftrightarrow>
      LatestHeight cs < \<lparr>RevisionNumber = ParseChainID k (ChainID k), RevisionHeight = word_of_int (BlockHeight k)\<rparr>
      \<and> \<not> (word_of_int (UnbondingTime k) :: uint64) < word_of_int period"
    unfolding ValidateSelfClient_def Let_def by (auto simp: f gte not_le leD)
  moreover have "GetSelfConsensusState lib ch k (ClientHeight (LatestHeight cs)) = Inr cons"
    using header self by (simp add: GetSelfConsensusState_def f cons)
  ultimately show ?thesis by blast
qed

definition example_lib :: "((nat, bytes) Header, nat, bytes) header_lib" where
  "example_lib = \<lparr>HeaderFromProto = Inr, proto_time_of = hTime, proto_app_hash = (\<lambda>h. slice (hAppHash h))\<rparr>"

definition life_config :: ProverConfig where
  "life_config = \<lparr>ZkProverAddr = [], CfgStepVerifierDigest = hex_digest True (replicate 32 1),
     CfgSkipVerifierDigest = hex_digest False (replicate 32 2), ProverType = ''mock'', CfgTrustingPeriod = ''1h''\<rparr>"

definition life_header :: "(nat, bytes) Header tm_header" where
  "life_header = \<lparr>signed_header = example_header, commit_hash = replicate 32 5,
     tm_height = \<lparr>RevisionNumber = 0, RevisionHeight = 5\<rparr>\<rparr>"

definition life_states :: "ClientState \<times> ConsensusState" where
  "life_states =
     (\<lparr>StepVerifierDigest = replicate 32 1, SkipVerifierDigest = replicate 32 2,
       TrustingPeriod = word_of_int 3600000000000, Frozen = False, LatestHeight = tm_height life_header\<rparr>,
      \<lparr>BlockHash = replicate 32 5, AppHash = replicate 32 3,
       Timestamp = UnixNano \<lparr>unix_seconds = 1700000000, nanosecond = 7\<rparr>\<rparr>)"

lemma life_digests:
  "GetStepVerifierDigest life_config = Inr (replicate 32 1)" "GetSkipVerifierDigest life_config = Inr (replicate 32 2)"
  unfolding GetStepVerifierDigest_def GetSkipVerifierDigest_def life_config_def ProverConfig.simps
  by (rule decode_hex_digest)+

lemma life_period: "GetTrustingPeriod (\<lambda>f k u. 0) life_config = Inr 3600000000000"
  by (simp add: GetTrustingPeriod_def life_config_def ParseDuration_def duration_loop.simps duration_step_def
      unit_char_def is_digit_def unitMap_def digit_value_def)

lemma life_created:
  "CreateInitialLightClientState (\<lambda>f k u. 0) example_lib (\<lambda>h. Inr life_header)
     \<lparr>pr_config = life_config, zkProverClient = zpc\<rparr> None = Inr (fst life_states, snd life_states)"
  unfolding CreateInitialLightClientState_Inr
  by (simp add: life_digests life_period life_states_def life_header_def example_lib_def example_header_def slice_def)

definition life_chain :: "(nat, bytes) chain" where
  "life_chain = \<lparr>header_at = (\<lambda>h. Inr example_header), Hash = (\<lambda>h. replicate 32 5)\<rparr>"

definition life_self :: "(nat, bytes) Header self_chain" where
  "life_self = \<lparr>GTE = (\<lambda>a b. b \<le> a), ParseChainID = (\<lambda>s. 0), ChainID = ''ibc0'', BlockHeight = 6, UnbondingTime = 3600000000000,
     GetHistoricalInfo = (\<lambda>h. if h = 5 then Some example_header else None)\<rparr>"

theorem created_client_self_valid_witness:
  "ValidateSelfClient life_self (ZKClient (fst life_states)) = Inr ()
    \<and> GetSelfConsensusState example_lib life_chain life_self (ClientHeight (LatestHeight (fst life_states)))
        = Inr (snd life_states)"
proof -
  have "LatestHeight (fst life_states) < \<lparr>RevisionNumber = 0, RevisionHeight = 6\<rparr>"
    by (simp add: life_states_def life_header_def less_Height_ext_def height_le_iff)
  then show ?thesis
    using created_client_self_valid [where k = life_self and ch = life_chain and hdr = life_header
        and res = example_header and period = 3600000000000, OF life_created]
    by (simp add: life_period life_self_def life_header_def life_chain_def example_lib_def)
qed

end
