(* ===== verification/Tree_Verifier.thy ===== *)
theory Tree_Verifier
  imports State_Proofs Update_Contract
begin

text \<open>
  Membership proofs in the contract: \<open>verifyMembership\<close> of \<open>contracts/TendermintZKLightClient.sol\<close> and the
  two proof formats of \<open>contracts/TendermintTreeVerifier.sol\<close>, the receiving side of \<open>ProveState\<close>.
  \<open>ProtoBufRuntime\<close> of yui-ibc-solidity is the record \<open>proto_runtime\<close>; \<open>abi.decode\<close> is an argument;
  \<open>H\<close> is \<open>sha256\<close>. The documented checks of ics23, which the relayer calls, are the predicate
  \<open>ics23_checks\<close>. Proofs of absence are in \<open>Absence_Proofs\<close>.
\<close>

section \<open>The verifier\<close>

text \<open>
  \<open>_sz_varint(v)\<close>, \<open>_encode_varint(v, p, bs)\<close> with the \<open>bs\<close> it fills, and \<open>_decode_varint(p, bs)\<close>, the
  value and the number of bytes read; a pointer is the index plus 32, the size of the length word.
\<close>

record proto_runtime =
  sz_varint :: "nat \<Rightarrow> nat"
  encode_varint :: "nat \<Rightarrow> nat \<Rightarrow> bytes \<Rightarrow> bytes"
  decode_varint :: "nat \<Rightarrow> bytes \<Rightarrow> (nat \<times> nat) option"

datatype tree_error =
    UnsupportedProofSpec
  | TendermintSpecInvalidProof
  | IAVLSpecInvalidProof
  | InvalidInnerPrefixLength
  | InvalidInnerSuffixLength
  | InvalidIAVLPrefix
  | InvalidIAVLOp
  | TreeRequireFailed
  | TreeRevert string
  | TreePanic

datatype ProofSpec = NoSpec | SimpleTreeSpec | IAVLTreeSpec

text \<open>The enum of a \<open>uint8\<close>; decoding any other number reverts.\<close>

definition proof_spec :: "byte \<Rightarrow> ProofSpec option" where
  "proof_spec b = (if b = 0 then Some NoSpec else if b = 1 then Some SimpleTreeSpec
     else if b = 2 then Some IAVLTreeSpec else None)"

definition prepareLeafData :: "proto_runtime \<Rightarrow> bytes \<Rightarrow> bytes" where
  "prepareLeafData rt dat = (let len = length dat in encode_varint rt len 32 (replicate (sz_varint rt len) 0) @ dat)"

definition prepareLeafData32 :: "bytes \<Rightarrow> bytes" where
  "prepareLeafData32 dat = 0x20 # dat"

definition tendermint_check :: "bytes \<times> bytes \<Rightarrow> tree_error + unit" where
  "tendermint_check op =
     (if length (fst op) < 1 then Inl TendermintSpecInvalidProof
      else if 33 < length (fst op) then Inl TendermintSpecInvalidProof
      else if length (snd op) mod 32 \<noteq> 0 then Inl TendermintSpecInvalidProof
      else Inr ())"

fun tendermint_loop :: "hash_fun \<Rightarrow> nat \<Rightarrow> bytes \<Rightarrow> (bytes \<times> bytes) list \<Rightarrow> tree_error + bytes" where
  "tendermint_loop H i h [] = Inr h"
| "tendermint_loop H i h (op # path) =
     rbind (tendermint_check op) (\<lambda>_. tendermint_loop H (i + 1) (H (fst op @ h @ snd op)) path)"

definition verifyMembershipTendermintSpec ::
    "hash_fun \<Rightarrow> proto_runtime \<Rightarrow> bytes \<Rightarrow> bytes \<Rightarrow> bytes \<Rightarrow> (bytes \<times> bytes) list \<Rightarrow> tree_error + bytes" where
  "verifyMembershipTendermintSpec H rt prefix key value path =
     (if length prefix \<noteq> 1 then Inl TendermintSpecInvalidProof
      else if prefix ! 0 \<noteq> 0 then Inl TendermintSpecInvalidProof
      else tendermint_loop H 0 (H (prefix @ prepareLeafData rt key @ prepareLeafData32 (H value))) path)"

text \<open>Three varints; the test \<open>v < 0\<close> is that of the code, on an unsigned number.\<close>

fun iavl_values :: "proto_runtime \<Rightarrow> nat \<Rightarrow> nat \<Rightarrow> bytes \<Rightarrow> nat list \<Rightarrow> tree_error + (nat list \<times> nat)" where
  "iavl_values rt 0 ptr prefix values = Inr (values, ptr)"
| "iavl_values rt (Suc k) ptr prefix values = (case decode_varint rt ptr prefix of
     None \<Rightarrow> Inl TreePanic
   | Some (v, n) \<Rightarrow> if v < 0 then Inl InvalidIAVLPrefix
       else iavl_values rt k (ptr + n) prefix (values @ [v]))"

definition validateIAVLOps :: "proto_runtime \<Rightarrow> bytes \<Rightarrow> nat \<Rightarrow> tree_error + unit" where
  "validateIAVLOps rt prefix b =
     rbind (iavl_values rt 3 32 prefix []) (\<lambda>(values, ptr).
       if values ! 0 < b then Inl InvalidIAVLOp
       else let r2 = (of_nat (length prefix) + 32 - of_nat ptr :: 256 word) in
         if b = 0 then (if r2 \<noteq> 0 then Inl InvalidIAVLOp else Inr ())
         else if \<not> (r2 XOR 1 = 0 \<or> r2 = 34) then Inl InvalidIAVLOp else Inr ())"

definition iavl_check :: "proto_runtime \<Rightarrow> nat \<Rightarrow> bytes \<times> bytes \<Rightarrow> tree_error + unit" where
  "iavl_check rt i op =
     (if length (fst op) < 4 then Inl InvalidInnerPrefixLength
      else if 45 < length (fst op) then Inl InvalidInnerPrefixLength
      else if length (snd op) mod 33 \<noteq> 0 then Inl InvalidInnerSuffixLength
      else validateIAVLOps rt (fst op) (i + 1))"

fun iavl_loop :: "hash_fun \<Rightarrow> proto_runtime \<Rightarrow> nat \<Rightarrow> bytes \<Rightarrow> (bytes \<times> bytes) list \<Rightarrow> tree_error + bytes" where
  "iavl_loop H rt i h [] = Inr h"
| "iavl_loop H rt i h (op # path) =
     rbind (iavl_check rt i op) (\<lambda>_. iavl_loop H rt (i + 1) (H (fst op @ h @ snd op)) path)"

definition verifyMembershipIAVLSpec ::
    "hash_fun \<Rightarrow> proto_runtime \<Rightarrow> bytes \<Rightarrow> bytes \<Rightarrow> bytes \<Rightarrow> (bytes \<times> bytes) list \<Rightarrow> tree_error + bytes" where
  "verifyMembershipIAVLSpec H rt prefix key value path =
     (if prefix = [] then Inl TreePanic
      else if prefix ! 0 \<noteq> 0 then Inl IAVLSpecInvalidProof
      else rbind (validateIAVLOps rt prefix 0) (\<lambda>_.
        iavl_loop H rt 0 (H (prefix @ prepareLeafData rt key @ prepareLeafData32 (H value))) path))"

text \<open>\<open>verifyMembership\<close> of the library, which goes by the number in the proof.\<close>

definition spec_verifyMembership :: "hash_fun \<Rightarrow> proto_runtime \<Rightarrow> ExistenceProof \<Rightarrow> tree_error + bytes" where
  "spec_verifyMembership H rt p = (case proof_spec (Spec p) of
     None \<Rightarrow> Inl TreePanic
   | Some SimpleTreeSpec \<Rightarrow> verifyMembershipTendermintSpec H rt (Prefix p) (Key p) (Value p) (Path p)
   | Some IAVLTreeSpec \<Rightarrow> verifyMembershipIAVLSpec H rt (Prefix p) (Key p) (Value p) (Path p)
   | Some NoSpec \<Rightarrow> Inl UnsupportedProofSpec)"

text \<open>\<open>verifyMembership\<close> of the light client.\<close>

definition verifyMembership ::
    "hash_fun \<Rightarrow> proto_runtime \<Rightarrow> (bytes \<Rightarrow> ExistenceProof list option) \<Rightarrow> contract \<Rightarrow> Height \<Rightarrow> bytes \<Rightarrow> bytes
      \<Rightarrow> bytes \<Rightarrow> bytes \<Rightarrow> tree_error + bool" where
  "verifyMembership H rt abi_decode c height prf prefix path value =
     (if RevisionNumber height \<noteq> revisionNumber c then Inl TreeRequireFailed
      else case abi_decode prf of None \<Rightarrow> Inl TreePanic | Some eproof \<Rightarrow>
        rbind (verifyMembershipIAVLSpec H rt (Prefix (eproof ! 0)) path value (Path (eproof ! 0))) (\<lambda>ibcCommitmentRoot.
        rbind (verifyMembershipTendermintSpec H rt (Prefix (eproof ! 1)) prefix ibcCommitmentRoot (Path (eproof ! 1))) (\<lambda>root.
          if root = cAppHash (cConsensusStates c (RevisionHeight height)) then Inr True
          else Inl TreeRequireFailed)))"

section \<open>The path of a proof\<close>

text \<open>What a path computes from the hash of a leaf, and the byte strings that are hashed on the way.\<close>

fun chain_root :: "hash_fun \<Rightarrow> bytes \<Rightarrow> (bytes \<times> bytes) list \<Rightarrow> bytes" where
  "chain_root H h [] = h"
| "chain_root H h (op # path) = chain_root H (H (fst op @ h @ snd op)) path"

fun chain_strings :: "hash_fun \<Rightarrow> bytes \<Rightarrow> (bytes \<times> bytes) list \<Rightarrow> bytes list" where
  "chain_strings H h [] = []"
| "chain_strings H h (op # path) = (fst op @ h @ snd op) # chain_strings H (H (fst op @ h @ snd op)) path"

lemma chain_root_inj:
  "inj_on H (set (chain_strings H h path @ chain_strings H h' path)) \<Longrightarrow>
     chain_root H h path = chain_root H h' path \<Longrightarrow> h = h'"
proof (induction path arbitrary: h h')
  case (Cons op path)
  let ?n = "\<lambda>h. fst op @ h @ snd op"
  from Cons.prems(1) have "inj_on H (set (chain_strings H (H (?n h)) path @ chain_strings H (H (?n h')) path))"
    by (rule inj_on_subset) auto
  with Cons have "H (?n h) = H (?n h')" by simp
  with Cons.prems(1) have "?n h = ?n h'" by (auto dest: inj_onD)
  then show ?case by simp
qed simp

text \<open>The two formats differ in what they check of an operation; both loops keep this contract.\<close>

locale proof_loop =
  fixes H :: hash_fun
    and check :: "nat \<Rightarrow> bytes \<times> bytes \<Rightarrow> tree_error + unit"
    and loop :: "nat \<Rightarrow> bytes \<Rightarrow> (bytes \<times> bytes) list \<Rightarrow> tree_error + bytes"
  assumes loop_Nil: "loop i h [] = Inr h"
    and loop_Cons: "loop i h (op # path) = rbind (check i op) (\<lambda>_. loop (i + 1) (H (fst op @ h @ snd op)) path)"
begin

lemma loop_Inr_iff:
  "loop i h path = Inr r \<longleftrightarrow> (\<forall>j < length path. check (i + j) (path ! j) = Inr ()) \<and> r = chain_root H h path"
proof (induction path arbitrary: i h)
  case (Cons op path)
  show ?case
    by (cases "check i op") (simp_all add: loop_Cons Cons.IH All_less_Suc2)
qed (auto simp: loop_Nil)

end

interpretation tendermint_path: proof_loop H "\<lambda>i. tendermint_check" "tendermint_loop H"
  by unfold_locales simp_all

interpretation iavl_path: proof_loop H "iavl_check rt" "iavl_loop H rt"
  by unfold_locales simp_all

section \<open>What is accepted\<close>

definition leaf_data :: "proto_runtime \<Rightarrow> hash_fun \<Rightarrow> bytes \<Rightarrow> bytes \<Rightarrow> bytes \<Rightarrow> bytes" where
  "leaf_data rt H prefix key value = prefix @ prepareLeafData rt key @ prepareLeafData32 (H value)"

lemma verifyMembershipTendermintSpec_Inr:
  "verifyMembershipTendermintSpec H rt prefix key value path = Inr r \<longleftrightarrow>
     prefix = [0] \<and> (\<forall>op \<in> set path. tendermint_check op = Inr ())
     \<and> r = chain_root H (H (leaf_data rt H prefix key value)) path"
proof -
  have "prefix = [0] \<longleftrightarrow> length prefix = 1 \<and> prefix ! 0 = 0"
    by (cases prefix) auto
  then show ?thesis
    unfolding verifyMembershipTendermintSpec_def leaf_data_def
    by (auto simp: tendermint_path.loop_Inr_iff all_set_conv_all_nth)
qed

lemma verifyMembershipIAVLSpec_Inr:
  "verifyMembershipIAVLSpec H rt prefix key value path = Inr r \<longleftrightarrow>
     prefix \<noteq> [] \<and> hd prefix = 0 \<and> validateIAVLOps rt prefix 0 = Inr ()
     \<and> (\<forall>i < length path. iavl_check rt i (path ! i) = Inr ())
     \<and> r = chain_root H (H (leaf_data rt H prefix key value)) path"
  unfolding verifyMembershipIAVLSpec_def leaf_data_def
  by (auto simp: iavl_path.loop_Inr_iff hd_conv_nth rbind_eq_Inr_iff)

lemma verifyMembership_Inr:
  "verifyMembership H rt abi_decode c height prf prefix path value = Inr b \<longleftrightarrow>
     b \<and> RevisionNumber height = revisionNumber c
     \<and> (\<exists>ps subroot. abi_decode prf = Some ps
       \<and> verifyMembershipIAVLSpec H rt (Prefix (ps ! 0)) path value (Path (ps ! 0)) = Inr subroot
       \<and> verifyMembershipTendermintSpec H rt (Prefix (ps ! 1)) prefix subroot (Path (ps ! 1))
         = Inr (cAppHash (cConsensusStates c (RevisionHeight height))))"
  by (auto simp: verifyMembership_def rbind_eq_Inr_iff split: option.splits if_splits)

section \<open>Varints\<close>

text \<open>The documented encoding of the runtime: a 64-bit number is the bytes of its varint.\<close>

definition runtime_ok :: "proto_runtime \<Rightarrow> bool" where
  "runtime_ok rt \<longleftrightarrow> (\<forall>v pre post.
     encode_varint rt (unat v) 32 (replicate (sz_varint rt (unat v)) 0) = uvarint v
     \<and> decode_varint rt (32 + length pre) (pre @ uvarint v @ post) = Some (unat v, length (uvarint v)))"

text \<open>
  \<open>varint_bytes n e\<close>: the bytes \<open>e\<close> are a varint of \<open>n\<close>, in groups of seven bits and not necessarily the shortest one. Go's
  \<open>binary.ReadVarint\<close> reads those of at most ten bytes that stand for 64 bits; the runtime reads them too.
\<close>

fun varint_bytes :: "nat \<Rightarrow> bytes \<Rightarrow> bool" where
  "varint_bytes n [] \<longleftrightarrow> False"
| "varint_bytes n [b] \<longleftrightarrow> unat b < 128 \<and> n = unat b"
| "varint_bytes n (b # c # bs) \<longleftrightarrow> 128 \<le> unat b \<and> n mod 128 = unat b mod 128 \<and> varint_bytes (n div 128) (c # bs)"

definition go_varint :: "uint64 \<Rightarrow> bytes \<Rightarrow> bool" where
  "go_varint v e \<longleftrightarrow> length e \<le> 10 \<and> varint_bytes (unat v) e"

definition runtime_reads :: "proto_runtime \<Rightarrow> bool" where
  "runtime_reads rt \<longleftrightarrow> (\<forall>v e pre post. go_varint v e \<longrightarrow>
     decode_varint rt (32 + length pre) (pre @ e @ post) = Some (unat v, length e))"

lemma go_varint_not_Nil: "go_varint v e \<Longrightarrow> e \<noteq> []"
  by (auto simp: go_varint_def)

lemma prepareLeafData_eq:
  "runtime_ok rt \<Longrightarrow> length bs < 2 ^ 64 \<Longrightarrow> prepareLeafData rt bs = uvarint (word_of_nat (length bs)) @ bs"
  unfolding runtime_ok_def prepareLeafData_def Let_def by (metis unat_of_nat_64)

lemma uvarint_frame_inj:
  "uvarint (word_of_nat (length a)) @ a = uvarint (word_of_nat (length b)) @ b \<Longrightarrow>
     length a < 2 ^ 64 \<Longrightarrow> length b < 2 ^ 64 \<Longrightarrow> a = b"
proof -
  assume e: "uvarint (word_of_nat (length a)) @ a = uvarint (word_of_nat (length b)) @ b"
    and l: "length a < 2 ^ 64" "length b < 2 ^ 64"
  have r: "read_varint (uvarint v @ bs) 0 0 (0 :: 64 word) = Inr (v, length (uvarint v))" for v bs
    using read_varint_0 [of 0 "uvarint v @ bs" v bs, where ?'w = 64] by simp
  from r [of "word_of_nat (length a)" a] r [of "word_of_nat (length b)" b] e
  have "(word_of_nat (length a) :: 64 word) = word_of_nat (length b)" by simp
  with e show "a = b" by simp
qed

lemma leaf_data_inj:
  assumes "runtime_ok rt" and "\<forall>x. length (H x) = 32" and "length k < 2 ^ 64" "length k' < 2 ^ 64"
    and eq: "leaf_data rt H prefix k v = leaf_data rt H prefix k' v'"
  shows "k = k' \<and> H v = H v'"
proof -
  from eq have "prepareLeafData rt k @ prepareLeafData32 (H v) = prepareLeafData rt k' @ prepareLeafData32 (H v')"
    by (simp add: leaf_data_def)
  then have "prepareLeafData rt k = prepareLeafData rt k' \<and> prepareLeafData32 (H v) = prepareLeafData32 (H v')"
    using assms(2) by (subst (asm) append_eq_append_conv) (auto simp: prepareLeafData32_def)
  then show ?thesis
    using uvarint_frame_inj [of k k'] assms(1,3,4) by (simp add: prepareLeafData_eq prepareLeafData32_def)
qed

section \<open>The checks of ics23\<close>

text \<open>
  What ics23 documents for the specification of an IAVL tree: a prefix is the height, the size and the
  version of a node as zigzag varints that \<open>binary.ReadVarint\<close> reads, the shortest ones (\<open>iavl_prefix\<close>) or longer ones, then nothing for a leaf, or the length byte of a child
  with, for the right child, its left sibling before it; the height is at least the layer.
\<close>

definition iavl_prefix :: "uint64 \<Rightarrow> uint64 \<Rightarrow> uint64 \<Rightarrow> bytes" where
  "iavl_prefix height count version = uvarint (2 * height) @ uvarint (2 * count) @ uvarint (2 * version)"

definition iavl_op :: "nat \<Rightarrow> bytes \<Rightarrow> bool" where
  "iavl_op layer prefix \<longleftrightarrow> (\<exists>height count version eh ec ev rest. prefix = eh @ ec @ ev @ rest
     \<and> go_varint (2 * height) eh \<and> go_varint (2 * count) ec \<and> go_varint (2 * version) ev
     \<and> unat height < 2 ^ 63 \<and> layer \<le> unat height \<and> length rest \<in> (if layer = 0 then {0} else {1, 34}))"

definition ics_root :: "bytes \<Rightarrow> ics_existence \<Rightarrow> bytes" where
  "ics_root leaf_prefix e = chain_root Sum256
     (Sum256 (leaf_prefix @ uvarint (word_of_nat (length (ics_key e))) @ ics_key e @ uvarint 32 @ Sum256 (ics_value e)))
     (ics_path e)"

definition ics_iavl :: "bytes \<Rightarrow> ics_existence \<Rightarrow> bool" where
  "ics_iavl leaf_prefix e \<longleftrightarrow> iavl_op 0 leaf_prefix \<and> hd leaf_prefix = 0
     \<and> (\<forall>i < length (ics_path e). let (p, s) = ics_path e ! i in
          iavl_op (i + 1) p \<and> 4 \<le> length p \<and> length p \<le> 45 \<and> length s mod 33 = 0)"

definition ics_tendermint :: "bytes \<Rightarrow> ics_existence \<Rightarrow> bool" where
  "ics_tendermint leaf_prefix e \<longleftrightarrow> leaf_prefix \<noteq> [] \<and> hd leaf_prefix = 0
     \<and> (\<forall>(p, s) \<in> set (ics_path e). 1 \<le> length p \<and> length p \<le> 33 \<and> length s mod 32 = 0)"

text \<open>
  A membership proof of the SDK is verified if both proofs keep their format and chain to the root. ibc-go unescapes
  the path as a part of a URL before it compares it with the key; a path without a percent sign is left as it is.
\<close>

definition ics23_checks :: "state_lib \<Rightarrow> bool" where
  "ics23_checks lib \<longleftrightarrow> (\<forall>root path value pe0 pe1 f0 f1.
     VerifyMembership lib root [''ibc'', path] value [Exist pe0, Exist pe1] = Inr () \<longrightarrow>
     ics_leaf_prefix pe0 = Some f0 \<longrightarrow> ics_leaf_prefix pe1 = Some f1 \<longrightarrow>
     ics_iavl f0 pe0 \<and> ics_tendermint f1 pe1 \<and> (CHR ''%'' \<notin> set path \<longrightarrow> ics_key pe0 = string_bytes path) \<and> ics_value pe0 = value
     \<and> ics_key pe1 = string_bytes ''ibc'' \<and> ics_value pe1 = ics_root f0 pe0 \<and> ics_root f1 pe1 = root)"

definition abi_agrees :: "existence_abi \<Rightarrow> (bytes \<Rightarrow> ExistenceProof list option) \<Rightarrow> bool" where
  "abi_agrees a abi_decode \<longleftrightarrow> (\<forall>ps bs. ep_pack a ps = Inr bs \<longrightarrow> length ps = 2 \<longrightarrow>
     (\<forall>p \<in> set ps. proof_spec (Spec p) \<noteq> None) \<longrightarrow> abi_decode bs = Some ps)"

lemma xor_1_eq_0: "x XOR 1 = 0 \<longleftrightarrow> x = 1" for x :: "256 word"
proof
  assume "x XOR 1 = 0"
  then have "(x XOR 1) XOR 1 = 1" by simp
  then show "x = 1" by (simp only: xor.assoc xor_self_eq xor.right_neutral)
qed simp

lemma validateIAVLOps_decoded:
  assumes d: "\<And>x e pre post. (x, e) \<in> {(a, ea), (b, eb), (c, ec)} \<Longrightarrow>
      decode_varint rt (32 + length pre) (pre @ e @ post) = Some (unat x, length e)"
    and len: "length rest < 2 ^ 63"
  shows "validateIAVLOps rt (ea @ eb @ ec @ rest) n = Inr () \<longleftrightarrow>
    n \<le> unat (a :: uint64) \<and> length rest \<in> (if n = 0 then {0} else {1, 34})"
proof -
  let ?p = "ea @ eb @ ec @ rest"
  let ?l = "length ea + length eb + length ec"
  have v: "iavl_values rt 3 32 ?p [] = Inr ([unat a, unat b, unat c], 32 + ?l)"
    using d [of a ea "[]" "eb @ ec @ rest"] d [of b eb ea "ec @ rest"] d [of c ec "ea @ eb" rest]
    by (simp add: numeral_3_eq_3 add.assoc)
  have r: "(of_nat (length ?p) + 32 - of_nat (32 + ?l) :: 256 word) = of_nat (length rest)"
    by simp
  have u: "unat (of_nat k :: 256 word) = k" if "k < 2 ^ 63" for k
  proof -
    have "k < 2 ^ 256" by (rule less_trans [OF that]) simp
    then show ?thesis by (simp only: unat_of_nat take_bit_nat_eq_self len_num1 len_bit0 mult_2) simp
  qed
  have k: "(of_nat (length rest) :: 256 word) = of_nat k \<longleftrightarrow> length rest = k" if "k < 2 ^ 63" for k
    using u [OF that] u [OF len] by metis
  have k0: "(of_nat (length rest) :: 256 word) = 0 \<longleftrightarrow> length rest = 0"
    and k1: "(of_nat (length rest) :: 256 word) = 1 \<longleftrightarrow> length rest = 1"
    and k34: "(of_nat (length rest) :: 256 word) = 34 \<longleftrightarrow> length rest = 34"
    using k [of 0] k [of 1] k [of 34] by simp_all
  show ?thesis
    unfolding validateIAVLOps_def v rbind_Inr prod.case Let_def r xor_1_eq_0
    by (auto simp: k0 k1 k34)
qed

lemma validateIAVLOps_varints:
  assumes "runtime_ok rt" and "length rest < 2 ^ 63"
  shows "validateIAVLOps rt (uvarint a @ uvarint b @ uvarint c @ rest) n = Inr () \<longleftrightarrow>
    n \<le> unat a \<and> length rest \<in> (if n = 0 then {0} else {1, 34})"
  by (rule validateIAVLOps_decoded [OF _ assms(2)]) (use assms(1) in \<open>auto simp: runtime_ok_def\<close>)

lemma iavl_op_valid:
  assumes "runtime_reads rt" and "iavl_op n p"
  shows "validateIAVLOps rt p n = Inr ()"
proof -
  from assms(2) obtain h s v eh es ev rest where p: "p = eh @ es @ ev @ rest"
      "go_varint (2 * h) eh" "go_varint (2 * s) es" "go_varint (2 * v) ev"
      "unat h < 2 ^ 63" "n \<le> unat h" "length rest \<in> (if n = 0 then {0} else {1, 34})"
    unfolding iavl_op_def by blast
  then have "unat (2 * h) = 2 * unat h" and "length rest < 2 ^ 63"
    by (auto simp: unat_word_ariths split: if_splits)
  moreover have "validateIAVLOps rt (eh @ es @ ev @ rest) n = Inr () \<longleftrightarrow>
      n \<le> unat (2 * h) \<and> length rest \<in> (if n = 0 then {0} else {1, 34})"
    by (rule validateIAVLOps_decoded [of _ _ "2 * s" _ "2 * v"])
      (use p(2-4) assms(1) \<open>length rest < 2 ^ 63\<close> in \<open>auto simp: runtime_reads_def\<close>)
  ultimately show ?thesis using p(1,6,7) by simp
qed

lemma iavl_op_length: "iavl_op n p \<Longrightarrow> 3 \<le> length p"
proof -
  have l: "1 \<le> length e" if "go_varint v e" for v e
    using go_varint_not_Nil [OF that] by (cases e) simp_all
  have "3 \<le> length (eh @ es @ ev @ rest)" if "go_varint a eh" "go_varint b es" "go_varint c ev" for eh es ev rest a b c
    using l [OF that(1)] l [OF that(2)] l [OF that(3)] unfolding length_append by linarith
  then show "iavl_op n p \<Longrightarrow> 3 \<le> length p"
    unfolding iavl_op_def by blast
qed

text \<open>
  Among well-formed prefixes the contract is laxer than ics23: it compares the layer with the
  height read as an unsigned number, which is twice the height.
\<close>

lemma validateIAVLOps_layer:
  assumes "runtime_ok rt" and "unat h < 2 ^ 63" and "length rest = 1 \<or> length rest = 34"
  shows "validateIAVLOps rt (iavl_prefix h k v @ rest) (Suc i) = Inr () \<longleftrightarrow> Suc i \<le> 2 * unat h"
proof -
  have "unat (2 * h) = 2 * unat h" using assms(2) by (simp add: unat_word_ariths)
  moreover have "length rest < 2 ^ 63" using assms(3) by auto
  ultimately show ?thesis
    using assms(3) validateIAVLOps_varints [OF assms(1), of rest "2 * h" "2 * k" "2 * v" "Suc i"]
    by (auto simp: iavl_prefix_def)
qed

lemma ics_iavl_verified:
  assumes "runtime_ok rt" "runtime_reads rt" and "ics_iavl f e" and "length (ics_key e) < 2 ^ 64"
  shows "verifyMembershipIAVLSpec Sum256 rt f (ics_key e) (ics_value e) (ics_path e) = Inr (ics_root f e)"
proof -
  have "f \<noteq> []" using assms(3) iavl_op_length by (fastforce simp: ics_iavl_def)
  moreover have "iavl_check rt i (ics_path e ! i) = Inr ()" if "i < length (ics_path e)" for i
    using assms(3) that iavl_op_valid [OF assms(2), of "i + 1"] by (auto simp: ics_iavl_def iavl_check_def)
  moreover have "validateIAVLOps rt f 0 = Inr ()"
    using assms(3) iavl_op_valid [OF assms(2), of 0] by (simp add: ics_iavl_def)
  ultimately show ?thesis
    using assms by (simp add: verifyMembershipIAVLSpec_Inr ics_root_def leaf_data_def prepareLeafData_eq
        prepareLeafData32_def uvarint_small ics_iavl_def)
qed

lemma ics_tendermint_verified:
  assumes "runtime_ok rt" and "ics_tendermint f e" and "length (ics_key e) < 2 ^ 64"
  shows "verifyMembershipTendermintSpec Sum256 rt f (ics_key e) (ics_value e) (ics_path e) = Inr r \<longleftrightarrow>
    f = [0] \<and> r = ics_root f e"
proof -
  have "tendermint_check op = Inr ()" if "op \<in> set (ics_path e)" for op
    using assms(2) that by (auto simp: ics_tendermint_def tendermint_check_def)
  then show ?thesis
    using assms by (auto simp: verifyMembershipTendermintSpec_Inr ics_root_def leaf_data_def prepareLeafData_eq
        prepareLeafData32_def uvarint_small)
qed

lemma proved_state_verified:
  assumes prove: "ProveState a lib ch h path value = Inr (prf, ph)"
    and header: "header_at ch (sint (RevisionHeight h)) = Inr hdr" "length (slice (hAppHash hdr)) = 32"
    and lib: "ics23_checks lib" "runtime_ok rt" "runtime_reads rt" "abi_agrees a abi_decode" "length path < 2 ^ 64"
      "CHR ''%'' \<notin> set path"
    and c: "RevisionNumber ph = revisionNumber c"
      "cAppHash (cConsensusStates c (RevisionHeight ph)) = slice (hAppHash hdr)"
  shows "\<exists>bs pe0 pe1. QueryTendermintProof lib (sint (RevisionHeight h)) (string_bytes path) = Inr (value, bs, ph)
    \<and> UnmarshalMerkleProof lib bs = Inr [Exist pe0, Exist pe1]
    \<and> (verifyMembership Sum256 rt abi_decode c ph prf (string_bytes ''ibc'') (string_bytes path) value = Inr True
       \<longleftrightarrow> ics_leaf_prefix pe1 = Some [0])"
proof -
  let ?root = "slice (hAppHash hdr)"
  from prove obtain bs mp where q: "QueryTendermintProof lib (sint (RevisionHeight h)) (string_bytes path) = Inr (value, bs, ph)"
      "UnmarshalMerkleProof lib bs = Inr mp" and "conversion_of a lib ?root path value mp prf"
    unfolding ProveState_Inr [OF header] by blast
  then obtain pe0 pe1 f0 f1 where mp: "mp = [Exist pe0, Exist pe1]"
      and verified: "VerifyMembership lib ?root [''ibc'', path] value mp = Inr ()"
      and f: "ics_leaf_prefix pe0 = Some f0" "ics_leaf_prefix pe1 = Some f1"
      and packed: "ep_pack a [converted 1 pe0 f0, converted 0 pe1 f1] = Inr prf"
    unfolding conversion_of_def by blast
  from lib(1,6) verified f have i: "ics_iavl f0 pe0" "ics_tendermint f1 pe1" "ics_key pe0 = string_bytes path"
      "ics_value pe0 = value" "ics_key pe1 = string_bytes ''ibc''" "ics_value pe1 = ics_root f0 pe0"
      "ics_root f1 pe1 = ?root"
    unfolding ics23_checks_def mp by blast+
  have dec: "abi_decode prf = Some [converted 1 pe0 f0, converted 0 pe1 f1]"
    using lib(4) packed by (simp add: abi_agrees_def converted_def proof_spec_def)
  note v0 = ics_iavl_verified [OF lib(2,3) i(1)] and v1 = ics_tendermint_verified [OF lib(2) i(2)]
  have "verifyMembership Sum256 rt abi_decode c ph prf (string_bytes ''ibc'') (string_bytes path) value = Inr True
      \<longleftrightarrow> f1 = [0]"
    using v0 v1 lib(5) i(3-7) c by (simp add: verifyMembership_Inr dec converted_def)
  with q mp f show ?thesis by auto
qed

section \<open>Properties\<close>

text \<open>
  C22: A state the relayer proved is accepted by the contract: if \<open>ProveState\<close> succeeds and the contract
  stores the application hash of the same header at the height of the proof, then \<open>verifyMembership\<close>
  decodes the two proofs, walks both paths to that hash and accepts the path and the value under the
  prefix \<open>ibc\<close>, exactly if the leaf prefix of the store's proof is the one byte 0; ics23 only asks
  that it starts with 0.
\<close>

theorem proved_state_accepted:
  assumes prove: "ProveState a lib ch h path value = Inr (prf, ph)"
    and header: "header_at ch (sint (RevisionHeight h)) = Inr hdr" "length (slice (hAppHash hdr)) = 32"
    and lib: "ics23_checks lib" "runtime_ok rt" "runtime_reads rt" "abi_agrees a abi_decode" "length path < 2 ^ 64"
      "CHR ''%'' \<notin> set path"
    and c: "RevisionNumber ph = revisionNumber c"
      "cAppHash (cConsensusStates c (RevisionHeight ph)) = slice (hAppHash hdr)"
  shows "\<exists>bs pe0 pe1. QueryTendermintProof lib (sint (RevisionHeight h)) (string_bytes path) = Inr (value, bs, ph)
    \<and> UnmarshalMerkleProof lib bs = Inr [Exist pe0, Exist pe1]
    \<and> (verifyMembership Sum256 rt abi_decode c ph prf (string_bytes ''ibc'') (string_bytes path) value = Inr True
       \<longleftrightarrow> ics_leaf_prefix pe1 = Some [0])"
  by (rule proved_state_verified [OF assms])

text \<open>A runtime with the documented encoding, and a chain with a state in its store.\<close>

definition example_runtime :: proto_runtime where
  "example_runtime =
     \<lparr>sz_varint = (\<lambda>v. sov (word_of_nat v)),
      encode_varint = (\<lambda>v p bs. copy_at bs (p - 32) (uvarint (word_of_nat v))),
      decode_varint = (\<lambda>p bs. case read_varint bs (p - 32) 0 (0 :: 64 word) of
         Inl e \<Rightarrow> None | Inr (v, j) \<Rightarrow> Some (unat v, j - (p - 32)))\<rparr>"

lemma example_runtime_ok: "runtime_ok example_runtime"
  by (simp add: runtime_ok_def example_runtime_def copy_at_def read_varint_0 length_uvarint)

definition stored_pe :: ics_existence where
  "stored_pe = \<lparr>ics_key = string_bytes ''connections/0'', ics_value = [2], ics_leaf_prefix = Some [0, 2, 44],
     ics_path = [([2, 4, 44, 32], 32 # replicate 32 7)]\<rparr>"

definition store_pe :: ics_existence where
  "store_pe = \<lparr>ics_key = string_bytes ''ibc'', ics_value = ics_root [0, 2, 44] stored_pe, ics_leaf_prefix = Some [0],
     ics_path = [([1], replicate 32 9)]\<rparr>"

definition stored_pair :: "ExistenceProof list" where
  "stored_pair = [converted 1 stored_pe [0, 2, 44], converted 0 store_pe [0]]"

definition stored_abi :: existence_abi where
  "stored_abi = \<lparr>ep_pack = (\<lambda>ps. if ps = stored_pair then Inr [1] else Inl ''size''), ep_unpack = (\<lambda>bs. Inl ''no'')\<rparr>"

definition stored_lib :: state_lib where
  "stored_lib =
     \<lparr>VerifyMembership = (\<lambda>root path value mp.
        if root = ics_root [0] store_pe \<and> path = [''ibc'', ''connections/0''] \<and> value = [2]
           \<and> mp = [Exist stored_pe, Exist store_pe] then Inr () else Inl ''no''),
      QueryTendermintProof = (\<lambda>h path. Inr ([2], [9], \<lparr>RevisionNumber = 0, RevisionHeight = 5\<rparr>)),
      UnmarshalMerkleProof = (\<lambda>bs. Inr [Exist stored_pe, Exist store_pe])\<rparr>"

definition stored_chain :: "(nat, bytes) chain" where
  "stored_chain = \<lparr>header_at = (\<lambda>h. Inr (example_header\<lparr>hAppHash := Some (ics_root [0] store_pe)\<rparr>)), Hash = (\<lambda>h. [])\<rparr>"

definition stored_contract :: contract where
  "stored_contract = (new_contract 1 2 0)\<lparr>cConsensusStates := \<lambda>h.
     \<lparr>cBlockHash = replicate 32 5, cAppHash = ics_root [0] store_pe, cTimestamp = 1\<rparr>\<rparr>"

text \<open>It also reads the longer varints.\<close>

lemma join_group:
  assumes "unat acc < 2 ^ s" and "unat acc + k * 2 ^ s < 2 ^ 64"
  shows "acc OR push_bit s (word_of_nat k) = (word_of_nat (unat acc + k * 2 ^ s) :: uint64)"
proof -
  have "\<not> bit acc n \<or> \<not> bit (push_bit s (word_of_nat k :: uint64)) n" for n
  proof (cases "n < s")
    case False
    have "acc = take_bit s acc" using assms(1) by (simp add: word_unat_eq_iff unsigned_take_bit_eq take_bit_nat_eq_self)
    with False have "\<not> bit acc n" by (metis bit_take_bit_iff)
    then show ?thesis ..
  qed (simp add: bit_push_bit_iff)
  then have "acc OR push_bit s (word_of_nat k) = acc + push_bit s (word_of_nat k)"
    by (rule disjunctive_add [symmetric])
  also have "\<dots> = word_of_nat (unat acc + k * 2 ^ s)" by (simp add: push_bit_eq_mult)
  finally show ?thesis .
qed

lemma byte_group: "(ucast (b AND 0x7F) :: uint64) = word_of_nat (unat b mod 128)" for b :: byte
proof -
  have "b AND 0x7F = take_bit 7 b" by (simp add: take_bit_eq_mask mask_numeral)
  then have "unat (b AND 0x7F) = take_bit 7 (unat b)" by (simp only: unsigned_take_bit_eq)
  then have m: "unat (b AND 0x7F) = unat b mod 128" by (simp add: take_bit_eq_mod)
  have "(ucast (b AND 0x7F) :: uint64) = word_of_nat (unat (b AND 0x7F))"
    by (rule bit_word_eqI) (simp add: bit_simps)
  then show ?thesis unfolding m .
qed

lemma read_varint_bytes:
  assumes "varint_bytes n e" and "drop i d = e @ rest" and "s + 7 * (length e - 1) < 64"
    and "unat acc < 2 ^ s" and "unat acc + n * 2 ^ s < 2 ^ 64"
  shows "read_varint d i s (acc :: uint64) = Inr (word_of_nat (unat acc + n * 2 ^ s), i + length e)"
  using assms
proof (induction n e arbitrary: i s acc rule: varint_bytes.induct)
  case (2 n b)
  then have i: "i < length d" "d ! i = b" by (auto dest: nth_of_drop)
  have "b < 0x80" "n = unat b mod 128"
    using "2.prems"(1) by (simp_all add: word_less_nat_alt)
  with "2.prems" i join_group [of acc s n] show ?case
    by (subst read_varint.simps) (simp add: Let_def byte_group)
next
  case (3 n b c bs)
  then have i: "i < length d" "d ! i = b" by (auto dest: nth_of_drop)
  have b: "\<not> b < 0x80" "n mod 128 = unat b mod 128"
    using "3.prems"(1) by (simp_all add: word_less_nat_alt)
  let ?acc = "unat acc + n mod 128 * 2 ^ s"
  have n: "?acc + n div 128 * 2 ^ (s + 7) = unat acc + n * 2 ^ s"
    using div_mult_mod_eq [of n 128] by (simp add: power_add algebra_simps flip: distrib_left)
  have small: "?acc < 2 ^ (s + 7)"
  proof -
    have "n mod 128 * 2 ^ s \<le> 127 * 2 ^ s" by (rule mult_right_mono) simp_all
    moreover have "(2 :: nat) ^ (s + 7) = 128 * 2 ^ s" by (simp add: power_add)
    ultimately show ?thesis using "3.prems"(4) by linarith
  qed
  have acc: "acc OR push_bit s (ucast (b AND 0x7F)) = word_of_nat ?acc"
    unfolding byte_group b(2) [symmetric]
    by (rule join_group [OF "3.prems"(4)]) (use "3.prems"(5) n in linarith)
  have unat: "unat (word_of_nat ?acc :: uint64) = ?acc"
    by (rule unat_of_nat_64) (use "3.prems"(5) n in linarith)
  have "drop (i + 1) d = (c # bs) @ rest"
    using drop_add_append [of i d "[b]"] "3.prems"(2) by simp
  with "3.IH" [of "i + 1" "s + 7" "word_of_nat ?acc"] "3.prems"(1,3,5) small n
  have "read_varint d (i + 1) (s + 7) (word_of_nat ?acc :: uint64) = Inr (word_of_nat (unat acc + n * 2 ^ s), i + 1 + length (c # bs))"
    unfolding unat by simp
  then show ?case
    using i b(1) "3.prems"(3) by (subst read_varint.simps) (simp add: Let_def acc)
qed simp

lemma example_runtime_reads: "runtime_reads example_runtime"
proof -
  have "read_varint (pre @ e @ post) (length pre) 0 (0 :: uint64) = Inr (v, length pre + length e)" if "go_varint v e" for v e pre post
  proof -
    from that have "varint_bytes (unat v) e" "7 * (length e - 1) < 64" by (auto simp: go_varint_def)
    with read_varint_bytes [of "unat v" e "length pre" "pre @ e @ post" post 0 0] unsigned_less [of v, where 'a = nat]
    show ?thesis by simp
  qed
  then show ?thesis by (simp add: runtime_reads_def example_runtime_def)
qed

lemma go_varint_uvarint: "go_varint v (uvarint v)"
proof -
  have "varint_bytes (unat v) (uvarint v)"
  proof (induction v rule: uvarint.induct)
    case (1 v)
    show ?case
    proof (cases "0x80 \<le> v")
      case True
      obtain c bs where "uvarint (drop_bit 7 v) = c # bs" by (cases "uvarint (drop_bit 7 v)") simp_all
      let ?b = "ucast (v AND 0x7F OR 0x80) :: byte"
      have "v AND 0x7F = take_bit 7 v" by (simp add: take_bit_eq_mask mask_numeral)
      then have "unat (v AND 0x7F) = take_bit 7 (unat v)" by (simp only: unsigned_take_bit_eq)
      then have "unat (v AND 0x7F) = unat v mod 128" by (simp add: take_bit_eq_mod)
      moreover have "(word_of_nat (unat ?b mod 128) :: uint64) = v AND 0x7F"
        using low_group [of v, where 'w = 64] byte_group [of ?b] by simp
      then have "unat (word_of_nat (unat ?b mod 128) :: uint64) = unat (v AND 0x7F)" by simp
      moreover have "unat (word_of_nat (unat ?b mod 128) :: uint64) = unat ?b mod 128"
        by (rule unat_of_nat_64) (rule less_trans [OF mod_less_divisor], simp_all)
      moreover have "128 \<le> unat ?b" using continuation_byte [of v] by (simp add: word_less_nat_alt)
      ultimately show ?thesis
        using 1 True \<open>uvarint (drop_bit 7 v) = c # bs\<close> by (simp add: uvarint_big unat_drop_7)
    next
      case False
      then have v: "unat v < 128" by (simp add: word_le_nat_alt)
      then have "unat (ucast v :: byte) = unat v" by (simp add: unsigned_ucast_eq take_bit_nat_eq_self)
      with False v show ?thesis by (simp add: uvarint_small)
    qed
  qed
  then show ?thesis using sov_le [of v] by (simp add: go_varint_def length_uvarint)
qed

lemma iavl_op_prefix:
  "unat h < 2 ^ 63 \<Longrightarrow> n \<le> unat h \<Longrightarrow> length rest \<in> (if n = 0 then {0} else {1, 34}) \<Longrightarrow> iavl_op n (iavl_prefix h k v @ rest)"
  unfolding iavl_op_def iavl_prefix_def append_assoc using go_varint_uvarint by blast

lemma stored_formats: "ics_iavl [0, 2, 44] stored_pe" "ics_tendermint [0] store_pe"
proof -
  have "iavl_op 0 [0, 2, 44]"
    using iavl_op_prefix [of 0 0 "[]" 1 22] by (simp add: iavl_prefix_def uvarint_small)
  moreover have "iavl_op 1 [2, 4, 44, 32]"
    using iavl_op_prefix [of 1 1 "[32]" 2 22] by (simp add: iavl_prefix_def uvarint_small)
  ultimately show "ics_iavl [0, 2, 44] stored_pe"
    by (simp add: ics_iavl_def stored_pe_def)
qed (simp add: ics_tendermint_def store_pe_def)

lemma stored_checks: "ics23_checks stored_lib"
  using stored_formats
  by (auto simp: ics23_checks_def stored_lib_def stored_pe_def store_pe_def split: if_splits)

lemma stored_abi_agrees: "abi_agrees stored_abi (\<lambda>bs. if bs = [1] then Some stored_pair else None)"
  by (simp add: abi_agrees_def stored_abi_def)

lemma stored_header:
  "header_at stored_chain h = Inr (example_header\<lparr>hAppHash := Some (ics_root [0] store_pe)\<rparr>)"
  "length (slice (hAppHash (example_header\<lparr>hAppHash := Some (ics_root [0] store_pe)\<rparr>))) = 32"
  by (simp_all add: stored_chain_def slice_def ics_root_def store_pe_def)

lemma stored_proved:
  "ProveState stored_abi stored_lib stored_chain \<lparr>RevisionNumber = 0, RevisionHeight = 5\<rparr> ''connections/0'' [2] =
     Inr ([1], \<lparr>RevisionNumber = 0, RevisionHeight = 5\<rparr>)"
proof -
  have "conversion_of stored_abi stored_lib (ics_root [0] store_pe) ''connections/0'' [2] [Exist stored_pe, Exist store_pe] [1]"
    unfolding conversion_of_def
    by (rule exI [of _ stored_pe], rule exI [of _ store_pe])
      (simp add: stored_lib_def stored_abi_def stored_pair_def stored_pe_def store_pe_def)
  then show ?thesis
    unfolding ProveState_Inr [OF stored_header] by (simp add: stored_lib_def slice_def)
qed

theorem proved_state_accepted_witness:
  "verifyMembership Sum256 example_runtime (\<lambda>bs. if bs = [1] then Some stored_pair else None) stored_contract
     \<lparr>RevisionNumber = 0, RevisionHeight = 5\<rparr> [1] (string_bytes ''ibc'') (string_bytes ''connections/0'') [2] = Inr True"
proof -
  have "ics_leaf_prefix store_pe = Some [0]" by (simp add: store_pe_def)
  with proved_state_accepted [OF stored_proved stored_header stored_checks example_runtime_ok example_runtime_reads stored_abi_agrees,
      of stored_contract]
  show ?thesis by (simp add: stored_contract_def new_contract_def slice_def stored_lib_def)
qed

text \<open>The byte strings that are hashed when a proof is checked for a prefix, a path and a value.\<close>

definition member_strings ::
    "hash_fun \<Rightarrow> proto_runtime \<Rightarrow> ExistenceProof list \<Rightarrow> bytes \<Rightarrow> bytes \<Rightarrow> bytes \<Rightarrow> bytes list" where
  "member_strings H rt ps prefix path value =
     (let e0 = ps ! 0; e1 = ps ! 1; l0 = leaf_data rt H (Prefix e0) path value;
          r = chain_root H (H l0) (Path e0); l1 = leaf_data rt H (Prefix e1) prefix r
      in [value, l0] @ chain_strings H (H l0) (Path e0) @ [r, l1] @ chain_strings H (H l1) (Path e1))"

text \<open>
  One proof convinces the contract of one state: if the hash has no collision among the strings
  that are hashed, a proof that is accepted at a height for two prefixes, paths and values is
  accepted for one only. The contract takes the path and the value from its caller, not from the proof.
\<close>

theorem membership_binding:
  assumes H: "\<forall>x. length (H x) = 32" and rt: "runtime_ok rt"
    and dec: "abi_decode prf = Some ps"
    and inj: "inj_on H (set (member_strings H rt ps prefix path value @ member_strings H rt ps prefix' path' value'))"
    and len: "length prefix < 2 ^ 64" "length prefix' < 2 ^ 64" "length path < 2 ^ 64" "length path' < 2 ^ 64"
    and acc: "verifyMembership H rt abi_decode c height prf prefix path value = Inr True"
      "verifyMembership H rt abi_decode c height prf prefix' path' value' = Inr True"
  shows "prefix = prefix' \<and> path = path' \<and> value = value'"
proof -
  define e0 e1 where "e0 = ps ! 0" and "e1 = ps ! 1"
  define l0 where "l0 = (\<lambda>path value. leaf_data rt H (Prefix e0) path value)"
  define r where "r = (\<lambda>path value. chain_root H (H (l0 path value)) (Path e0))"
  define l1 where "l1 = (\<lambda>prefix path value. leaf_data rt H (Prefix e1) prefix (r path value))"
  have ms: "member_strings H rt ps p k v = [v, l0 k v] @ chain_strings H (H (l0 k v)) (Path e0)
      @ [r k v, l1 p k v] @ chain_strings H (H (l1 p k v)) (Path e1)" for p k v
    by (simp add: member_strings_def Let_def e0_def e1_def l0_def l1_def r_def)
  have eq: "x = y" if "H x = H y" "x \<in> set (member_strings H rt ps prefix path value)"
    "y \<in> set (member_strings H rt ps prefix' path' value')" for x y
    by (rule inj_onD [OF inj that(1)]) (simp_all add: that(2,3))
  have sub: "inj_on H (set (xs @ ys))" if "set xs \<subseteq> set (member_strings H rt ps prefix path value)"
    "set ys \<subseteq> set (member_strings H rt ps prefix' path' value')" for xs ys
    by (rule inj_on_subset [OF inj]) (use that in auto)
  from acc have "chain_root H (H (l1 prefix path value)) (Path e1) = chain_root H (H (l1 prefix' path' value')) (Path e1)"
    by (auto simp: verifyMembership_Inr dec verifyMembershipIAVLSpec_Inr verifyMembershipTendermintSpec_Inr
        l0_def l1_def r_def e0_def e1_def)
  then have "H (l1 prefix path value) = H (l1 prefix' path' value')"
    by (rule chain_root_inj [rotated]) (rule sub; auto simp: ms)
  then have "l1 prefix path value = l1 prefix' path' value'"
    by (rule eq) (simp_all add: ms)
  then have p: "prefix = prefix'" and "H (r path value) = H (r path' value')"
    using leaf_data_inj [OF rt H len(1,2)] unfolding l1_def by blast+
  from this(2) have "r path value = r path' value'"
    by (rule eq) (simp_all add: ms)
  then have "chain_root H (H (l0 path value)) (Path e0) = chain_root H (H (l0 path' value')) (Path e0)"
    by (simp add: r_def)
  then have "H (l0 path value) = H (l0 path' value')"
    by (rule chain_root_inj [rotated]) (rule sub; auto simp: ms)
  then have "l0 path value = l0 path' value'"
    by (rule eq) (simp_all add: ms)
  then have k: "path = path'" and "H value = H value'"
    using leaf_data_inj [OF rt H len(3,4)] unfolding l0_def by blast+
  from this(2) have "value = value'" by (rule eq) (simp_all add: ms)
  with p k show ?thesis by simp
qed

text \<open>A proof under the toy hash, and the root it leads to.\<close>

definition toy_proof :: "ExistenceProof list" where
  "toy_proof = [\<lparr>Spec = 1, Prefix = [0, 2, 44], Key = [], Value = [], Path = [([2, 4, 44, 32], 32 # replicate 32 7)]\<rparr>,
     \<lparr>Spec = 0, Prefix = [0], Key = [], Value = [], Path = [([1], replicate 32 9)]\<rparr>]"

definition toy_contract :: contract where
  "toy_contract = (new_contract 1 2 0)\<lparr>cConsensusStates := \<lambda>h. \<lparr>cBlockHash = replicate 32 5,
     cAppHash = toy_hash (last (member_strings toy_hash example_runtime toy_proof [3] [4] [0, 1])), cTimestamp = 1\<rparr>\<rparr>"

lemma toy_member_distinct:
  "distinct (map toy_hash (remdups (member_strings toy_hash example_runtime toy_proof [3] [4] [0, 1]
     @ member_strings toy_hash example_runtime toy_proof [3] [4] [0, 2])))"
  by code_simp

lemma toy_accepted:
  "verifyMembership toy_hash example_runtime (\<lambda>bs. Some toy_proof) toy_contract \<lparr>RevisionNumber = 0, RevisionHeight = 5\<rparr> []
     [3] [4] [0, 1] = Inr True"
  by code_simp

theorem membership_binding_witness:
  "verifyMembership toy_hash example_runtime (\<lambda>bs. Some toy_proof) toy_contract \<lparr>RevisionNumber = 0, RevisionHeight = 5\<rparr> []
     [3] [4] [0, 2] \<noteq> Inr True"
proof
  let ?ms = "\<lambda>v. member_strings toy_hash example_runtime toy_proof [3] [4] [0, v]"
  assume other: "verifyMembership toy_hash example_runtime (\<lambda>bs. Some toy_proof) toy_contract
    \<lparr>RevisionNumber = 0, RevisionHeight = 5\<rparr> [] [3] [4] [0, 2] = Inr True"
  have "inj_on toy_hash (set (?ms 1 @ ?ms 2))"
    using toy_member_distinct by (simp only: distinct_map set_remdups)
  then have "[0, 1 :: byte] = [0, 2]"
    using membership_binding [OF _ example_runtime_ok refl _ _ _ _ _ toy_accepted other] length_toy_hash by simp
  then show False by simp
qed

text \<open>
  C32: The relayer and the contract number the proof formats differently: a proof of the simple tree has
  number 0, which is no format in the contract, and a proof of the IAVL tree the number of the simple
  tree. The verifier of the library that goes by the number refuses both proofs of every state; the
  light client accepts them because it does not look at the number.
\<close>

theorem relayer_spec_refused:
  assumes "buildExistenceProofIAVL pe0 = Inr p0" and "buildExistenceProofSimpleTree pe1 = Inr p1"
    and "iavl_op 0 (Prefix p0)"
  shows "spec_verifyMembership H rt p0 = Inl TendermintSpecInvalidProof
    \<and> spec_verifyMembership H rt p1 = Inl UnsupportedProofSpec"
proof -
  have "3 \<le> length (Prefix p0)" by (rule iavl_op_length [OF assms(3)])
  moreover from assms(1,2) have "Spec p0 = 1" "Spec p1 = 0"
    by (auto simp: build_eq converted_def IAVLSpec_def SimpleTree_def split: option.splits)
  ultimately show ?thesis
    by (auto simp: spec_verifyMembership_def proof_spec_def verifyMembershipTendermintSpec_def)
qed

theorem relayer_spec_refused_witness:
  "spec_verifyMembership Sum256 example_runtime (converted 1 stored_pe [0, 2, 44]) = Inl TendermintSpecInvalidProof
    \<and> spec_verifyMembership Sum256 example_runtime (converted 0 store_pe [0]) = Inl UnsupportedProofSpec"
proof (rule relayer_spec_refused)
  show "buildExistenceProofIAVL stored_pe = Inr (converted 1 stored_pe [0, 2, 44])"
    by (simp add: build_eq IAVLSpec_def stored_pe_def)
  show "buildExistenceProofSimpleTree store_pe = Inr (converted 0 store_pe [0])"
    by (simp add: build_eq SimpleTree_def store_pe_def)
  show "iavl_op 0 (Prefix (converted 1 stored_pe [0, 2, 44]))"
    using stored_formats(1) by (simp add: ics_iavl_def converted_def)
qed

end
