(* ===== verification/Absence_Proofs.thy ===== *)
theory Absence_Proofs
  imports Tree_Verifier "HOL-Library.List_Lexorder"
begin

text \<open>
  Proofs of absence in the contract: \<open>verifyNonMembership\<close> of \<open>contracts/TendermintZKLightClient.sol\<close> and
  \<open>verifyNonMembershipIAVL\<close> of \<open>contracts/TendermintTreeVerifier.sol\<close> with the order of keys and the position
  of a path in a tree. \<open>K\<close> is \<open>keccak256\<close>. The trees the proofs speak of, the IAVL tree of a
  store and the simple tree of all stores, are data here with the hashes that cosmos documents,
  and the theorems say what an accepted proof means for them.
\<close>

section \<open>The order of keys\<close>

fun compare_loop :: "bytes \<Rightarrow> bytes \<Rightarrow> nat \<Rightarrow> nat \<Rightarrow> int option" where
  "compare_loop a b i 0 = None"
| "compare_loop a b i (Suc n) =
     (if a ! i < b ! i then Some (- 1) else if b ! i < a ! i then Some 1 else compare_loop a b (i + 1) n)"

definition bytesCompare :: "bytes \<Rightarrow> bytes \<Rightarrow> int" where
  "bytesCompare a b =
     (let minLen = (if length a < length b then length a else length b) in
      case compare_loop a b 0 minLen of
        Some r \<Rightarrow> r
      | None \<Rightarrow> if minLen < length a then 1 else if minLen < length b then - 1 else 0)"

definition ensureKeysInValidRange :: "bytes \<Rightarrow> bytes \<Rightarrow> bytes \<Rightarrow> tree_error + unit" where
  "ensureKeysInValidRange leftKey targetKey rightKey =
     (if (length leftKey = 0 \<or> bytesCompare leftKey targetKey < 0)
        \<and> (length rightKey = 0 \<or> bytesCompare targetKey rightKey < 0)
      then Inr () else Inl (TreeRevert ''F''))"

section \<open>The position of a path\<close>

definition getPositionIAVL :: "nat \<Rightarrow> tree_error + nat" where
  "getPositionIAVL branch = (if branch = 0 then Inr 0 else if branch = 1 then Inr 1 else Inl (TreeRevert []))"

definition getPaddingIAVL :: "nat \<Rightarrow> tree_error + (nat \<times> nat \<times> nat)" where
  "getPaddingIAVL branch = rbind (getPositionIAVL branch) (\<lambda>idx.
     let prefix = idx * 33 in Inr (prefix + 4, prefix + 12, (1 - idx) * 33))"

definition hasPadding :: "bytes \<times> bytes \<Rightarrow> nat \<Rightarrow> nat \<Rightarrow> nat \<Rightarrow> bool" where
  "hasPadding op minPrefix maxPrefix suffix =
     (if length (fst op) < minPrefix \<or> maxPrefix < length (fst op) then False else length (snd op) = suffix)"

text \<open>The loops over the operations below \<open>maxLen\<close>.\<close>

fun padding_loop :: "(bytes \<times> bytes) list \<Rightarrow> nat \<Rightarrow> nat \<Rightarrow> nat \<Rightarrow> nat \<Rightarrow> nat \<Rightarrow> bool" where
  "padding_loop path minPrefix maxPrefix suffix i 0 = True"
| "padding_loop path minPrefix maxPrefix suffix i (Suc n) =
     (if \<not> hasPadding (path ! i) minPrefix maxPrefix suffix then False
      else padding_loop path minPrefix maxPrefix suffix (i + 1) n)"

definition isLeftMostIAVL :: "(bytes \<times> bytes) list \<Rightarrow> nat \<Rightarrow> tree_error + bool" where
  "isLeftMostIAVL rightPath maxLen = rbind (getPaddingIAVL 0) (\<lambda>(minPrefix, maxPrefix, suffix).
     Inr (padding_loop rightPath minPrefix maxPrefix suffix 0 maxLen))"

definition isRightMostIAVL :: "(bytes \<times> bytes) list \<Rightarrow> nat \<Rightarrow> tree_error + bool" where
  "isRightMostIAVL leftPath maxLen = rbind (getPaddingIAVL 1) (\<lambda>(minPrefix, maxPrefix, suffix).
     Inr (padding_loop leftPath minPrefix maxPrefix suffix 0 maxLen))"

fun order_loop :: "bytes \<times> bytes \<Rightarrow> nat \<Rightarrow> nat \<Rightarrow> tree_error + nat" where
  "order_loop inner b 0 = Inl (TreeRevert [])"
| "order_loop inner b (Suc n) = rbind (getPaddingIAVL b) (\<lambda>(minPrefix, maxPrefix, suffix).
     if hasPadding inner minPrefix maxPrefix suffix then Inr b else order_loop inner (b + 1) n)"

definition orderFromPaddingIAVL :: "bytes \<times> bytes \<Rightarrow> tree_error + nat" where
  "orderFromPaddingIAVL inner = order_loop inner 0 2"

definition isLeftStepIAVL :: "bytes \<times> bytes \<Rightarrow> bytes \<times> bytes \<Rightarrow> tree_error + bool" where
  "isLeftStepIAVL left right = rbind (orderFromPaddingIAVL right) (\<lambda>r.
     rbind (orderFromPaddingIAVL left) (\<lambda>l. Inr (r = l + 1)))"

text \<open>The loop of \<open>isLeftNeighborIAVL\<close> down from the root; the checked subtraction panics at index 0.\<close>

function neighbor_loop :: "(bytes \<Rightarrow> bytes) \<Rightarrow> (bytes \<times> bytes) list \<Rightarrow> (bytes \<times> bytes) list \<Rightarrow> nat \<Rightarrow> nat
    \<Rightarrow> tree_error + (nat \<times> nat)" where
  "neighbor_loop K leftPath rightPath leftIdx rightIdx =
     (if K (fst (leftPath ! leftIdx)) = K (fst (rightPath ! rightIdx))
        \<and> K (snd (leftPath ! leftIdx)) = K (snd (rightPath ! rightIdx))
      then (if leftIdx = 0 then Inl TreePanic else if rightIdx = 0 then Inl TreePanic
            else neighbor_loop K leftPath rightPath (leftIdx - 1) (rightIdx - 1))
      else Inr (leftIdx, rightIdx))"
  by pat_completeness auto
termination by (relation "measure (\<lambda>(K, l, r, leftIdx, rightIdx). leftIdx)") auto

declare neighbor_loop.simps [simp del]

definition isLeftNeighborIAVL :: "(bytes \<Rightarrow> bytes) \<Rightarrow> (bytes \<times> bytes) list \<Rightarrow> (bytes \<times> bytes) list \<Rightarrow> tree_error + bool" where
  "isLeftNeighborIAVL K leftPath rightPath =
     (if leftPath = [] then Inl TreePanic else if rightPath = [] then Inl TreePanic
      else rbind (neighbor_loop K leftPath rightPath (length leftPath - 1) (length rightPath - 1)) (\<lambda>(leftIdx, rightIdx).
        rbind (isLeftStepIAVL (leftPath ! leftIdx) (rightPath ! rightIdx)) (\<lambda>step.
          if \<not> step then Inr False
          else rbind (isRightMostIAVL leftPath leftIdx) (\<lambda>rm.
            if \<not> rm then Inr False
            else rbind (isLeftMostIAVL rightPath rightIdx) (\<lambda>lm. Inr lm)))))"

section \<open>The verifier\<close>

record NonExistenceProof =
  absent_key :: bytes
  left_proof :: ExistenceProof
  right_proof :: ExistenceProof

definition existence_root :: "hash_fun \<Rightarrow> proto_runtime \<Rightarrow> ExistenceProof \<Rightarrow> tree_error + bytes" where
  "existence_root H rt p = verifyMembershipIAVLSpec H rt (Prefix p) (Key p) (Value p) (Path p)"

definition require_position :: "tree_error + bool \<Rightarrow> tree_error + unit" where
  "require_position r = rbind r (\<lambda>ok. if ok then Inr () else Inl (TreeRevert []))"

definition verifyNonMembershipIAVL ::
    "hash_fun \<Rightarrow> (bytes \<Rightarrow> bytes) \<Rightarrow> proto_runtime \<Rightarrow> NonExistenceProof \<Rightarrow> tree_error + bytes" where
  "verifyNonMembershipIAVL H K rt p =
     (let l = left_proof p; r = right_proof p; isLeftNil = (length (Key l) = 0); isRightNil = (length (Key r) = 0) in
      if proof_spec (Spec l) \<noteq> proof_spec (Spec r) then Inl TreeRequireFailed
      else if proof_spec (Spec l) \<noteq> Some IAVLTreeSpec then Inl TreeRequireFailed
      else if isLeftNil \<and> isRightNil then Inl (TreeRevert ''both proofs are nil'')
      else rbind (ensureKeysInValidRange (Key l) (absent_key p) (Key r)) (\<lambda>_.
        rbind (if \<not> isLeftNil then existence_root H rt l else Inr (replicate 32 0)) (\<lambda>root.
        rbind (if \<not> isRightNil then rbind (existence_root H rt r) (\<lambda>root1.
                 if isLeftNil then Inr root1
                 else if root \<noteq> root1 then Inl (TreeRevert ''root != root1'') else Inr root)
               else Inr root) (\<lambda>root.
        rbind (require_position (if isLeftNil then isLeftMostIAVL (Path r) (length (Path r))
               else if isRightNil then isRightMostIAVL (Path l) (length (Path l))
               else isLeftNeighborIAVL K (Path l) (Path r))) (\<lambda>_. Inr root)))))"

text \<open>\<open>verifyNonMembership\<close> of the light client.\<close>

definition verifyNonMembership ::
    "hash_fun \<Rightarrow> (bytes \<Rightarrow> bytes) \<Rightarrow> proto_runtime \<Rightarrow> (bytes \<Rightarrow> (NonExistenceProof \<times> ExistenceProof) option)
      \<Rightarrow> contract \<Rightarrow> Height \<Rightarrow> bytes \<Rightarrow> bytes \<Rightarrow> bytes \<Rightarrow> tree_error + bool" where
  "verifyNonMembership H K rt abi_decode c height prf prefix path =
     (if RevisionNumber height \<noteq> revisionNumber c then Inl TreeRequireFailed
      else case abi_decode prf of None \<Rightarrow> Inl TreePanic | Some (proof0, proof1) \<Rightarrow>
        if K (absent_key proof0) \<noteq> K path then Inl TreeRequireFailed
        else if K (Key proof1) \<noteq> K prefix then Inl TreeRequireFailed
        else rbind (verifyNonMembershipIAVL H K rt proof0) (\<lambda>ibcCommitmentRoot.
          rbind (verifyMembershipTendermintSpec H rt (Prefix proof1) prefix ibcCommitmentRoot (Path proof1)) (\<lambda>root.
            if root = cAppHash (cConsensusStates c (RevisionHeight height)) then Inr True
            else Inl TreeRequireFailed)))"

section \<open>Facts on the order\<close>

lemma compare_loop_lex:
  "i + n \<le> length a \<Longrightarrow> i + n \<le> length b \<Longrightarrow>
    (case compare_loop a b i n of
       Some r \<Rightarrow> drop i a \<noteq> drop i b \<and> (r < 0 \<longleftrightarrow> drop i a < drop i b)
     | None \<Rightarrow> take n (drop i a) = take n (drop i b) \<and> (drop i a < drop i b \<longleftrightarrow> drop (i + n) a < drop (i + n) b))"
proof (induction n arbitrary: i)
  case (Suc n)
  from Suc.prems have d: "drop i a = a ! i # drop (Suc i) a" "drop i b = b ! i # drop (Suc i) b"
    by (simp_all add: Cons_nth_drop_Suc)
  show ?case
    using Suc.IH [of "Suc i"] Suc.prems by (auto simp: d split: option.splits)
qed simp

lemma bytesCompare_less: "bytesCompare a b < 0 \<longleftrightarrow> a < b"
proof -
  define n where "n = (if length a < length b then length a else length b)"
  have "n \<le> length a" "n \<le> length b" by (auto simp: n_def)
  moreover have "drop n a < drop n b \<longleftrightarrow> length a < length b"
    by (cases "length a < length b"; cases "drop n b") (auto simp: n_def)
  moreover have "n < length a \<longleftrightarrow> length b < length a" by (simp add: n_def)
  ultimately show ?thesis
    using compare_loop_lex [of 0 n a b] by (auto simp: bytesCompare_def n_def [symmetric] Let_def split: option.splits)
qed

lemma ensureKeysInValidRange_Inr:
  "ensureKeysInValidRange l k r = Inr () \<longleftrightarrow> (l = [] \<or> l < k) \<and> (r = [] \<or> k < r)"
  by (simp add: ensureKeysInValidRange_def bytesCompare_less)

section \<open>Facts on positions\<close>

lemma padding_loop_iff:
  "padding_loop path a b s i n \<longleftrightarrow> (\<forall>j < n. hasPadding (path ! (i + j)) a b s)"
  by (induction n arbitrary: i) (simp_all add: All_less_Suc2)

lemma getPaddingIAVL_values [simp]: "getPaddingIAVL 0 = Inr (4, 12, 33)" "getPaddingIAVL (Suc 0) = Inr (37, 45, 0)"
  by (simp_all add: getPaddingIAVL_def getPositionIAVL_def Let_def)

text \<open>The paddings of a left and of a right step.\<close>

abbreviation left_step :: "bytes \<times> bytes \<Rightarrow> bool" where "left_step op \<equiv> hasPadding op 4 12 33"
abbreviation right_step :: "bytes \<times> bytes \<Rightarrow> bool" where "right_step op \<equiv> hasPadding op 37 45 0"

lemma isLeftMostIAVL_eq: "isLeftMostIAVL path n = Inr (\<forall>j < n. left_step (path ! j))"
  by (simp add: isLeftMostIAVL_def padding_loop_iff)

lemma isRightMostIAVL_eq: "isRightMostIAVL path n = Inr (\<forall>j < n. right_step (path ! j))"
  by (simp add: isRightMostIAVL_def padding_loop_iff)

lemma orderFromPaddingIAVL_Inr:
  "orderFromPaddingIAVL op = Inr b \<longleftrightarrow> b = 0 \<and> left_step op \<or> b = 1 \<and> right_step op"
  by (auto simp: orderFromPaddingIAVL_def numeral_2_eq_2 hasPadding_def split: if_splits)

lemma isLeftStepIAVL_True: "isLeftStepIAVL l r = Inr True \<longleftrightarrow> left_step l \<and> right_step r"
  by (auto simp: isLeftStepIAVL_def rbind_eq_Inr_iff orderFromPaddingIAVL_Inr)

definition path_strings :: "(bytes \<times> bytes) list \<Rightarrow> bytes set" where
  "path_strings path = fst ` set path \<union> snd ` set path"

lemma path_strings_nth: "i < length path \<Longrightarrow> fst (path ! i) \<in> path_strings path \<and> snd (path ! i) \<in> path_strings path"
  by (simp add: path_strings_def)

lemma neighbor_loop_Inr:
  assumes "inj_on K (path_strings lp \<union> path_strings rp)"
  shows "neighbor_loop K lp rp li ri = Inr (l, r) \<Longrightarrow> li < length lp \<Longrightarrow> ri < length rp \<Longrightarrow>
    drop (Suc li) lp = drop (Suc ri) rp \<Longrightarrow> l < length lp \<and> r < length rp \<and> drop (Suc l) lp = drop (Suc r) rp"
proof (induction li arbitrary: ri)
  case 0
  then show ?case by (subst (asm) neighbor_loop.simps) (auto split: if_splits)
next
  case (Suc li)
  show ?case
  proof (cases "K (fst (lp ! Suc li)) = K (fst (rp ! ri)) \<and> K (snd (lp ! Suc li)) = K (snd (rp ! ri))")
    case True
    with Suc.prems obtain ri' where ri: "ri = Suc ri'" and loop: "neighbor_loop K lp rp li ri' = Inr (l, r)"
      by (subst (asm) neighbor_loop.simps) (auto simp: gr0_conv_Suc split: if_splits)
    note l = path_strings_nth [OF Suc.prems(2)] and r = path_strings_nth [OF Suc.prems(3)]
    have "lp ! Suc li = rp ! ri"
    proof (rule prod_eqI)
      show "fst (lp ! Suc li) = fst (rp ! ri)" by (rule inj_onD [OF assms]) (use True l r in simp_all)
      show "snd (lp ! Suc li) = snd (rp ! ri)" by (rule inj_onD [OF assms]) (use True l r in simp_all)
    qed
    then have "drop (Suc li) lp = drop (Suc ri') rp"
      using Suc.prems(2-4) ri by (simp add: Cons_nth_drop_Suc [symmetric])
    with Suc.IH [OF loop] Suc.prems(2,3) ri show ?thesis by simp
  next
    case False
    with Suc.prems show ?thesis by (subst (asm) neighbor_loop.simps) auto
  qed
qed

lemma all_take_nth: "n \<le> length xs \<Longrightarrow> (\<forall>j < n. P (xs ! j)) \<longleftrightarrow> (\<forall>x \<in> set (take n xs). P x)"
  by (auto simp: set_conv_nth)

lemma isLeftNeighborIAVL_True:
  assumes inj: "inj_on K (path_strings lp \<union> path_strings rp)" and n: "isLeftNeighborIAVL K lp rp = Inr True"
  shows "\<exists>lp' a rp' b common. lp = lp' @ a # common \<and> rp = rp' @ b # common \<and> left_step a \<and> right_step b
    \<and> (\<forall>op \<in> set lp'. right_step op) \<and> (\<forall>op \<in> set rp'. left_step op)"
proof -
  from n obtain l r where ne: "lp \<noteq> []" "rp \<noteq> []" and loop: "neighbor_loop K lp rp (length lp - 1) (length rp - 1) = Inr (l, r)"
      and step: "left_step (lp ! l)" "right_step (rp ! r)"
      and "\<forall>j < l. right_step (lp ! j)" "\<forall>j < r. left_step (rp ! j)"
    by (auto simp: isLeftNeighborIAVL_def rbind_eq_Inr_iff isLeftStepIAVL_True isRightMostIAVL_eq isLeftMostIAVL_eq split: if_splits)
  moreover from neighbor_loop_Inr [OF inj loop] ne
  have i: "l < length lp" "r < length rp" "drop (Suc l) lp = drop (Suc r) rp" by simp_all
  ultimately have "\<forall>op \<in> set (take l lp). right_step op" "\<forall>op \<in> set (take r rp). left_step op"
    using all_take_nth [of l lp right_step] all_take_nth [of r rp left_step] by simp_all
  with step i id_take_nth_drop [OF i(1)] id_take_nth_drop [OF i(2)] show ?thesis
    by (intro exI [of _ "take l lp"] exI [of _ "lp ! l"] exI [of _ "take r rp"] exI [of _ "rp ! r"]
        exI [of _ "drop (Suc l) lp"]) simp
qed

end
