(* ===== verification/Proof_Soundness.thy ===== *)
theory Proof_Soundness
  imports Absence_Proofs
begin

text \<open>
  What accepted proofs say of the Tendermint chain's state. The state is a simple tree of stores, each
  an IAVL tree, with the hashes that CometBFT and cosmos document; the application hash is the hash of the
  simple tree. The locale \<open>hashed_tree\<close> is what the two formats share: a path that leads to the hash
  of a tree leads down it.
\<close>

section \<open>Trees\<close>

text \<open>The way down a tree: \<open>True\<close> is right.\<close>

fun descend :: "(bool \<Rightarrow> 't \<Rightarrow> 't option) \<Rightarrow> bool list \<Rightarrow> 't \<Rightarrow> 't option" where
  "descend child [] t = Some t"
| "descend child (d # ds) t = (case child d t of None \<Rightarrow> None | Some t' \<Rightarrow> descend child ds t')"

lemma descend_append:
  "descend child (ds @ ds') t = (case descend child ds t of None \<Rightarrow> None | Some t' \<Rightarrow> descend child ds' t')"
  by (induction ds arbitrary: t) (auto split: option.splits)

text \<open>Everything that is hashed on the way of a proof whose leaf is \<open>x\<close>.\<close>

definition proof_hashed :: "hash_fun \<Rightarrow> bytes \<Rightarrow> (bytes \<times> bytes) list \<Rightarrow> bytes list" where
  "proof_hashed H x path = x # chain_strings H (H x) path"

lemma chain_root_snoc: "chain_root H h (path @ [op]) = H (fst op @ chain_root H h path @ snd op)"
  by (induction path arbitrary: h) simp_all

lemma chain_strings_snoc:
  "chain_strings H h (path @ [op]) = chain_strings H h path @ [fst op @ chain_root H h path @ snd op]"
  by (induction path arbitrary: h) simp_all

lemma chain_root_hashed: "\<exists>y \<in> set (proof_hashed H x path). chain_root H (H x) path = H y"
  by (cases path rule: rev_cases)
    (auto simp: proof_hashed_def chain_root_snoc chain_strings_snoc)

lemma proof_hashed_snoc:
  "proof_hashed H x (path @ [op]) = proof_hashed H x path @ [fst op @ chain_root H (H x) path @ snd op]"
  by (simp add: proof_hashed_def chain_strings_snoc)

text \<open>
  A tree whose nodes are hashed: \<open>node_string\<close> is what is hashed for a node, \<open>hashed\<close> all that is hashed in
  the tree, \<open>op_ok\<close> what a verifier checks of an operation and \<open>right\<close> which child it takes to come from. The
  last law allows that an operation opens a leaf, if the child it comes from is the hash of a short value.
\<close>

locale hashed_tree =
  fixes H :: hash_fun
    and child :: "bool \<Rightarrow> 't \<Rightarrow> 't option"
    and node_string :: "'t \<Rightarrow> bytes"
    and hashed :: "'t \<Rightarrow> bytes list"
    and good :: "'t \<Rightarrow> bool"
    and op_ok :: "bytes \<times> bytes \<Rightarrow> bool"
    and right :: "bytes \<times> bytes \<Rightarrow> bool"
  assumes H_length: "length (H x) = 32"
    and string_hashed: "node_string t \<in> set (hashed t)"
    and child_hashed: "child d t = Some t' \<Longrightarrow> set (hashed t') \<subseteq> set (hashed t)"
    and child_good: "child d t = Some t' \<Longrightarrow> good t \<Longrightarrow> good t'"
    and op_prefix: "op_ok op \<Longrightarrow> fst op \<noteq> []"
    and opens: "good t \<Longrightarrow> op_ok op \<Longrightarrow> length c = 32 \<Longrightarrow> fst op @ c @ snd op = node_string t \<Longrightarrow>
      (\<exists>t'. child (right op) t = Some t' \<and> c = H (node_string t'))
      \<or> (\<exists>v \<in> set (hashed t). length v \<le> 32 \<and> c = H v)"
begin

lemma chain_length: "length (chain_root H (H x) path) = 32"
  by (cases path rule: rev_cases) (simp_all add: chain_root_snoc H_length)

lemma hashed_long:
  "\<forall>op \<in> set path. op_ok op \<Longrightarrow> 32 < length x \<Longrightarrow> y \<in> set (proof_hashed H x path) \<Longrightarrow> 32 < length y"
proof (induction path rule: rev_induct)
  case (snoc op path)
  then have "fst op \<noteq> []" by (auto dest: op_prefix)
  with snoc show ?case
    by (auto simp: proof_hashed_snoc chain_length)
qed (simp add: proof_hashed_def)

lemma hashed_descend: "descend child ds t = Some t' \<Longrightarrow> set (hashed t') \<subseteq> set (hashed t)"
  by (induction ds arbitrary: t) (auto split: option.splits dest!: child_hashed)

lemma good_descend: "descend child ds t = Some t' \<Longrightarrow> good t \<Longrightarrow> good t'"
  by (induction ds arbitrary: t) (auto split: option.splits dest: child_good)

theorem path_descends:
  assumes "good t" and "\<forall>op \<in> set path. op_ok op" and "32 < length x"
    and "inj_on H (set (proof_hashed H x path) \<union> set (hashed t))"
    and "chain_root H (H x) path = H (node_string t)"
  shows "\<exists>t'. descend child (rev (map right path)) t = Some t' \<and> x = node_string t'"
  using assms
proof (induction path arbitrary: t rule: rev_induct)
  case Nil
  then have "x = node_string t"
    using string_hashed [of t] by (auto simp: proof_hashed_def dest: inj_onD)
  then show ?case by simp
next
  case (snoc op path)
  let ?c = "chain_root H (H x) path"
  have "fst op @ ?c @ snd op = node_string t"
    using snoc.prems(4,5) string_hashed [of t] by (auto simp: chain_root_snoc proof_hashed_snoc dest: inj_onD)
  then consider t' where "child (right op) t = Some t'" "?c = H (node_string t')"
    | v where "v \<in> set (hashed t)" "length v \<le> 32" "?c = H v"
    using opens [OF snoc.prems(1), of op ?c] snoc.prems(2) chain_length by auto
  then show ?case
  proof cases
    case 1
    have "inj_on H (set (proof_hashed H x path) \<union> set (hashed t'))"
      using snoc.prems(4) child_hashed [OF 1(1)] by (elim inj_on_subset) (auto simp: proof_hashed_snoc)
    from snoc.IH [OF child_good [OF 1(1) snoc.prems(1)] _ snoc.prems(3) this 1(2)] snoc.prems(2) 1(1)
    show ?thesis by auto
  next
    case 2
    obtain y where y: "y \<in> set (proof_hashed H x path)" "?c = H y" using chain_root_hashed by blast
    with 2 snoc.prems(4) have "y = v" by (auto simp: proof_hashed_snoc dest: inj_onD)
    with 2(2) hashed_long [of path x y] y(1) snoc.prems(2,3) show ?thesis by auto
  qed
qed

end

section \<open>Varints as they are read\<close>

text \<open>
  The runtime's documented way to read: a varint ends with its first byte without the top bit, and one that
  does not end before the bytes do is refused.
\<close>

definition varint_span :: "bytes \<Rightarrow> nat" where
  "varint_span bs = Suc (length (takeWhile (\<lambda>b. 0x80 \<le> b) bs))"

definition runtime_spans :: "proto_runtime \<Rightarrow> bool" where
  "runtime_spans rt \<longleftrightarrow> (\<forall>pre bs v n. decode_varint rt (32 + length pre) (pre @ bs) = Some (v, n) \<longrightarrow>
     n = varint_span bs \<and> n \<le> length bs)"

lemma takeWhile_less: "length (takeWhile P bs) < length bs \<Longrightarrow> takeWhile P (bs @ xs) = takeWhile P bs"
  by (induction bs) auto

lemma varint_span_append: "varint_span bs \<le> length bs \<Longrightarrow> varint_span (bs @ xs) = varint_span bs"
  by (simp add: varint_span_def takeWhile_less)

lemma varint_span_uvarint: "varint_span (uvarint v @ xs) = length (uvarint v)"
proof (induction v rule: uvarint.induct)
  case (1 v)
  show ?case
  proof (cases "0x80 \<le> v")
    case True
    with 1 continuation_byte [of v] show ?thesis by (simp add: uvarint_big varint_span_def not_less)
  next
    case False
    then have "(ucast v :: byte) < 0x80"
      by (simp add: word_less_nat_alt unsigned_ucast_eq take_bit_nat_eq_self not_le)
    with False show ?thesis by (simp add: uvarint_small varint_span_def not_le [symmetric])
  qed
qed

lemma hd_uvarint: "hd (uvarint v) = 0 \<longleftrightarrow> v = 0"
proof (cases "0x80 \<le> v")
  case True
  moreover from True have "v \<noteq> 0" by auto
  ultimately show ?thesis using continuation_byte [of v] by (auto simp: uvarint_big)
next
  case False
  then have "v < 0x80" by simp
  then have "unat (ucast v :: byte) = unat v"
    by (simp add: word_less_nat_alt unsigned_ucast_eq take_bit_nat_eq_self)
  then have "(ucast v :: byte) = 0 \<longleftrightarrow> v = 0" by (metis unat_eq_zero)
  with \<open>v < 0x80\<close> show ?thesis by (simp add: uvarint_small)
qed

text \<open>The end of the three varints that a prefix starts with.\<close>

definition span3 :: "bytes \<Rightarrow> nat" where
  "span3 bs = (let a = varint_span bs; b = a + varint_span (drop a bs) in b + varint_span (drop b bs))"

lemma span3_append: "span3 bs \<le> length bs \<Longrightarrow> span3 (bs @ xs) = span3 bs"
  by (simp add: span3_def Let_def varint_span_append)

lemma span3_prefix: "span3 (iavl_prefix h k v @ xs) = length (iavl_prefix h k v)"
  by (simp add: span3_def iavl_prefix_def Let_def varint_span_uvarint)

lemma iavl_values_span:
  assumes "runtime_spans rt" and "iavl_values rt 3 32 p [] = Inr (vs, ptr)"
  shows "ptr = 32 + span3 p \<and> span3 p \<le> length p"
proof -
  have d: "n = varint_span (drop a p) \<and> a + n \<le> length p"
    if "decode_varint rt (32 + a) p = Some (v, n)" "a \<le> length p" for a v n
    using assms(1) [unfolded runtime_spans_def, rule_format, of "take a p" "drop a p" v n] that
    by (simp add: le_diff_conv2 add.commute)
  from assms(2) obtain v1 n1 v2 n2 v3 n3 where e: "decode_varint rt 32 p = Some (v1, n1)"
      "decode_varint rt (32 + n1) p = Some (v2, n2)" "decode_varint rt (32 + n1 + n2) p = Some (v3, n3)"
      "ptr = 32 + n1 + n2 + n3"
    by (auto simp: numeral_3_eq_3 split: option.splits)
  from d [of 0 v1 n1] e(1) have 1: "n1 = varint_span p" "n1 \<le> length p" by simp_all
  from d [of n1 v2 n2] e(2) 1(2) have 2: "n2 = varint_span (drop n1 p)" "n1 + n2 \<le> length p" by simp_all
  from d [of "n1 + n2" v3 n3] e(3) 2(2) have 3: "n3 = varint_span (drop (n1 + n2) p)" "n1 + n2 + n3 \<le> length p"
    by (simp_all add: add.assoc)
  show ?thesis using 1 2 3 e(4) by (simp add: span3_def Let_def)
qed

text \<open>What \<open>validateIAVLOps\<close> asks of a prefix: after the three varints comes nothing, or one byte, or 34.\<close>

lemma validateIAVLOps_shape:
  assumes rt: "runtime_ok rt" "runtime_spans rt" and len: "length p < 2 ^ 256" and ok: "validateIAVLOps rt p b = Inr ()"
  shows "span3 p \<le> length p \<and> length p - span3 p \<in> (if b = 0 then {0} else {1, 34}) \<and> (0 < b \<longrightarrow> p \<noteq> [] \<and> hd p \<noteq> 0)"
proof -
  from ok obtain vs ptr where v: "iavl_values rt 3 32 p [] = Inr (vs, ptr)" and "\<not> vs ! 0 < b"
    and r: "let r2 = (of_nat (length p) + 32 - of_nat ptr :: 256 word) in if b = 0 then r2 = 0 else r2 XOR 1 = 0 \<or> r2 = 34"
    by (auto simp: validateIAVLOps_def rbind_eq_Inr_iff Let_def split: if_splits)
  note s = iavl_values_span [OF rt(2) v]
  define k where "k = length p - span3 p"
  from s have p: "length p = span3 p + k" by (simp add: k_def)
  then have r2: "(of_nat (length p) + 32 - of_nat ptr :: 256 word) = of_nat k"
    using s by simp
  have u: "unat (of_nat j :: 256 word) = j" if "j < 2 ^ 256" for j
    using that by (simp only: unat_of_nat take_bit_nat_eq_self len_num1 len_bit0 mult_2) simp
  have k: "(of_nat k :: 256 word) = of_nat j \<longleftrightarrow> k = j" if "j < 2 ^ 256" for j
  proof -
    have "k < 2 ^ 256" using len p by linarith
    with u [of k] u [OF that] show ?thesis by metis
  qed
  have "(of_nat k :: 256 word) = 0 \<longleftrightarrow> k = 0" "(of_nat k :: 256 word) = 1 \<longleftrightarrow> k = 1" "(of_nat k :: 256 word) = 34 \<longleftrightarrow> k = 34"
    using k [of 0] k [of 1] k [of 34] by simp_all
  with r r2 xor_1_eq_0 [of "of_nat k"] have shape: "k \<in> (if b = 0 then {0} else {1, 34})"
    by (auto simp: Let_def split: if_splits)
  have "hd p \<noteq> 0 \<and> p \<noteq> []" if "0 < b"
  proof (rule conjI)
    show ne: "p \<noteq> []" using s by (auto simp: span3_def varint_span_def Let_def)
    show "hd p \<noteq> 0"
    proof
      assume "hd p = 0"
      with ne have "p = [] @ uvarint 0 @ tl p" by (cases p) (simp_all add: uvarint_small)
      with rt(1) [unfolded runtime_ok_def, rule_format, of 0 "[]" "tl p"]
      have "decode_varint rt 32 p = Some (0, 1)" by (simp add: uvarint_small)
      with v have "vs ! 0 = 0" by (auto simp: numeral_3_eq_3 split: option.splits if_splits)
      with \<open>\<not> vs ! 0 < b\<close> that show False by simp
    qed
  qed
  with s shape show ?thesis by (auto simp: k_def)
qed

section \<open>The state of the chain\<close>

text \<open>
  An IAVL tree: the version, key and value of a leaf; the height, size and version of an inner node and its
  children. A simple tree of stores: a name and the hash of the store's tree.
\<close>

datatype iavl = ILeaf uint64 bytes bytes | INode uint64 uint64 uint64 iavl iavl

datatype stores = StoreLeaf bytes bytes | StoreNode stores stores

fun iavl_string :: "hash_fun \<Rightarrow> iavl \<Rightarrow> bytes" where
  "iavl_string H (ILeaf ver k v) = iavl_prefix 0 1 ver @ (uvarint (word_of_nat (length k)) @ k) @ 0x20 # H v"
| "iavl_string H (INode h n ver l r) =
     iavl_prefix h n ver @ (0x20 # H (iavl_string H l)) @ 0x20 # H (iavl_string H r)"

fun iavl_child :: "bool \<Rightarrow> iavl \<Rightarrow> iavl option" where
  "iavl_child d (ILeaf ver k v) = None"
| "iavl_child d (INode h n ver l r) = Some (if d then r else l)"

fun iavl_hashed :: "hash_fun \<Rightarrow> iavl \<Rightarrow> bytes list" where
  "iavl_hashed H (ILeaf ver k v) = [iavl_string H (ILeaf ver k v), v]"
| "iavl_hashed H (INode h n ver l r) = iavl_string H (INode h n ver l r) # iavl_hashed H l @ iavl_hashed H r"

text \<open>Inner nodes have a positive height of 63 bits at most; the entries are in order.\<close>

fun iavl_good :: "iavl \<Rightarrow> bool" where
  "iavl_good (ILeaf ver k v) \<longleftrightarrow> length k < 2 ^ 64"
| "iavl_good (INode h n ver l r) \<longleftrightarrow> 0 < h \<and> unat h < 2 ^ 63 \<and> iavl_good l \<and> iavl_good r"

fun iavl_entries :: "iavl \<Rightarrow> (bytes \<times> bytes) list" where
  "iavl_entries (ILeaf ver k v) = [(k, v)]"
| "iavl_entries (INode h n ver l r) = iavl_entries l @ iavl_entries r"

definition iavl_ok :: "iavl \<Rightarrow> bool" where
  "iavl_ok t \<longleftrightarrow> iavl_good t \<and> sorted_wrt (<) (map fst (iavl_entries t))"

fun stores_string :: "hash_fun \<Rightarrow> stores \<Rightarrow> bytes" where
  "stores_string H (StoreLeaf name root) = [0] @ (uvarint (word_of_nat (length name)) @ name) @ 0x20 # H root"
| "stores_string H (StoreNode l r) = 1 # H (stores_string H l) @ H (stores_string H r)"

fun stores_child :: "bool \<Rightarrow> stores \<Rightarrow> stores option" where
  "stores_child d (StoreLeaf name root) = None"
| "stores_child d (StoreNode l r) = Some (if d then r else l)"

fun stores_hashed :: "hash_fun \<Rightarrow> stores \<Rightarrow> bytes list" where
  "stores_hashed H (StoreLeaf name root) = [stores_string H (StoreLeaf name root), root]"
| "stores_hashed H (StoreNode l r) = stores_string H (StoreNode l r) # stores_hashed H l @ stores_hashed H r"

text \<open>
  The names of stores are short (less than 30 bytes) and the roots are hashes. The verifier does not check that
  an operation of the simple tree is one of an inner node; a longer name could be opened in its middle.
\<close>

fun stores_good :: "stores \<Rightarrow> bool" where
  "stores_good (StoreLeaf name root) \<longleftrightarrow> length name < 30 \<and> length root = 32"
| "stores_good (StoreNode l r) \<longleftrightarrow> stores_good l \<and> stores_good r"

fun stores_entries :: "stores \<Rightarrow> (bytes \<times> bytes) list" where
  "stores_entries (StoreLeaf name root) = [(name, root)]"
| "stores_entries (StoreNode l r) = stores_entries l @ stores_entries r"

section \<open>What an operation opens\<close>

definition is_right :: "bytes \<times> bytes \<Rightarrow> bool" where
  "is_right op \<longleftrightarrow> snd op = []"

lemma split_33:
  assumes "rest @ c @ s = (a # L) @ b # R" and "length c = 32" "length L = 32" "length R = 32"
  shows "(length rest = 1 \<longrightarrow> c = L \<and> s \<noteq> []) \<and> (length rest = 34 \<longrightarrow> c = R \<and> s = [])"
proof (intro conjI impI)
  assume "length rest = 1"
  with assms(1) have "c @ s = L @ b # R" by (auto simp: length_Suc_conv)
  with assms(2,3) show "c = L" and "s \<noteq> []" by auto
next
  assume l: "length rest = 34"
  have "rest @ c @ s = ((a # L) @ [b]) @ R @ []" using assms(1) by simp
  with l assms(3) have e: "c @ s = R" by (subst (asm) append_eq_append_conv) simp_all
  then have "length (c @ s) = length R" by (rule arg_cong)
  with assms(2,4) show "s = []" by simp
  with e show "c = R" by simp
qed

locale verifier_setting =
  fixes H :: hash_fun and rt :: proto_runtime
  assumes H_length: "length (H x) = 32"
    and rt_ok: "runtime_ok rt"
    and rt_spans: "runtime_spans rt"
begin

lemma iavl_opens:
  assumes good: "iavl_good t" and ok: "iavl_check rt i op = Inr ()" and c: "length c = 32"
    and eq: "fst op @ c @ snd op = iavl_string H t"
  shows "\<exists>t'. iavl_child (is_right op) t = Some t' \<and> c = H (iavl_string H t')"
proof -
  let ?m = "span3 (fst op)"
  from ok have "length (fst op) \<le> 45" and v: "validateIAVLOps rt (fst op) (Suc i) = Inr ()"
    by (auto simp: iavl_check_def split: if_splits)
  then have "length (fst op) < 2 ^ 256" by (elim le_less_trans) simp
  with validateIAVLOps_shape [OF rt_ok rt_spans this v]
  have m: "?m \<le> length (fst op)" "length (fst op) - ?m \<in> {1, 34}" "fst op \<noteq> []" "hd (fst op) \<noteq> 0" by simp_all
  show ?thesis
  proof (cases t)
    case (ILeaf ver k v)
    with eq have "hd (fst op @ c @ snd op) = hd (uvarint 0)" by (simp add: iavl_prefix_def)
    with m(3,4) show ?thesis by (simp add: hd_uvarint)
  next
    case (INode h n ver l r)
    let ?L = "H (iavl_string H l)" and ?R = "H (iavl_string H r)"
    have "?m = span3 (iavl_string H t)" using eq span3_append [OF m(1)] by metis
    also have "\<dots> = length (iavl_prefix h n ver)" by (simp add: INode span3_prefix)
    finally have len: "?m = length (iavl_prefix h n ver)" .
    have "take ?m (fst op) @ drop ?m (fst op) @ c @ snd op = iavl_prefix h n ver @ (0x20 # ?L) @ 0x20 # ?R"
      using eq by (simp add: INode append_take_drop_id [of ?m "fst op", unfolded append_assoc [symmetric]] flip: append_assoc)
    then have "drop ?m (fst op) @ c @ snd op = (0x20 # ?L) @ 0x20 # ?R"
      using m(1) len by (subst (asm) append_eq_append_conv) simp_all
    from split_33 [OF this c H_length H_length] m(2) INode show ?thesis
      by (auto simp: is_right_def)
  qed
qed

lemma stores_opens:
  assumes good: "stores_good t" and ok: "tendermint_check op = Inr ()" and c: "length c = 32"
    and eq: "fst op @ c @ snd op = stores_string H t"
  shows "(\<exists>t'. stores_child (is_right op) t = Some t' \<and> c = H (stores_string H t'))
    \<or> (\<exists>v \<in> set (stores_hashed H t). length v \<le> 32 \<and> c = H v)"
proof (cases t)
  case (StoreLeaf name root)
  from good have name: "length name < 30" by (simp add: StoreLeaf)
  then have "(word_of_nat (length name) :: uint64) < 0x80"
    by (simp add: word_less_nat_alt unat_of_nat take_bit_nat_eq_self)
  then have u: "length (uvarint (word_of_nat (length name))) = 1" by (simp add: uvarint_small)
  have "length (fst op @ c @ snd op) = length name + 35" unfolding eq StoreLeaf using u H_length by simp
  with c ok have "length (snd op) < 32" "length (snd op) mod 32 = 0"
    using name by (cases "fst op"; auto simp: tendermint_check_def split: if_splits)+
  then have "snd op = []" by (simp add: mod_less)
  with eq have "fst op @ c = ([0] @ uvarint (word_of_nat (length name)) @ name @ [0x20]) @ H root" by (simp add: StoreLeaf)
  with c H_length have "c = H root" by (subst (asm) append_eq_append_conv) simp_all
  with good show ?thesis by (auto simp: StoreLeaf)
next
  case (StoreNode l r)
  let ?L = "H (stores_string H l)" and ?R = "H (stores_string H r)"
  have e: "fst op @ c @ snd op = [1] @ ?L @ ?R" using eq by (simp add: StoreNode)
  then have "length (fst op @ c @ snd op) = length ([1 :: byte] @ ?L @ ?R)" by (rule arg_cong)
  with c have l: "length (fst op) + length (snd op) = 33" by (simp add: H_length)
  from ok have "1 \<le> length (fst op)" "length (snd op) mod 32 = 0"
    by (cases "fst op"; simp add: tendermint_check_def split: if_splits)+
  then obtain k where "1 \<le> length (fst op)" "length (snd op) = 32 * k" by auto
  moreover from this l have "k = 0 \<or> k = 1" by linarith
  ultimately consider "length (snd op) = 0" | "length (snd op) = 32" "length (fst op) = 1"
    using l by fastforce
  then show ?thesis
  proof cases
    case 1
    with e have "fst op @ c = ([1] @ ?L) @ ?R" by simp
    with c H_length have "c = ?R" by (subst (asm) append_eq_append_conv) simp_all
    with 1 show ?thesis by (auto simp: StoreNode is_right_def)
  next
    case 2
    with e have "c @ snd op = ?L @ ?R" by (subst (asm) append_eq_append_conv) simp_all
    with c H_length have "c = ?L" by (subst (asm) append_eq_append_conv) simp_all
    with 2 show ?thesis by (auto simp: StoreNode is_right_def)
  qed
qed

end

sublocale verifier_setting \<subseteq> iavl: hashed_tree H iavl_child "iavl_string H" "iavl_hashed H" iavl_good
    "\<lambda>op. \<exists>i. iavl_check rt i op = Inr ()" is_right
proof
  show "length (H x) = 32" for x by (rule H_length)
  show "iavl_string H t \<in> set (iavl_hashed H t)" for t by (cases t) simp_all
  show "set (iavl_hashed H t') \<subseteq> set (iavl_hashed H t)" if "iavl_child d t = Some t'" for d t t'
    using that by (cases t; cases d) auto
  show "iavl_good t'" if "iavl_child d t = Some t'" "iavl_good t" for d t t' using that by (cases t) auto
  show "fst op \<noteq> []" if "\<exists>i. iavl_check rt i op = Inr ()" for op using that by (auto simp: iavl_check_def)
qed (use iavl_opens in blast)

sublocale verifier_setting \<subseteq> multi: hashed_tree H stores_child "stores_string H" "stores_hashed H" stores_good
    "\<lambda>op. tendermint_check op = Inr ()" is_right
proof
  show "length (H x) = 32" for x by (rule H_length)
  show "stores_string H t \<in> set (stores_hashed H t)" for t by (cases t) simp_all
  show "set (stores_hashed H t') \<subseteq> set (stores_hashed H t)" if "stores_child d t = Some t'" for d t t'
    using that by (cases t; cases d) auto
  show "stores_good t'" if "stores_child d t = Some t'" "stores_good t" for d t t' using that by (cases t) auto
  show "fst op \<noteq> []" if "tendermint_check op = Inr ()" for op using that by (auto simp: tendermint_check_def)
qed (rule stores_opens)

section \<open>Places in a tree\<close>

lemma descend_stores_entries:
  "descend stores_child ds t = Some t' \<Longrightarrow> set (stores_entries t') \<subseteq> set (stores_entries t)"
proof (induction ds arbitrary: t)
  case (Cons d ds)
  then show ?case by (cases t; cases d) auto
qed simp

lemma descend_entries:
  "descend iavl_child ds t = Some t' \<Longrightarrow> \<exists>pre post. iavl_entries t = pre @ iavl_entries t' @ post
    \<and> ((\<forall>d \<in> set ds. \<not> d) \<longrightarrow> pre = []) \<and> ((\<forall>d \<in> set ds. d) \<longrightarrow> post = [])"
proof (induction ds arbitrary: t)
  case (Cons d ds)
  then obtain h n ver l r where t: "t = INode h n ver l r" by (cases t) auto
  with Cons.prems have "descend iavl_child ds (if d then r else l) = Some t'" by simp
  from Cons.IH [OF this] obtain pre post where
    p: "iavl_entries (if d then r else l) = pre @ iavl_entries t' @ post"
      "(\<forall>d \<in> set ds. \<not> d) \<longrightarrow> pre = []" "(\<forall>d \<in> set ds. d) \<longrightarrow> post = []" by blast
  show ?case
  proof (cases d)
    case True
    with p t show ?thesis by (intro exI [of _ "iavl_entries l @ pre"] exI [of _ post]) simp
  next
    case False
    with p t show ?thesis by (intro exI [of _ pre] exI [of _ "post @ iavl_entries r"]) simp
  qed
qed simp

text \<open>Two ways that part at a node to its two sides, and then keep to the middle, end at neighbours.\<close>

lemma neighbours:
  assumes "descend iavl_child (ds @ False # ls) t = Some l'" and "descend iavl_child (ds @ True # rs) t = Some r'"
    and "\<forall>d \<in> set ls. d" "\<forall>d \<in> set rs. \<not> d"
  shows "\<exists>pre post. iavl_entries t = pre @ iavl_entries l' @ iavl_entries r' @ post"
proof -
  from assms(1,2) obtain s where s: "descend iavl_child ds t = Some s"
      and d: "descend iavl_child (False # ls) s = Some l'" "descend iavl_child (True # rs) s = Some r'"
    by (auto simp: descend_append split: option.splits)
  from d obtain h n ver l r where n: "s = INode h n ver l r" by (cases s) auto
  with d have ways: "descend iavl_child ls l = Some l'" "descend iavl_child rs r = Some r'" by simp_all
  obtain pre where "iavl_entries l = pre @ iavl_entries l'"
    using descend_entries [OF ways(1)] assms(3) append_Nil2 by metis
  moreover obtain post where "iavl_entries r = iavl_entries r' @ post"
    using descend_entries [OF ways(2)] assms(4) append_Nil by metis
  moreover obtain pre' post' where "iavl_entries t = pre' @ iavl_entries s @ post'"
    using descend_entries [OF s] by blast
  ultimately have "iavl_entries t = (pre' @ pre) @ iavl_entries l' @ iavl_entries r' @ post @ post'"
    by (simp add: n)
  then show ?thesis by blast
qed

lemma sorted_gap:
  fixes xs :: "bytes list"
  shows "sorted_wrt (<) (xs @ [a, b] @ ys) \<Longrightarrow> a < k \<Longrightarrow> k < b \<Longrightarrow> k \<notin> set (xs @ [a, b] @ ys)"
  by (auto simp: sorted_wrt_append dest: less_trans)

lemma sorted_below:
  fixes ys :: "bytes list"
  shows "sorted_wrt (<) (b # ys) \<Longrightarrow> k < b \<Longrightarrow> k \<notin> set (b # ys)"
  by (auto dest: less_trans)

lemma sorted_above:
  fixes xs :: "bytes list"
  shows "sorted_wrt (<) (xs @ [a]) \<Longrightarrow> a < k \<Longrightarrow> k \<notin> set (xs @ [a])"
  by (auto simp: sorted_wrt_append dest: less_trans)

section \<open>What accepted proofs mean\<close>

text \<open>Lengths as the EVM has them in memory.\<close>

definition sized :: "bytes \<Rightarrow> bytes \<Rightarrow> bool" where
  "sized prefix key \<longleftrightarrow> length prefix < 2 ^ 256 \<and> length key < 2 ^ 64"

lemma uvarint_frame_split:
  assumes "(uvarint (word_of_nat (length a)) @ a) @ c # x = (uvarint (word_of_nat (length b)) @ b) @ d # y"
    and "length x = length y" and "length a < 2 ^ 64" "length b < 2 ^ 64"
  shows "a = b \<and> x = y"
proof -
  from assms(1,2) have "uvarint (word_of_nat (length a)) @ a = uvarint (word_of_nat (length b)) @ b \<and> c # x = d # y"
    by (subst (asm) append_eq_append_conv) simp_all
  with uvarint_frame_inj assms(3,4) show ?thesis by blast
qed

lemma left_not_right: "left_step op \<Longrightarrow> \<not> is_right op"
  and right_is_right: "right_step op \<Longrightarrow> is_right op"
  by (auto simp: hasPadding_def is_right_def split: if_splits)

text \<open>The byte strings that are hashed when a proof of absence is checked.\<close>

definition absence_hashed :: "hash_fun \<Rightarrow> proto_runtime \<Rightarrow> NonExistenceProof \<Rightarrow> bytes list" where
  "absence_hashed H rt p = concat (map (\<lambda>e. if Key e = [] then [] else
     proof_hashed H (leaf_data rt H (Prefix e) (Key e) (Value e)) (Path e)) [left_proof p, right_proof p])"

definition absent_strings ::
    "hash_fun \<Rightarrow> (bytes \<Rightarrow> bytes) \<Rightarrow> proto_runtime \<Rightarrow> NonExistenceProof \<Rightarrow> bytes \<Rightarrow> ExistenceProof \<Rightarrow> bytes list" where
  "absent_strings H K rt p prefix e = absence_hashed H rt p @ (case verifyNonMembershipIAVL H K rt p of
     Inl _ \<Rightarrow> []
   | Inr root \<Rightarrow> root # proof_hashed H (leaf_data rt H (Prefix e) prefix root) (Path e))"

lemma verifyNonMembershipIAVL_Inr:
  "verifyNonMembershipIAVL H K rt p = Inr root \<longleftrightarrow>
    (let l = left_proof p; r = right_proof p in
      proof_spec (Spec l) = Some IAVLTreeSpec \<and> proof_spec (Spec r) = Some IAVLTreeSpec
      \<and> (Key l \<noteq> [] \<or> Key r \<noteq> [])
      \<and> (Key l = [] \<or> Key l < absent_key p \<and> existence_root H rt l = Inr root)
      \<and> (Key r = [] \<or> absent_key p < Key r \<and> existence_root H rt r = Inr root)
      \<and> (if Key l = [] then \<forall>op \<in> set (Path r). left_step op
         else if Key r = [] then \<forall>op \<in> set (Path l). right_step op
         else isLeftNeighborIAVL K (Path l) (Path r) = Inr True))"
  unfolding verifyNonMembershipIAVL_def Let_def require_position_def
  using all_take_nth [of "length (Path (right_proof p))" "Path (right_proof p)" left_step]
    all_take_nth [of "length (Path (left_proof p))" "Path (left_proof p)" right_step]
  by (auto simp: rbind_eq_Inr_iff ensureKeysInValidRange_Inr isLeftMostIAVL_eq isRightMostIAVL_eq split: if_splits)

context verifier_setting
begin

lemma leaf_data_frame:
  "length key < 2 ^ 64 \<Longrightarrow>
     leaf_data rt H prefix key value = prefix @ (uvarint (word_of_nat (length key)) @ key) @ 0x20 # H value"
  by (simp add: leaf_data_def prepareLeafData_eq [OF rt_ok] prepareLeafData32_def)

lemma leaf_data_long: "length key < 2 ^ 64 \<Longrightarrow> 32 < length (leaf_data rt H prefix key value)"
  by (simp add: leaf_data_frame H_length)

text \<open>The leaf a proof starts from is one of the tree.\<close>

lemma iavl_leaf:
  assumes good: "iavl_good t" and size: "sized prefix key" and "prefix \<noteq> []" "hd prefix = 0"
    and v: "validateIAVLOps rt prefix 0 = Inr ()" and eq: "leaf_data rt H prefix key value = iavl_string H t"
  shows "\<exists>ver v. t = ILeaf ver key v \<and> H value = H v"
proof (cases t)
  case (INode h n ver l r)
  with good have "0 < unat h" "unat (2 * h) = 2 * unat h" by (simp_all add: word_less_nat_alt unat_word_ariths)
  then have "2 * h \<noteq> 0" by (metis unat_0 mult_eq_0_iff less_numeral_extra(3) zero_neq_numeral)
  moreover have "hd (leaf_data rt H prefix key value) = 0" using assms(3,4) by (simp add: leaf_data_def)
  then have "hd (uvarint (2 * h)) = 0" unfolding eq by (simp add: INode iavl_prefix_def)
  ultimately show ?thesis by (simp add: hd_uvarint)
next
  case (ILeaf ver k v)
  let ?hdr = "iavl_prefix 0 1 ver"
  have m: "span3 prefix = length prefix"
    using validateIAVLOps_shape [OF rt_ok rt_spans _ v] size by (simp add: sized_def)
  have key: "length key < 2 ^ 64" using size by (simp add: sized_def)
  note e = eq [unfolded leaf_data_frame [OF key] ILeaf iavl_string.simps]
  have "length prefix = span3 (?hdr @ (uvarint (word_of_nat (length k)) @ k) @ 0x20 # H v)"
    using span3_append [of prefix "(uvarint (word_of_nat (length key)) @ key) @ 0x20 # H value"] m e by simp
  then have "length prefix = length ?hdr" by (simp add: span3_prefix)
  with e have "(uvarint (word_of_nat (length key)) @ key) @ 0x20 # H value
      = (uvarint (word_of_nat (length k)) @ k) @ 0x20 # H v"
    by (subst (asm) append_eq_append_conv) simp_all
  from uvarint_frame_split [OF this] key good show ?thesis by (simp add: ILeaf H_length)
qed

lemma iavl_verified:
  assumes ok: "verifyMembershipIAVLSpec H rt prefix key value path = Inr (H (iavl_string H t))"
    and good: "iavl_good t" and size: "sized prefix key"
    and inj: "inj_on H (set (proof_hashed H (leaf_data rt H prefix key value) path) \<union> set (iavl_hashed H t))"
  shows "\<exists>ver v. descend iavl_child (rev (map is_right path)) t = Some (ILeaf ver key v) \<and> H value = H v"
proof -
  let ?x = "leaf_data rt H prefix key value"
  from ok have p: "prefix \<noteq> []" "hd prefix = 0" "validateIAVLOps rt prefix 0 = Inr ()"
      and path: "\<forall>i < length path. iavl_check rt i (path ! i) = Inr ()"
      and root: "chain_root H (H ?x) path = H (iavl_string H t)"
    by (simp_all add: verifyMembershipIAVLSpec_Inr)
  from path have "\<forall>op \<in> set path. \<exists>i. iavl_check rt i op = Inr ()" by (metis in_set_conv_nth)
  from iavl.path_descends [OF good this leaf_data_long inj root] size
  obtain t' where t': "descend iavl_child (rev (map is_right path)) t = Some t'" "?x = iavl_string H t'"
    by (auto simp: sized_def)
  from iavl_leaf [OF iavl.good_descend [OF t'(1) good] size p t'(2)] t'(1) show ?thesis by blast
qed

lemma stores_verified:
  assumes ok: "verifyMembershipTendermintSpec H rt prefix name root path = Inr (H (stores_string H ms))"
    and good: "stores_good ms" and len: "length name < 2 ^ 64"
    and inj: "inj_on H (insert root (set (proof_hashed H (leaf_data rt H prefix name root) path) \<union> set (stores_hashed H ms)))"
  shows "(name, root) \<in> set (stores_entries ms)"
proof -
  let ?x = "leaf_data rt H prefix name root"
  from ok have p: "prefix = [0]" and path: "\<forall>op \<in> set path. tendermint_check op = Inr ()"
      and root: "chain_root H (H ?x) path = H (stores_string H ms)"
    by (simp_all add: verifyMembershipTendermintSpec_Inr)
  from multi.path_descends [OF good path leaf_data_long [OF len] inj_on_subset [OF inj] root]
  obtain t' where t': "descend stores_child (rev (map is_right path)) ms = Some t'" "?x = stores_string H t'"
    by auto
  note e = t'(2) [unfolded leaf_data_frame [OF len] p]
  obtain name' root' where leaf: "t' = StoreLeaf name' root'" using e by (cases t') auto
  with multi.good_descend [OF t'(1) good] have "length name' < 30" by simp
  then have "name = name' \<and> H root = H root'"
    using e len by (intro uvarint_frame_split) (simp_all add: leaf H_length)
  moreover have "root' \<in> set (stores_hashed H ms)"
    using multi.hashed_descend [OF t'(1)] by (simp add: leaf)
  ultimately have "name = name' \<and> root = root'" using inj by (auto dest: inj_onD)
  moreover have "set (stores_entries t') \<subseteq> set (stores_entries ms)"
    using t'(1) by (rule descend_stores_entries)
  ultimately show ?thesis by (simp add: leaf)
qed

lemma member_verified:
  assumes acc: "verifyMembership H rt abi_decode c height prf prefix path value = Inr True"
    and dec: "abi_decode prf = Some ps"
    and app: "cAppHash (cConsensusStates c (RevisionHeight height)) = H (stores_string H ms)"
    and state: "stores_good ms" "distinct (map fst (stores_entries ms))"
      "(prefix, H (iavl_string H t)) \<in> set (stores_entries ms)" "iavl_good t"
    and size: "sized (Prefix (ps ! 0)) path" "length prefix < 2 ^ 64"
    and inj: "inj_on H (set (member_strings H rt ps prefix path value) \<union> set (stores_hashed H ms) \<union> set (iavl_hashed H t))"
  shows "(path, value) \<in> set (iavl_entries t)"
proof -
  from acc dec app obtain root where 1: "verifyMembershipIAVLSpec H rt (Prefix (ps ! 0)) path value (Path (ps ! 0)) = Inr root"
      and 2: "verifyMembershipTendermintSpec H rt (Prefix (ps ! 1)) prefix root (Path (ps ! 1)) = Inr (H (stores_string H ms))"
    by (auto simp: verifyMembership_Inr)
  from 1 have root: "root = chain_root H (H (leaf_data rt H (Prefix (ps ! 0)) path value)) (Path (ps ! 0))"
    by (simp add: verifyMembershipIAVLSpec_Inr)
  have ms: "set (member_strings H rt ps prefix path value) =
      {value, root} \<union> set (proof_hashed H (leaf_data rt H (Prefix (ps ! 0)) path value) (Path (ps ! 0)))
      \<union> set (proof_hashed H (leaf_data rt H (Prefix (ps ! 1)) prefix root) (Path (ps ! 1)))"
    by (auto simp: member_strings_def proof_hashed_def Let_def root)
  have "(prefix, root) \<in> set (stores_entries ms)"
    by (rule stores_verified [OF 2 state(1) size(2)]) (rule inj_on_subset [OF inj]; auto simp: ms)
  from eq_key_imp_eq_value [OF state(2) this state(3)] have "root = H (iavl_string H t)" .
  from iavl_verified [OF 1 [unfolded this] state(4) size(1) inj_on_subset [OF inj]]
  obtain ver v where leaf: "descend iavl_child (rev (map is_right (Path (ps ! 0)))) t = Some (ILeaf ver path v)" "H value = H v"
    by (auto simp: ms)
  have "v \<in> set (iavl_hashed H t)" using iavl.hashed_descend [OF leaf(1)] by simp
  with leaf(2) inj have "value = v" by (auto simp: ms dest: inj_onD)
  with descend_entries [OF leaf(1)] show ?thesis by auto
qed

lemma absent_verified:
  assumes acc: "verifyNonMembershipIAVL H K rt p = Inr (H (iavl_string H t))" and ok: "iavl_ok t"
    and size: "sized (Prefix (left_proof p)) (Key (left_proof p))" "sized (Prefix (right_proof p)) (Key (right_proof p))"
    and inj: "inj_on H (set (absence_hashed H rt p) \<union> set (iavl_hashed H t))"
    and K: "inj_on K (path_strings (Path (left_proof p)) \<union> path_strings (Path (right_proof p)))"
  shows "absent_key p \<notin> fst ` set (iavl_entries t)"
proof -
  let ?l = "left_proof p" and ?r = "right_proof p" and ?k = "absent_key p"
  from ok have good: "iavl_good t" and srt: "sorted_wrt (<) (map fst (iavl_entries t))" by (simp_all add: iavl_ok_def)
  note v = acc [unfolded verifyNonMembershipIAVL_Inr Let_def]
  have leaf: "\<exists>ver v. descend iavl_child (rev (map is_right (Path e))) t = Some (ILeaf ver (Key e) v)"
    if "e \<in> {?l, ?r}" "Key e \<noteq> []" "existence_root H rt e = Inr (H (iavl_string H t))" for e
    by (rule iavl_verified [THEN exE], rule that(3) [unfolded existence_root_def], rule good)
      (use that size inj in \<open>auto simp: absence_hashed_def elim: inj_on_subset\<close>)
  consider "Key ?l = []" "Key ?r \<noteq> []" | "Key ?l \<noteq> []" "Key ?r = []" | "Key ?l \<noteq> []" "Key ?r \<noteq> []"
    using v by blast
  then show ?thesis
  proof cases
    case 1
    with v leaf [of ?r] obtain ver x where d: "descend iavl_child (rev (map is_right (Path ?r))) t = Some (ILeaf ver (Key ?r) x)"
      by auto
    moreover from 1 v have "\<forall>d \<in> set (rev (map is_right (Path ?r))). \<not> d" by (auto simp: left_not_right)
    ultimately obtain ys where "iavl_entries t = (Key ?r, x) # ys" using descend_entries [OF d] by auto
    with srt v 1 sorted_below [of "Key ?r" "map fst ys" ?k] show ?thesis by auto
  next
    case 2
    with v leaf [of ?l] obtain ver x where d: "descend iavl_child (rev (map is_right (Path ?l))) t = Some (ILeaf ver (Key ?l) x)"
      by auto
    moreover from 2 v have "\<forall>d \<in> set (rev (map is_right (Path ?l))). d" by (auto simp: right_is_right)
    ultimately obtain xs where "iavl_entries t = xs @ [(Key ?l, x)]" using descend_entries [OF d] by auto
    with srt v 2 sorted_above [of "map fst xs" "Key ?l" ?k] show ?thesis by auto
  next
    case 3
    with v leaf [of ?l] leaf [of ?r] obtain vl xl vr xr where
      d: "descend iavl_child (rev (map is_right (Path ?l))) t = Some (ILeaf vl (Key ?l) xl)"
        "descend iavl_child (rev (map is_right (Path ?r))) t = Some (ILeaf vr (Key ?r) xr)" by auto
    from 3 v have "isLeftNeighborIAVL K (Path ?l) (Path ?r) = Inr True" by simp
    from isLeftNeighborIAVL_True [OF K this] obtain lp a rp b common where
      n: "Path ?l = lp @ a # common" "Path ?r = rp @ b # common" "left_step a" "right_step b"
        "\<forall>op \<in> set lp. right_step op" "\<forall>op \<in> set rp. left_step op" by blast
    have "\<exists>pre post. iavl_entries t = pre @ iavl_entries (ILeaf vl (Key ?l) xl) @ iavl_entries (ILeaf vr (Key ?r) xr) @ post"
      by (rule neighbours [of "rev (map is_right common)" "rev (map is_right lp)" _ _ "rev (map is_right rp)"])
        (use d n in \<open>auto simp: left_not_right right_is_right\<close>)
    then obtain pre post where "iavl_entries t = pre @ [(Key ?l, xl), (Key ?r, xr)] @ post" by auto
    with srt v 3 sorted_gap [of "map fst pre" "Key ?l" "Key ?r" "map fst post" ?k] show ?thesis by auto
  qed
qed

lemma non_member_verified:
  assumes acc: "verifyNonMembership H K rt abi_decode c height prf prefix path = Inr True"
    and dec: "abi_decode prf = Some (p, e)"
    and app: "cAppHash (cConsensusStates c (RevisionHeight height)) = H (stores_string H ms)"
    and state: "stores_good ms" "distinct (map fst (stores_entries ms))"
      "(prefix, H (iavl_string H t)) \<in> set (stores_entries ms)" "iavl_ok t"
    and size: "sized (Prefix (left_proof p)) (Key (left_proof p))" "sized (Prefix (right_proof p)) (Key (right_proof p))"
      "length prefix < 2 ^ 64"
    and inj: "inj_on H (set (absent_strings H K rt p prefix e) \<union> set (stores_hashed H ms) \<union> set (iavl_hashed H t))"
    and K: "inj_on K ({absent_key p, path} \<union> path_strings (Path (left_proof p)) \<union> path_strings (Path (right_proof p)))"
  shows "path \<notin> fst ` set (iavl_entries t)"
proof -
  from acc dec app obtain root where k: "K (absent_key p) = K path"
      and 1: "verifyNonMembershipIAVL H K rt p = Inr root"
      and 2: "verifyMembershipTendermintSpec H rt (Prefix e) prefix root (Path e) = Inr (H (stores_string H ms))"
    by (auto simp: verifyNonMembership_def rbind_eq_Inr_iff split: if_splits)
  have ms: "set (absent_strings H K rt p prefix e) = set (absence_hashed H rt p) \<union>
      {root} \<union> set (proof_hashed H (leaf_data rt H (Prefix e) prefix root) (Path e))"
    by (auto simp: absent_strings_def 1)
  have "(prefix, root) \<in> set (stores_entries ms)"
    by (rule stores_verified [OF 2 state(1) size(3)]) (rule inj_on_subset [OF inj]; auto simp: ms)
  from eq_key_imp_eq_value [OF state(2) this state(3)] have "root = H (iavl_string H t)" .
  from absent_verified [OF 1 [unfolded this] state(4) size(1,2) inj_on_subset [OF inj] inj_on_subset [OF K]]
  have "absent_key p \<notin> fst ` set (iavl_entries t)" by (auto simp: ms)
  moreover have "absent_key p = path" using k K by (auto dest: inj_onD)
  ultimately show ?thesis by simp
qed

end

text \<open>The setting of the code itself.\<close>

lemma read_varint_span:
  "read_varint d i s acc = Inr (v, j) \<Longrightarrow> i < j \<and> j \<le> length d \<and> j - i = varint_span (drop i d)"
proof (induction d i s acc rule: read_varint.induct)
  case (1 d i s acc)
  from "1.prems" have i: "\<not> 64 \<le> s" "i < length d" by (subst (asm) read_varint.simps; simp split: if_splits)+
  have d: "drop i d = d ! i # drop (Suc i) d" using i by (simp add: Cons_nth_drop_Suc)
  show ?case
  proof (cases "d ! i < 0x80")
    case True
    with "1.prems" i show ?thesis
      by (subst (asm) read_varint.simps) (auto simp: Let_def varint_span_def d not_le)
  next
    case False
    with "1.prems" i have "read_varint d (i + 1) (s + 7) (acc OR push_bit s (ucast (d ! i AND 0x7F))) = Inr (v, j)"
      by (subst (asm) read_varint.simps) (simp add: Let_def)
    with "1.IH" [OF i(1) _ refl refl] i False show ?thesis
      by (auto simp: varint_span_def d not_le not_less)
  qed
qed

lemma example_runtime_spans: "runtime_spans example_runtime"
  unfolding runtime_spans_def example_runtime_def
  by (auto split: sum.splits dest!: read_varint_span)

interpretation sha: verifier_setting Sum256 example_runtime
  by unfold_locales (simp_all add: example_runtime_ok example_runtime_spans)

section \<open>Properties\<close>

text \<open>
  A membership proof the contract accepts is true: if the application hash it stores is the hash
  of the chain's simple tree of stores, and the store under the prefix is an IAVL tree, then the path holds the
  value in that tree, whatever bytes the proof is made of, if the hash has no collision among the strings
  hashed for the state and for the proof.
\<close>

theorem membership_sound:
  assumes H: "\<forall>x. length (H x) = 32" and rt: "runtime_ok rt" "runtime_spans rt"
    and acc: "verifyMembership H rt abi_decode c height prf prefix path value = Inr True"
    and dec: "abi_decode prf = Some ps"
    and app: "cAppHash (cConsensusStates c (RevisionHeight height)) = H (stores_string H ms)"
    and state: "stores_good ms" "distinct (map fst (stores_entries ms))"
      "(prefix, H (iavl_string H t)) \<in> set (stores_entries ms)" "iavl_good t"
    and size: "sized (Prefix (ps ! 0)) path" "length prefix < 2 ^ 64"
    and inj: "inj_on H (set (member_strings H rt ps prefix path value) \<union> set (stores_hashed H ms) \<union> set (iavl_hashed H t))"
  shows "(path, value) \<in> set (iavl_entries t)"
proof -
  have "verifier_setting H rt" using H rt by unfold_locales simp_all
  from verifier_setting.member_verified [OF this acc dec app state size inj] show ?thesis .
qed

text \<open>A store with two entries under the toy hash, the contract that has its hash, and proofs of it.\<close>

definition toy_tree :: iavl where
  "toy_tree = INode 1 2 22 (ILeaf 22 [1, 1] [7, 7]) (ILeaf 22 [3, 3] [8, 8])"

definition toy_stores :: stores where
  "toy_stores = StoreNode (StoreLeaf (string_bytes ''ibc'') (toy_hash (iavl_string toy_hash toy_tree)))
     (StoreLeaf (string_bytes ''mint'') (replicate 32 9))"

definition toy_state :: contract where
  "toy_state = (new_contract 1 2 0)\<lparr>cConsensusStates := \<lambda>h. \<lparr>cBlockHash = replicate 32 5,
     cAppHash = toy_hash (stores_string toy_hash toy_stores), cTimestamp = 1\<rparr>\<rparr>"

definition toy_left :: ExistenceProof where
  "toy_left = \<lparr>Spec = 2, Prefix = [0, 2, 44], Key = [1, 1], Value = [7, 7],
     Path = [([2, 4, 44, 32], 32 # toy_hash (iavl_string toy_hash (ILeaf 22 [3, 3] [8, 8])))]\<rparr>"

definition toy_right :: ExistenceProof where
  "toy_right = \<lparr>Spec = 2, Prefix = [0, 2, 44], Key = [3, 3], Value = [8, 8],
     Path = [([2, 4, 44, 32] @ toy_hash (iavl_string toy_hash (ILeaf 22 [1, 1] [7, 7])) @ [32], [])]\<rparr>"

definition toy_store_proof :: ExistenceProof where
  "toy_store_proof = \<lparr>Spec = 1, Prefix = [0], Key = string_bytes ''ibc'', Value = [],
     Path = [([1], toy_hash (stores_string toy_hash (StoreLeaf (string_bytes ''mint'') (replicate 32 9))))]\<rparr>"

lemma toy_state_good:
  "iavl_ok toy_tree" "stores_good toy_stores" "distinct (map fst (stores_entries toy_stores))"
  "(string_bytes ''ibc'', toy_hash (iavl_string toy_hash toy_tree)) \<in> set (stores_entries toy_stores)"
  by (auto simp: iavl_ok_def toy_tree_def toy_stores_def length_toy_hash dest: arg_cong [where f = length])

lemma toy_member_accepted:
  "verifyMembership toy_hash example_runtime (\<lambda>bs. Some [toy_left, toy_store_proof]) toy_state
     \<lparr>RevisionNumber = 0, RevisionHeight = 5\<rparr> [] (string_bytes ''ibc'') [1, 1] [7, 7] = Inr True"
  by code_simp

lemma toy_member_hashed:
  "distinct (map toy_hash (remdups (member_strings toy_hash example_runtime [toy_left, toy_store_proof] (string_bytes ''ibc'') [1, 1] [7, 7]
     @ stores_hashed toy_hash toy_stores @ iavl_hashed toy_hash toy_tree)))"
  by code_simp

theorem membership_sound_witness: "([1, 1], [7, 7]) \<in> set (iavl_entries toy_tree)"
proof (rule membership_sound [OF _ example_runtime_ok example_runtime_spans toy_member_accepted refl _
      toy_state_good(2-4)])
  show "inj_on toy_hash (set (member_strings toy_hash example_runtime [toy_left, toy_store_proof] (string_bytes ''ibc'') [1, 1] [7, 7])
      \<union> set (stores_hashed toy_hash toy_stores) \<union> set (iavl_hashed toy_hash toy_tree))"
    using toy_member_hashed by (simp only: distinct_map set_remdups set_append Un_assoc)
qed (use toy_state_good(1) in \<open>simp_all add: length_toy_hash toy_state_def iavl_ok_def sized_def toy_left_def\<close>)

text \<open>
  C9: A proof of absence the contract accepts is true: in the same situation, the path has no value in the store's
  tree. The neighbours of the path that the proof shows are neighbours in the tree, since the paths part at one
  node and then keep to the middle, or they are the tree's first or last leaf.
\<close>

theorem absence_sound:
  assumes H: "\<forall>x. length (H x) = 32" and rt: "runtime_ok rt" "runtime_spans rt"
    and acc: "verifyNonMembership H K rt abi_decode c height prf prefix path = Inr True"
    and dec: "abi_decode prf = Some (p, e)"
    and app: "cAppHash (cConsensusStates c (RevisionHeight height)) = H (stores_string H ms)"
    and state: "stores_good ms" "distinct (map fst (stores_entries ms))"
      "(prefix, H (iavl_string H t)) \<in> set (stores_entries ms)" "iavl_ok t"
    and size: "sized (Prefix (left_proof p)) (Key (left_proof p))" "sized (Prefix (right_proof p)) (Key (right_proof p))"
      "length prefix < 2 ^ 64"
    and inj: "inj_on H (set (absent_strings H K rt p prefix e) \<union> set (stores_hashed H ms) \<union> set (iavl_hashed H t))"
    and K: "inj_on K ({absent_key p, path} \<union> path_strings (Path (left_proof p)) \<union> path_strings (Path (right_proof p)))"
  shows "path \<notin> fst ` set (iavl_entries t)"
proof -
  have "verifier_setting H rt" using H rt by unfold_locales simp_all
  from verifier_setting.non_member_verified [OF this acc dec app state size inj K] show ?thesis .
qed

definition toy_absence :: NonExistenceProof where
  "toy_absence = \<lparr>absent_key = [2, 2], left_proof = toy_left, right_proof = toy_right\<rparr>"

lemma toy_absence_accepted:
  "verifyNonMembership toy_hash (\<lambda>x. x) example_runtime (\<lambda>bs. Some (toy_absence, toy_store_proof)) toy_state
     \<lparr>RevisionNumber = 0, RevisionHeight = 5\<rparr> [] (string_bytes ''ibc'') [2, 2] = Inr True"
  by code_simp

lemma toy_absence_hashed:
  "distinct (map toy_hash (remdups (absent_strings toy_hash (\<lambda>x. x) example_runtime toy_absence (string_bytes ''ibc'') toy_store_proof
     @ stores_hashed toy_hash toy_stores @ iavl_hashed toy_hash toy_tree)))"
  by code_simp

theorem absence_sound_witness: "[2, 2] \<notin> fst ` set (iavl_entries toy_tree)"
proof (rule absence_sound [OF _ example_runtime_ok example_runtime_spans toy_absence_accepted refl _ toy_state_good(2-4,1)])
  show "inj_on toy_hash (set (absent_strings toy_hash (\<lambda>x. x) example_runtime toy_absence (string_bytes ''ibc'') toy_store_proof)
      \<union> set (stores_hashed toy_hash toy_stores) \<union> set (iavl_hashed toy_hash toy_tree))"
    using toy_absence_hashed by (simp only: distinct_map set_remdups set_append Un_assoc)
qed (simp_all add: length_toy_hash toy_state_def sized_def toy_absence_def toy_left_def toy_right_def)

end
