(* ===== verification/Update_Safety.thy ===== *)
theory Update_Safety
  imports Update_Contract Groth16_Proofs
begin

text \<open>
  The contracts that check a proof before \<open>updateState\<close>: \<open>TendermintZKLightClientGroth16.sol\<close>,
  \<open>TendermintZKLightClientGroth16Commitment.sol\<close> (\<open>contracts/groth16\<close>), \<open>contracts/plonk\<close> and
  \<open>contracts/mock\<close>, how a message with its proof reaches them, and what follows for the blocks they
  trust. The generated verifiers are arguments of the four contracts; what their acceptance of a submitted proof means is the
  predicate \<open>proof_sound\<close>, the statement of the two circuits. The ABI decoder is the parameter \<open>abi\<close> of
  \<open>Groth16_Proofs\<close>, the one of the relayer.
\<close>

section \<open>Updates with a proof\<close>

text \<open>
  The four contracts with their verifiers, which get the proof and the public inputs; the one for tests
  has \<open>keccak256\<close>. The arguments of their entry points are \<open>proof_args\<close>.
\<close>

datatype prover_contract =
    Groth16Contract "nat list \<Rightarrow> nat list \<Rightarrow> bool"
  | Groth16CommitmentContract "nat list \<Rightarrow> nat list \<Rightarrow> nat list \<Rightarrow> nat list \<Rightarrow> bool"
  | PlonkContract "bytes \<Rightarrow> nat list \<Rightarrow> bool"
  | MockContract "bytes \<Rightarrow> bytes"

datatype proof_args =
    Groth16Args "nat list"
  | CommitmentArgs "nat list" "nat list" "nat list"
  | PlonkArgs bytes
  | MockArgs bytes

text \<open>\<open>abi.decode\<close> reverts without a message; \<open>abi_bytes\<close> decodes one \<open>bytes\<close>.\<close>

definition or_revert :: "string + 'a \<Rightarrow> revert + 'a" where
  "or_revert r = (case r of Inl e \<Rightarrow> Inl RequireFailed | Inr x \<Rightarrow> Inr x)"

fun routeUpdateState :: "abi \<Rightarrow> (bytes \<Rightarrow> string + bytes) \<Rightarrow> prover_contract \<Rightarrow> bytes \<Rightarrow> revert + proof_args" where
  "routeUpdateState a abi_bytes (Groth16Contract verifyProof) zkp =
     rbind (or_revert (abi_unpack a [8] zkp)) (\<lambda>v. Inr (Groth16Args (v ! 0)))"
| "routeUpdateState a abi_bytes (Groth16CommitmentContract verifyProof) zkp =
     rbind (or_revert (abi_unpack a [8, 2, 2] zkp)) (\<lambda>v. Inr (CommitmentArgs (v ! 0) (v ! 1) (v ! 2)))"
| "routeUpdateState a abi_bytes (PlonkContract verify) zkp =
     rbind (or_revert (abi_bytes zkp)) (\<lambda>prf. Inr (PlonkArgs prf))"
| "routeUpdateState a abi_bytes (MockContract K) zkp = Inr (MockArgs zkp)"

text \<open>\<open>verifyProof\<close> reverts when the proof does not hold for the inputs.\<close>

definition updateStateGroth16 ::
    "(nat list \<Rightarrow> nat list \<Rightarrow> bool) \<Rightarrow> contract \<Rightarrow> nat \<Rightarrow> UpdateStateInput \<Rightarrow> nat list \<Rightarrow> revert + contract" where
  "updateStateGroth16 verifyProof c now m prf =
     (if \<not> verifyProof prf (inInput m) then Inl RequireFailed else updateState c now m)"

definition updateStateGroth16Commitment ::
    "(nat list \<Rightarrow> nat list \<Rightarrow> nat list \<Rightarrow> nat list \<Rightarrow> bool) \<Rightarrow> contract \<Rightarrow> nat \<Rightarrow> UpdateStateInput
       \<Rightarrow> nat list \<Rightarrow> nat list \<Rightarrow> nat list \<Rightarrow> revert + contract" where
  "updateStateGroth16Commitment verifyProof c now m prf commitments commitmentPok =
     (if \<not> verifyProof prf commitments commitmentPok (inInput m) then Inl RequireFailed else updateState c now m)"

definition updateStatePlonk ::
    "(bytes \<Rightarrow> nat list \<Rightarrow> bool) \<Rightarrow> contract \<Rightarrow> nat \<Rightarrow> UpdateStateInput \<Rightarrow> bytes \<Rightarrow> revert + contract" where
  "updateStatePlonk verify c now m prf =
     (if \<not> verify prf (inInput m) then Inl RequireFailed else updateState c now m)"

definition updateStateMock ::
    "(bytes \<Rightarrow> bytes) \<Rightarrow> contract \<Rightarrow> nat \<Rightarrow> UpdateStateInput \<Rightarrow> bytes \<Rightarrow> revert + contract" where
  "updateStateMock K c now m prf =
     (if K prf \<noteq> K (string_bytes ''mock'') then Inl RequireFailed else updateState c now m)"

text \<open>A call: a contract has the one entry point of its kind, with the verifier it was deployed with.\<close>

fun call_update :: "prover_contract \<Rightarrow> contract \<Rightarrow> nat \<Rightarrow> UpdateStateInput \<Rightarrow> proof_args \<Rightarrow> revert + contract" where
  "call_update (Groth16Contract v) c now m (Groth16Args p) = updateStateGroth16 v c now m p"
| "call_update (Groth16CommitmentContract v) c now m (CommitmentArgs p cs pok) = updateStateGroth16Commitment v c now m p cs pok"
| "call_update (PlonkContract v) c now m (PlonkArgs p) = updateStatePlonk v c now m p"
| "call_update (MockContract K) c now m (MockArgs p) = updateStateMock K c now m p"
| "call_update pc c now m args = Inl RequireFailed"

text \<open>
  What the IBC handler does with a decoded message: \<open>routeUpdateClient\<close> names the entry point and its arguments,
  then the handler calls it.
\<close>

definition update_client :: "abi \<Rightarrow> (bytes \<Rightarrow> string + bytes) \<Rightarrow> prover_contract \<Rightarrow> contract \<Rightarrow> nat
    \<Rightarrow> UpdateStateMessage \<Rightarrow> revert + contract" where
  "update_client a abi_bytes pc c now msg =
     rbind (convertUpdateStateMessage msg) (\<lambda>(m, zkp).
     rbind (routeUpdateState a abi_bytes pc zkp) (\<lambda>args. call_update pc c now m args))"

section \<open>The proof the relayer sends\<close>

text \<open>The shape of a proof, which parsed ones have, the contract of its kind, and that contract's check of it.\<close>

fun typed_proof :: "ZKProof \<Rightarrow> bool" where
  "typed_proof (Groth16 p) \<longleftrightarrow> length p = 8 \<and> uint256s [p]"
| "typed_proof (Groth16Commitment q) \<longleftrightarrow> length (Proof q) = 8 \<and> length (Commitments q) = 2
     \<and> length (CommitmentPok q) = 2 \<and> uint256s [Proof q, Commitments q, CommitmentPok q]"
| "typed_proof MockProof \<longleftrightarrow> True"

fun serves :: "prover_contract \<Rightarrow> ZKProof \<Rightarrow> bool" where
  "serves (Groth16Contract v) (Groth16 p) \<longleftrightarrow> True"
| "serves (Groth16CommitmentContract v) (Groth16Commitment q) \<longleftrightarrow> True"
| "serves (MockContract K) MockProof \<longleftrightarrow> True"
| "serves pc zk \<longleftrightarrow> False"

fun checked_by :: "prover_contract \<Rightarrow> ZKProof \<Rightarrow> nat list \<Rightarrow> bool" where
  "checked_by (Groth16Contract v) (Groth16 p) ns \<longleftrightarrow> v p ns"
| "checked_by (Groth16CommitmentContract v) (Groth16Commitment q) ns \<longleftrightarrow> v (Proof q) (Commitments q) (CommitmentPok q) ns"
| "checked_by (MockContract K) MockProof ns \<longleftrightarrow> True"
| "checked_by pc zk ns \<longleftrightarrow> False"

lemma EncodeEthABI_typed:
  "abi_ok a \<Longrightarrow> typed_proof zk \<Longrightarrow> EncodeEthABI a zk = Inr (case zk of
     Groth16 p \<Rightarrow> abi_encoding [p]
   | Groth16Commitment q \<Rightarrow> abi_encoding [Proof q, Commitments q, CommitmentPok q]
   | MockProof \<Rightarrow> string_bytes ''mock'')"
  by (cases zk)
    (auto simp: EncodeEthABI_def Groth16Proof_EncodeEthABI_ok Groth16CommitmentProof_EncodeEthABI_ok
      mockProof_EncodeEthABI_def abi_encoding_Cons)

lemma abi_unpack_encoding:
  "abi_ok a \<Longrightarrow> uint256s vss \<Longrightarrow> map length vss = ns \<Longrightarrow> abi_unpack a ns (abi_encoding vss) = Inr vss"
  unfolding abi_ok_def using length_abi_encoding [of vss] abi_arrays_encoding [of vss] by auto

lemma routeUpdateState_typed:
  assumes "abi_ok a" and "typed_proof zk" and "EncodeEthABI a zk = Inr zkp" and "serves pc zk"
  shows "\<exists>args. routeUpdateState a abi_bytes pc zkp = Inr args
    \<and> call_update pc c now m args = (if checked_by pc zk (inInput m) then updateState c now m else Inl RequireFailed)"
proof (cases zk)
  case (Groth16 p)
  with assms EncodeEthABI_typed [OF assms(1,2)] abi_unpack_encoding [OF assms(1), of "[p]" "[8]"] show ?thesis
    by (cases pc) (auto simp: or_revert_def updateStateGroth16_def)
next
  case (Groth16Commitment q)
  with assms EncodeEthABI_typed [OF assms(1,2)]
    abi_unpack_encoding [OF assms(1), of "[Proof q, Commitments q, CommitmentPok q]" "[8, 2, 2]"] show ?thesis
    by (cases pc) (auto simp: or_revert_def updateStateGroth16Commitment_def)
next
  case MockProof
  with assms EncodeEthABI_typed [OF assms(1,2)] show ?thesis
    by (cases pc) (auto simp: updateStateMock_def)
qed

lemma update_client_delivered:
  assumes "abi_ok a" and "typed_proof zk" and "EncodeEthABI a zk = Inr zkp" and "serves pc zk"
    and conv: "convertUpdateStateMessage msg = Inr (m, zkp)"
  shows "update_client a abi_bytes pc c now msg =
    (if checked_by pc zk (inInput m) then updateState c now m else Inl RequireFailed)"
  using routeUpdateState_typed [OF assms(1-4), of abi_bytes c now m]
  by (auto simp: update_client_def conv)

lemma Prove_typed: "Prove w zpc t u = Inr r \<Longrightarrow> typed_proof (ZKProofOf r)"
  by (auto simp: Prove_def checked_proof_def proveMock_def Let_def rbind_eq_Inr_iff
      dest!: ParseGroth16Proof_typed ParseGroth16CommitmentProof_typed split: if_splits sum.splits)

section \<open>The statement of the circuits\<close>

text \<open>A hash as a public input: its number without the top three bits.\<close>

definition truncated :: "bytes \<Rightarrow> nat" where
  "truncated bs = be_nat (Sum256 bs) mod 2 ^ 253"

text \<open>The check a contract makes of a proof for the public inputs.\<close>

fun proof_checked :: "prover_contract \<Rightarrow> proof_args \<Rightarrow> nat list \<Rightarrow> bool" where
  "proof_checked (Groth16Contract v) (Groth16Args p) ns \<longleftrightarrow> v p ns"
| "proof_checked (Groth16CommitmentContract v) (CommitmentArgs p cs pok) ns \<longleftrightarrow> v p cs pok ns"
| "proof_checked (PlonkContract v) (PlonkArgs p) ns \<longleftrightarrow> v p ns"
| "proof_checked (MockContract K) (MockArgs p) ns \<longleftrightarrow> K p = K (string_bytes ''mock'')"
| "proof_checked pc args ns \<longleftrightarrow> False"

text \<open>The public inputs of an update from the block \<open>th\<close>.\<close>

definition update_inputs :: "nat \<Rightarrow> nat \<Rightarrow> UpdateStateInput \<Rightarrow> bytes \<Rightarrow> nat list" where
  "update_inputs step skp m th =
     (if untrustedHeight m = trustedHeight m + 1
      then [step, truncated (PutUint64 (trustedHeight m) @ th), truncated (untrustedBlockHash m)]
      else [skp, truncated (PutUint64 (trustedHeight m) @ th @ PutUint64 (untrustedHeight m)), truncated (untrustedBlockHash m)])"

text \<open>
  The submitted proofs are sound. The step circuit proves that a block follows the next lower one, the skip circuit that
  the validators of a lower block signed it: if the inputs of an update are those of a valid block (\<open>valid height hash\<close>) at its trusted
  height and the proof submitted with it passes the check, its new block is valid. \<open>S\<close> are the updates that are ever
  submitted, with their proofs: nothing is assumed of proofs that nobody submits. A submitted proof made for another
  preimage of a truncated hash counts as breaking this.
\<close>

definition proof_sound :: "prover_contract \<Rightarrow> nat \<Rightarrow> nat \<Rightarrow> (uint64 \<Rightarrow> bytes \<Rightarrow> bool)
    \<Rightarrow> (UpdateStateInput \<times> proof_args) set \<Rightarrow> bool" where
  "proof_sound pc step skp valid S \<longleftrightarrow>
     (\<forall>m args th. (m, args) \<in> S \<longrightarrow> length th = 32 \<longrightarrow> length (untrustedBlockHash m) = 32 \<longrightarrow>
        trustedHeight m < untrustedHeight m \<longrightarrow> valid (trustedHeight m) th \<longrightarrow>
        inInput m = update_inputs step skp m th \<longrightarrow> proof_checked pc args (inInput m) \<longrightarrow>
        valid (untrustedHeight m) (untrustedBlockHash m))"

text \<open>Histories of a client: initialized with a valid block, then updated by anybody with any of the submitted updates and proofs.\<close>

inductive proved_reach :: "prover_contract \<Rightarrow> (uint64 \<Rightarrow> bytes \<Rightarrow> bool) \<Rightarrow> nat \<Rightarrow> nat
    \<Rightarrow> (UpdateStateInput \<times> proof_args) set \<Rightarrow> contract \<Rightarrow> bool"
  for pc valid step skp S where
  created: "initializeClient (new_contract step skp revision) cs cons = Inr c \<Longrightarrow>
    valid (RevisionHeight (LatestHeight cs)) (BlockHash cons) \<Longrightarrow> proved_reach pc valid step skp S c"
| proved: "proved_reach pc valid step skp S c \<Longrightarrow> (m, args) \<in> S \<Longrightarrow> length (inInput m) = 3 \<Longrightarrow>
    call_update pc c now m args = Inr c' \<Longrightarrow> proved_reach pc valid step skp S c'"

section \<open>Facts\<close>

lemma list_3: "length xs = 3 \<Longrightarrow> xs = [xs ! 0, xs ! 1, xs ! 2]"
  by (auto simp: numeral_3_eq_3 length_Suc_conv)

lemma updateState_inputs:
  assumes "updateState c now m = Inr c'" and "length (inInput m) = 3"
  shows "inInput m = update_inputs (stepVerifierDigest c) (skipVerifierDigest c) m (cBlockHash (cConsensusStates c (trustedHeight m)))"
proof -
  have "untrustedHeight m - trustedHeight m = 1 \<longleftrightarrow> untrustedHeight m = trustedHeight m + 1"
    by (auto simp: algebra_simps)
  with assms show ?thesis
    by (subst list_3 [OF assms(2)])
      (auto simp: updateState_def check_step_def check_skip_def update_inputs_def truncated_def Let_def rbind_eq_Inr_iff split: if_splits)
qed

lemma call_update_Inr:
  "call_update pc c now m args = Inr c' \<Longrightarrow> proof_checked pc args (inInput m) \<and> updateState c now m = Inr c'"
  by (cases "(pc, c, now, m, args)" rule: call_update.cases)
    (auto simp: updateStateGroth16_def updateStateGroth16Commitment_def updateStatePlonk_def updateStateMock_def
      split: if_splits)

text \<open>The block of an accepted update of a contract with these digests is valid, if the trusted one is.\<close>

lemma proof_soundD:
  assumes sound: "proof_sound pc step skp valid S" and S: "(m, args) \<in> S" "length (inInput m) = 3"
    and up: "call_update pc c now m args = Inr c'"
    and c: "stepVerifierDigest c = step" "skipVerifierDigest c = skp"
      "valid (trustedHeight m) (cBlockHash (cConsensusStates c (trustedHeight m)))"
      "length (cBlockHash (cConsensusStates c (trustedHeight m))) = 32"
  shows "valid (untrustedHeight m) (untrustedBlockHash m)"
proof -
  note u = call_update_Inr [OF up]
  then have "trustedHeight m < untrustedHeight m" "length (untrustedBlockHash m) = 32"
    by (auto dest!: updateState_Inr simp: length_merkleRoot)
  moreover from u S(2) have "inInput m = update_inputs step skp m (cBlockHash (cConsensusStates c (trustedHeight m)))"
    using updateState_inputs [of c now m c'] c(1,2) by simp
  ultimately show ?thesis
    using sound S(1) u c(3,4) unfolding proof_sound_def by blast
qed

text \<open>A stored block: valid, and with its other fields proved from its hash unless it is the first one.\<close>

definition trusted_states :: "(uint64 \<Rightarrow> bytes \<Rightarrow> bool) \<Rightarrow> nat \<Rightarrow> nat \<Rightarrow> contract \<Rightarrow> bool" where
  "trusted_states valid step skp c \<longleftrightarrow> stepVerifierDigest c = step \<and> skipVerifierDigest c = skp
     \<and> (\<forall>h. length (cBlockHash (cConsensusStates c h)) = 32)
     \<and> (\<forall>h. cBlockHash (cConsensusStates c h) \<noteq> replicate 32 0 \<longrightarrow> valid h (cBlockHash (cConsensusStates c h)))"

lemma trusted_states_update:
  assumes sound: "proof_sound pc step skp valid S" and inv: "trusted_states valid step skp c"
    and S: "(m, args) \<in> S" "length (inInput m) = 3" and up: "call_update pc c now m args = Inr c'"
  shows "trusted_states valid step skp c'"
proof -
  note u = updateState_Inr [OF call_update_Inr [OF up, THEN conjunct2]]
  have "valid (untrustedHeight m) (untrustedBlockHash m)"
    by (rule proof_soundD [OF sound S up]) (use inv u in \<open>auto simp: trusted_states_def\<close>)
  moreover have "length (untrustedBlockHash m) = 32" using u by (simp add: length_merkleRoot)
  ultimately show ?thesis
    using inv u by (auto simp: trusted_states_def)
qed

lemma trusted_states_reach:
  assumes "proof_sound pc step skp valid S" and "proved_reach pc valid step skp S c"
  shows "trusted_states valid step skp c"
  using assms(2)
proof induction
  case (created revision cs cons c)
  then show ?case
    by (auto simp: trusted_states_def initializeClient_def new_contract_def no_consensus_def bytes32_exact split: if_splits)
next
  case (proved c m args now c')
  show ?case by (rule trusted_states_update [OF assms(1) proved(5,2-4)])
qed

text \<open>Every stored state but the first one has its fields proved from its block hash.\<close>

lemma proved_reach_fields:
  assumes "proved_reach pc valid step skp S c"
  shows "\<exists>h0 s0. valid h0 (cBlockHash s0) \<and> (\<forall>h. cBlockHash (cConsensusStates c h) \<noteq> replicate 32 0 \<longrightarrow>
    h = h0 \<and> cConsensusStates c h = s0
    \<or> (\<exists>p. cBlockHash (cConsensusStates c h) =
        merkleRoot Sum256 (cTimestamp (cConsensusStates c h)) (cAppHash (cConsensusStates c h)) p))"
  using assms
proof induction
  case (created revision cs cons c)
  then show ?case
    by (intro exI [of _ "RevisionHeight (LatestHeight cs)"] exI [of _ "cConsensusStates c (RevisionHeight (LatestHeight cs))"])
      (auto simp: initializeClient_def new_contract_def no_consensus_def bytes32_exact split: if_splits)
next
  case (proved c m args now c')
  then show ?case
    using updateState_Inr [OF call_update_Inr [OF proved(4), THEN conjunct2]] by fastforce
qed

section \<open>Properties\<close>

text \<open>
  C8: The client never trusts a block that is not one of the chain: if the proofs submitted to it are
  sound for the two circuits whose digests the contract has, then in every state of a client that was created
  from a valid block, each stored block hash is that of a valid block at its height, and the application hash and
  the timestamp stored with it are the ones its header hash binds, except for the first block, whose fields were
  given when the client was created.
\<close>

theorem stored_blocks_valid:
  assumes "proof_sound pc step skp valid S" and "proved_reach pc valid step skp S c"
  shows "(\<forall>h. cBlockHash (cConsensusStates c h) \<noteq> replicate 32 0 \<longrightarrow> valid h (cBlockHash (cConsensusStates c h)))
    \<and> (\<exists>h0 s0. valid h0 (cBlockHash s0) \<and> (\<forall>h. cBlockHash (cConsensusStates c h) \<noteq> replicate 32 0 \<longrightarrow>
      h = h0 \<and> cConsensusStates c h = s0
      \<or> (\<exists>p. cBlockHash (cConsensusStates c h) =
          merkleRoot Sum256 (cTimestamp (cConsensusStates c h)) (cAppHash (cConsensusStates c h)) p)))"
  using trusted_states_reach [OF assms] proved_reach_fields [OF assms(2)] by (simp add: trusted_states_def)

text \<open>A client at height 5 that one proof moves to height 6.\<close>

definition safe_siblings :: "bytes list" where
  "safe_siblings = replicate 6 (replicate 32 0)"

definition safe_root :: bytes where
  "safe_root = merkleRoot Sum256 1700000005000000000 (replicate 32 4) safe_siblings"

definition safe_inputs :: "nat list" where
  "safe_inputs = [be_nat (replicate 32 1), truncated (PutUint64 5 @ replicate 32 5), truncated safe_root]"

definition safe_update :: UpdateStateInput where
  "safe_update = \<lparr>trustedHeight = 5, untrustedHeight = 6, untrustedBlockHash = safe_root,
     inTimestamp = 1700000005000000000, inAppHash = replicate 32 4, inSimpleTreeProof = safe_siblings, inInput = safe_inputs\<rparr>"

text \<open>Valid: the first block, and above it what the one proof says.\<close>

definition safe_valid :: "uint64 \<Rightarrow> bytes \<Rightarrow> bool" where
  "safe_valid h bh \<longleftrightarrow> h = 5 \<and> bh = replicate 32 5
     \<or> 5 < h \<and> truncated bh = truncated safe_root"

definition safe_contract :: prover_contract where
  "safe_contract = Groth16Contract (\<lambda>p ns. p = replicate 8 7 \<and> ns = safe_inputs)"

lemma safe_sound: "proof_sound safe_contract (be_nat (replicate 32 1)) (be_nat (replicate 32 2)) safe_valid UNIV"
  unfolding proof_sound_def
proof (intro allI impI)
  fix m args th
  assume m: "inInput m = update_inputs (be_nat (replicate 32 1)) (be_nat (replicate 32 2)) m th"
    "proof_checked safe_contract args (inInput m)" "trustedHeight m < untrustedHeight m" "safe_valid (trustedHeight m) th"
  from m(2) have "inInput m = safe_inputs" by (cases args) (simp_all add: safe_contract_def)
  with m(1) have "truncated (untrustedBlockHash m) = truncated safe_root"
    by (auto simp: update_inputs_def safe_inputs_def split: if_splits)
  with m(3,4) show "safe_valid (untrustedHeight m) (untrustedBlockHash m)"
    by (auto simp: safe_valid_def)
qed

lemma safe_accepted: "\<exists>c'. call_update safe_contract example_contract 1700000000 safe_update (Groth16Args (replicate 8 7)) = Inr c'"
  by (simp add: safe_contract_def updateStateGroth16_def updateState_def check_step_def safe_update_def safe_inputs_def
      truncated_def safe_root_def example_contract_def new_contract_def Let_def)

theorem stored_blocks_valid_witness:
  "\<exists>c'. call_update safe_contract example_contract 1700000000 safe_update (Groth16Args (replicate 8 7)) = Inr c'
    \<and> (cBlockHash (cConsensusStates c' 6) \<noteq> replicate 32 0 \<longrightarrow> safe_valid 6 (cBlockHash (cConsensusStates c' 6)))"
proof -
  obtain c' where c': "call_update safe_contract example_contract 1700000000 safe_update (Groth16Args (replicate 8 7)) = Inr c'"
    using safe_accepted ..
  have "proved_reach safe_contract safe_valid (be_nat (replicate 32 1)) (be_nat (replicate 32 2)) UNIV example_contract"
    by (rule proved_reach.created [of _ _ 0
      "\<lparr>StepVerifierDigest = replicate 32 1, SkipVerifierDigest = replicate 32 2,
        TrustingPeriod = 3600000000000, Frozen = False,
        LatestHeight = \<lparr>RevisionNumber = 0, RevisionHeight = 5\<rparr>\<rparr>"
      "\<lparr>BlockHash = replicate 32 5, AppHash = replicate 32 3, Timestamp = 1700000000000000000\<rparr>"])
      (simp_all add: initializeClient_def new_contract_def example_contract_def bytes32_exact safe_valid_def)
  then have "proved_reach safe_contract safe_valid (be_nat (replicate 32 1)) (be_nat (replicate 32 2)) UNIV c'"
    by (rule proved_reach.proved [OF _ _ _ c']) (simp_all add: safe_update_def safe_inputs_def)
  from stored_blocks_valid [OF safe_sound this] c' show ?thesis by blast
qed

end
