(* ===== verification/Contract_Codec.thy ===== *)
theory Contract_Codec
  imports Update_Safety
begin

text \<open>
  The messages on the contract's side: the generated codec
  \<open>contracts/proto/ibc/lightclients/tendermintzk/v1/TendermintZKLightClient.sol\<close>, the wrapping in \<open>Any\<close> of
  \<open>TendermintZKLightClientProtoMarshaler.sol\<close>, and the functions of \<open>TendermintZKLightClient.sol\<close> that take or return
  bytes. \<open>ProtoBufRuntime\<close>, and the codecs of \<open>Height\<close> and \<open>Any\<close> of yui-ibc-solidity, are the record
  \<open>sol_codec\<close>. A call that reverts is \<open>None\<close>; so is a loop that does not end, which runs out of gas.
\<close>

section \<open>The libraries\<close>

text \<open>
  Pointers are 32 more than an index. A decoder returns the value and the bytes it read; a key is the number
  and the wire type of a field. An encoder returns the buffer and the bytes it wrote.
\<close>

record sol_codec =
  decode_key :: "nat \<Rightarrow> bytes \<Rightarrow> (nat \<times> nat \<times> nat) option"
  decode_uint64 :: "nat \<Rightarrow> bytes \<Rightarrow> (uint64 \<times> nat) option"
  decode_bool :: "nat \<Rightarrow> bytes \<Rightarrow> (bool \<times> nat) option"
  decode_bytes :: "nat \<Rightarrow> bytes \<Rightarrow> (bytes \<times> nat) option"
  decode_size :: "nat \<Rightarrow> bytes \<Rightarrow> (nat \<times> nat) option"
  skip_field_decode :: "nat \<Rightarrow> nat \<Rightarrow> bytes \<Rightarrow> nat option"
  decode_height :: "nat \<Rightarrow> bytes \<Rightarrow> nat \<Rightarrow> (Height \<times> nat) option"
  encode_key :: "nat \<Rightarrow> nat \<Rightarrow> nat \<Rightarrow> bytes \<Rightarrow> bytes \<times> nat"
  encode_uint64 :: "uint64 \<Rightarrow> nat \<Rightarrow> bytes \<Rightarrow> bytes \<times> nat"
  encode_bool :: "bool \<Rightarrow> nat \<Rightarrow> bytes \<Rightarrow> bytes \<times> nat"
  encode_bytes :: "bytes \<Rightarrow> nat \<Rightarrow> bytes \<Rightarrow> bytes \<times> nat"
  encode_nested_height :: "Height \<Rightarrow> nat \<Rightarrow> bytes \<Rightarrow> bytes \<times> nat"
  estimate_height :: "Height \<Rightarrow> nat"
  sz_lendelim :: "nat \<Rightarrow> nat"
  sz_uint64 :: "uint64 \<Rightarrow> nat"
  Any_decode :: "bytes \<Rightarrow> (string \<times> bytes) option"
  Any_encode :: "string \<Rightarrow> bytes \<Rightarrow> bytes"

section \<open>Decoding\<close>

text \<open>
  The loop of every \<open>_decode\<close>; \<open>rd\<close> is its body after the key: field number, wire type, pointer and what
  was read so far.
\<close>

type_synonym 's reader = "bytes \<Rightarrow> nat \<Rightarrow> nat \<Rightarrow> nat \<Rightarrow> 's \<Rightarrow> ('s \<times> nat) option"

partial_function (option) decode_loop :: "sol_codec \<Rightarrow> 's reader \<Rightarrow> bytes \<Rightarrow> nat \<Rightarrow> nat \<Rightarrow> 's \<Rightarrow> 's option" where
  "decode_loop c rd bs stop pointer s =
     (if pointer < stop
      then (case decode_key c pointer bs of
          None \<Rightarrow> None
        | Some (fieldId, wireType, bytesRead) \<Rightarrow>
          (case rd bs fieldId wireType (pointer + bytesRead) s of
             None \<Rightarrow> None
           | Some (s', n) \<Rightarrow> decode_loop c rd bs stop (pointer + bytesRead + n) s'))
      else Some s)"

definition read_with :: "('x \<times> nat) option \<Rightarrow> ('x \<Rightarrow> 's) \<Rightarrow> ('s \<times> nat) option" where
  "read_with r store = (case r of None \<Rightarrow> None | Some (x, sz) \<Rightarrow> Some (store x, sz))"

definition skip_unknown :: "sol_codec \<Rightarrow> nat \<Rightarrow> nat \<Rightarrow> bytes \<Rightarrow> 's \<Rightarrow> ('s \<times> nat) option" where
  "skip_unknown c wireType p bs s = (case skip_field_decode c wireType p bs of None \<Rightarrow> None | Some n \<Rightarrow> Some (s, n))"

text \<open>\<open>ClientState\<close>.\<close>

definition sol_decode_Height :: "sol_codec \<Rightarrow> nat \<Rightarrow> bytes \<Rightarrow> (Height \<times> nat) option" where
  "sol_decode_Height c p bs = (case decode_size c p bs of
     None \<Rightarrow> None
   | Some (sz, bytesRead) \<Rightarrow> (case decode_height c (p + bytesRead) bs sz of
       None \<Rightarrow> None
     | Some (r, _) \<Rightarrow> Some (r, sz + bytesRead)))"

definition ClientState_reader :: "sol_codec \<Rightarrow> ClientState reader" where
  "ClientState_reader c bs fieldId wireType p r =
     (if fieldId = 1 then read_with (decode_bytes c p bs) (\<lambda>x. r\<lparr>StepVerifierDigest := x\<rparr>)
      else if fieldId = 2 then read_with (decode_bytes c p bs) (\<lambda>x. r\<lparr>SkipVerifierDigest := x\<rparr>)
      else if fieldId = 3 then read_with (decode_uint64 c p bs) (\<lambda>x. r\<lparr>TrustingPeriod := x\<rparr>)
      else if fieldId = 4 then read_with (decode_bool c p bs) (\<lambda>x. r\<lparr>Frozen := x\<rparr>)
      else if fieldId = 5 then read_with (sol_decode_Height c p bs) (\<lambda>x. r\<lparr>LatestHeight := x\<rparr>)
      else skip_unknown c wireType p bs r)"

definition sol_ClientState_decode :: "sol_codec \<Rightarrow> bytes \<Rightarrow> ClientState option" where
  "sol_ClientState_decode c bs = decode_loop c (ClientState_reader c) bs (32 + length bs) 32 ClientState_Reset"

text \<open>\<open>ConsensusState\<close>.\<close>

definition ConsensusState_reader :: "sol_codec \<Rightarrow> ConsensusState reader" where
  "ConsensusState_reader c bs fieldId wireType p r =
     (if fieldId = 1 then read_with (decode_bytes c p bs) (\<lambda>x. r\<lparr>BlockHash := x\<rparr>)
      else if fieldId = 2 then read_with (decode_bytes c p bs) (\<lambda>x. r\<lparr>AppHash := x\<rparr>)
      else if fieldId = 3 then read_with (decode_uint64 c p bs) (\<lambda>x. r\<lparr>Timestamp := x\<rparr>)
      else skip_unknown c wireType p bs r)"

definition sol_ConsensusState_decode :: "sol_codec \<Rightarrow> bytes \<Rightarrow> ConsensusState option" where
  "sol_ConsensusState_decode c bs = decode_loop c (ConsensusState_reader c) bs (32 + length bs) 32 ConsensusState_Reset"

text \<open>
  \<open>UpdateStateMessage\<close>: the first pass reads the fields that are not repeated and counts the others in
  \<open>counters[6]\<close> and \<open>counters[7]\<close>; then the arrays are made, and the second pass fills them. The index
  \<open>length - counter\<close> and the decrement are checked.
\<close>

type_synonym counted = "UpdateStateMessage \<times> nat \<times> nat"

definition first_reader :: "sol_codec \<Rightarrow> counted reader" where
  "first_reader c bs fieldId wireType p s = (case s of (r, c6, c7) \<Rightarrow>
     if fieldId = 1 then read_with (decode_uint64 c p bs) (\<lambda>x. (r\<lparr>TrustedHeight := x\<rparr>, c6, c7))
     else if fieldId = 2 then read_with (decode_uint64 c p bs) (\<lambda>x. (r\<lparr>UntrustedHeight := x\<rparr>, c6, c7))
     else if fieldId = 3 then read_with (decode_bytes c p bs) (\<lambda>x. (r\<lparr>UntrustedBlockHash := x\<rparr>, c6, c7))
     else if fieldId = 4 then read_with (decode_uint64 c p bs) (\<lambda>x. (r\<lparr>MsgTimestamp := x\<rparr>, c6, c7))
     else if fieldId = 5 then read_with (decode_bytes c p bs) (\<lambda>x. (r\<lparr>MsgAppHash := x\<rparr>, c6, c7))
     else if fieldId = 6 then read_with (decode_bytes c p bs) (\<lambda>x. (r, c6 + 1, c7))
     else if fieldId = 7 then read_with (decode_bytes c p bs) (\<lambda>x. (r, c6, c7 + 1))
     else if fieldId = 8 then read_with (decode_bytes c p bs) (\<lambda>x. (r\<lparr>ZkProof := x\<rparr>, c6, c7))
     else skip_unknown c wireType p bs s)"

definition fill_next :: "bytes list \<Rightarrow> nat \<Rightarrow> bytes \<Rightarrow> (bytes list \<times> nat) option" where
  "fill_next xs counter x =
     (if length xs < counter then None
      else if length xs \<le> length xs - counter then None
      else Some (xs[length xs - counter := x], counter - 1))"

definition second_reader :: "sol_codec \<Rightarrow> counted reader" where
  "second_reader c bs fieldId wireType p s = (case s of (r, c6, c7) \<Rightarrow>
     if fieldId = 6 then (case decode_bytes c p bs of
         None \<Rightarrow> None
       | Some (x, sz) \<Rightarrow> (case fill_next (SimpleTreeProof r) c6 x of
           None \<Rightarrow> None
         | Some (xs, c6') \<Rightarrow> Some ((r\<lparr>SimpleTreeProof := xs\<rparr>, c6', c7), sz)))
     else if fieldId = 7 then (case decode_bytes c p bs of
         None \<Rightarrow> None
       | Some (x, sz) \<Rightarrow> (case fill_next (Input r) c7 x of
           None \<Rightarrow> None
         | Some (xs, c7') \<Rightarrow> Some ((r\<lparr>Input := xs\<rparr>, c6, c7'), sz)))
     else skip_unknown c wireType p bs s)"

definition sol_UpdateStateMessage_decode :: "sol_codec \<Rightarrow> bytes \<Rightarrow> UpdateStateMessage option" where
  "sol_UpdateStateMessage_decode c bs =
     (case decode_loop c (first_reader c) bs (32 + length bs) 32 (UpdateStateMessage_Reset, 0, 0) of
        None \<Rightarrow> None
      | Some (r, c6, c7) \<Rightarrow>
        if 0 < c6 \<and> length (SimpleTreeProof r) \<noteq> 0 then None
        else if 0 < c7 \<and> length (Input r) \<noteq> 0 then None
        else let r = (if 0 < c6 then r\<lparr>SimpleTreeProof := replicate c6 []\<rparr> else r);
                 r = (if 0 < c7 then r\<lparr>Input := replicate c7 []\<rparr> else r) in
          (case decode_loop c (second_reader c) bs (32 + length bs) 32 (r, c6, c7) of
             None \<Rightarrow> None
           | Some (r, _, _) \<Rightarrow> Some r))"

section \<open>Encoding\<close>

text \<open>\<open>pointer += write(pointer, bs)\<close>, for the writes of a list in order.\<close>

type_synonym sol_writer = "nat \<Rightarrow> bytes \<Rightarrow> bytes \<times> nat"

fun sol_writes :: "sol_writer list \<Rightarrow> bytes \<times> nat \<Rightarrow> bytes \<times> nat" where
  "sol_writes [] (bs, pointer) = (bs, pointer)"
| "sol_writes (w # ws) (bs, pointer) = (case w pointer bs of (bs', n) \<Rightarrow> sol_writes ws (bs', pointer + n))"

definition sol_encode :: "nat \<Rightarrow> sol_writer list \<Rightarrow> bytes" where
  "sol_encode estimate ws = (case sol_writes ws (replicate estimate 0, 32) of (bs, pointer) \<Rightarrow> take (pointer - 32) bs)"

definition ClientState_estimate :: "sol_codec \<Rightarrow> ClientState \<Rightarrow> nat" where
  "ClientState_estimate c r = 1 + sz_lendelim c (length (StepVerifierDigest r))
     + (1 + sz_lendelim c (length (SkipVerifierDigest r))) + (1 + sz_uint64 c (TrustingPeriod r)) + (1 + 1)
     + (1 + sz_lendelim c (estimate_height c (LatestHeight r)))"

definition sol_ClientState_encode :: "sol_codec \<Rightarrow> ClientState \<Rightarrow> bytes" where
  "sol_ClientState_encode c r = sol_encode (ClientState_estimate c r)
     ((if length (StepVerifierDigest r) \<noteq> 0 then [encode_key c 1 2, encode_bytes c (StepVerifierDigest r)] else [])
      @ (if length (SkipVerifierDigest r) \<noteq> 0 then [encode_key c 2 2, encode_bytes c (SkipVerifierDigest r)] else [])
      @ (if TrustingPeriod r \<noteq> 0 then [encode_key c 3 0, encode_uint64 c (TrustingPeriod r)] else [])
      @ (if Frozen r \<noteq> False then [encode_key c 4 0, encode_bool c (Frozen r)] else [])
      @ [encode_key c 5 2, encode_nested_height c (LatestHeight r)])"

definition ConsensusState_estimate :: "sol_codec \<Rightarrow> ConsensusState \<Rightarrow> nat" where
  "ConsensusState_estimate c r = 1 + sz_lendelim c (length (BlockHash r))
     + (1 + sz_lendelim c (length (AppHash r))) + (1 + sz_uint64 c (Timestamp r))"

definition sol_ConsensusState_encode :: "sol_codec \<Rightarrow> ConsensusState \<Rightarrow> bytes" where
  "sol_ConsensusState_encode c r = sol_encode (ConsensusState_estimate c r)
     ((if length (BlockHash r) \<noteq> 0 then [encode_key c 1 2, encode_bytes c (BlockHash r)] else [])
      @ (if length (AppHash r) \<noteq> 0 then [encode_key c 2 2, encode_bytes c (AppHash r)] else [])
      @ (if Timestamp r \<noteq> 0 then [encode_key c 3 0, encode_uint64 c (Timestamp r)] else []))"

section \<open>Messages in \<open>Any\<close>\<close>

definition CLIENT_STATE_TYPE_URL :: string where
  "CLIENT_STATE_TYPE_URL = ''/ibc.lightclients.tendermintzk.v1.ClientState''"
definition CONSENSUS_STATE_TYPE_URL :: string where
  "CONSENSUS_STATE_TYPE_URL = ''/ibc.lightclients.tendermintzk.v1.ConsensusState''"
definition UPDATE_STATE_MESSAGE_TYPE_URL :: string where
  "UPDATE_STATE_MESSAGE_TYPE_URL = ''/ibc.lightclients.tendermintzk.v1.UpdateStateMessage''"

text \<open>Type URLs are compared by their \<open>keccak256\<close>, the argument \<open>K\<close>.\<close>

definition same_url :: "(bytes \<Rightarrow> bytes) \<Rightarrow> string \<Rightarrow> string \<Rightarrow> bool" where
  "same_url K a b \<longleftrightarrow> K (string_bytes a) = K (string_bytes b)"

definition unmarshalClientState :: "(bytes \<Rightarrow> bytes) \<Rightarrow> sol_codec \<Rightarrow> bytes \<Rightarrow> revert + ClientState" where
  "unmarshalClientState K c bz = (case Any_decode c bz of
     None \<Rightarrow> Inl RequireFailed
   | Some (url, value) \<Rightarrow>
     if \<not> same_url K url CLIENT_STATE_TYPE_URL then Inl RequireFailed
     else (case sol_ClientState_decode c value of None \<Rightarrow> Inl RequireFailed | Some cs \<Rightarrow> Inr cs))"

definition unmarshalConsensusState :: "(bytes \<Rightarrow> bytes) \<Rightarrow> sol_codec \<Rightarrow> bytes \<Rightarrow> revert + ConsensusState" where
  "unmarshalConsensusState K c bz = (case Any_decode c bz of
     None \<Rightarrow> Inl RequireFailed
   | Some (url, value) \<Rightarrow>
     if \<not> same_url K url CONSENSUS_STATE_TYPE_URL then Inl RequireFailed
     else (case sol_ConsensusState_decode c value of None \<Rightarrow> Inl RequireFailed | Some cons \<Rightarrow> Inr cons))"

definition convert_bytes :: "sol_codec \<Rightarrow> bytes \<Rightarrow> revert + (UpdateStateInput \<times> bytes)" where
  "convert_bytes c bz = (case sol_UpdateStateMessage_decode c bz of
     None \<Rightarrow> Inl RequireFailed | Some m \<Rightarrow> convertUpdateStateMessage m)"

definition marshalClientState :: "sol_codec \<Rightarrow> nat \<Rightarrow> nat \<Rightarrow> uint64 \<Rightarrow> bool \<Rightarrow> uint64 \<Rightarrow> uint64 \<Rightarrow> bytes" where
  "marshalClientState c step skp period frozen number height = Any_encode c CLIENT_STATE_TYPE_URL
     (sol_ClientState_encode c \<lparr>StepVerifierDigest = be_pad 32 step, SkipVerifierDigest = be_pad 32 skp,
        TrustingPeriod = period, Frozen = frozen, LatestHeight = \<lparr>RevisionNumber = number, RevisionHeight = height\<rparr>\<rparr>)"

definition marshalConsensusState :: "sol_codec \<Rightarrow> bytes \<Rightarrow> bytes \<Rightarrow> uint64 \<Rightarrow> bytes" where
  "marshalConsensusState c blockHash appHash timestamp = Any_encode c CONSENSUS_STATE_TYPE_URL
     (sol_ConsensusState_encode c \<lparr>BlockHash = blockHash, AppHash = appHash, Timestamp = timestamp\<rparr>)"

section \<open>The light client\<close>

definition initialize_bytes :: "(bytes \<Rightarrow> bytes) \<Rightarrow> sol_codec \<Rightarrow> 'addr \<Rightarrow> 'addr \<Rightarrow> contract \<Rightarrow> bytes \<Rightarrow> bytes
    \<Rightarrow> revert + contract" where
  "initialize_bytes K c ibcHandler sender st protoClientState protoConsensusState =
     (if sender \<noteq> ibcHandler then Inl OnlyIBC
      else rbind (unmarshalClientState K c protoClientState) (\<lambda>cs.
        rbind (unmarshalConsensusState K c protoConsensusState) (\<lambda>cons. initializeClient st cs cons)))"

definition routeUpdateClient :: "(bytes \<Rightarrow> bytes) \<Rightarrow> sol_codec \<Rightarrow> abi \<Rightarrow> (bytes \<Rightarrow> string + bytes) \<Rightarrow> prover_contract
    \<Rightarrow> bytes \<Rightarrow> revert + (UpdateStateInput \<times> proof_args)" where
  "routeUpdateClient K c a abi_bytes pc protoClientMessage = (case Any_decode c protoClientMessage of
     None \<Rightarrow> Inl RequireFailed
   | Some (url, value) \<Rightarrow>
     if same_url K url UPDATE_STATE_MESSAGE_TYPE_URL
     then rbind (convert_bytes c value) (\<lambda>(m, zkp).
       rbind (routeUpdateState a abi_bytes pc zkp) (\<lambda>args. Inr (m, args)))
     else Inl UnsupportedProtoMessageType)"

text \<open>The handler calls the entry point that \<open>routeUpdateClient\<close> returns.\<close>

definition update_bytes :: "(bytes \<Rightarrow> bytes) \<Rightarrow> sol_codec \<Rightarrow> abi \<Rightarrow> (bytes \<Rightarrow> string + bytes) \<Rightarrow> prover_contract
    \<Rightarrow> contract \<Rightarrow> nat \<Rightarrow> bytes \<Rightarrow> revert + contract" where
  "update_bytes K c a abi_bytes pc st now bz =
     rbind (routeUpdateClient K c a abi_bytes pc bz) (\<lambda>(m, args). call_update pc st now m args)"

definition getTimestampAtHeight :: "contract \<Rightarrow> Height \<Rightarrow> uint64" where
  "getTimestampAtHeight st height = cTimestamp (cConsensusStates st (RevisionHeight height))"

definition getLatestHeight :: "contract \<Rightarrow> Height" where
  "getLatestHeight st = \<lparr>RevisionNumber = revisionNumber st, RevisionHeight = cLatestHeight st\<rparr>"

text \<open>\<open>active\<close> is \<open>ClientStatus.Active\<close> of yui-ibc-solidity.\<close>

definition getLatestInfo :: "'status \<Rightarrow> contract \<Rightarrow> Height \<times> uint64 \<times> 'status" where
  "getLatestInfo active st =
     (let latestHeight = \<lparr>RevisionNumber = revisionNumber st, RevisionHeight = cLatestHeight st\<rparr> in
      (latestHeight, cTimestamp (cConsensusStates st (RevisionHeight latestHeight)), active))"

definition getStatus :: "'status \<Rightarrow> 'status" where
  "getStatus active = active"

definition getClientState :: "sol_codec \<Rightarrow> contract \<Rightarrow> bytes \<times> bool" where
  "getClientState c st =
     (if cLatestHeight st = 0 then ([], False)
      else (marshalClientState c (stepVerifierDigest st) (skipVerifierDigest st) (cTrustingPeriod st) False
              (revisionNumber st) (cLatestHeight st), True))"

definition getConsensusState :: "sol_codec \<Rightarrow> contract \<Rightarrow> Height \<Rightarrow> bytes \<times> bool" where
  "getConsensusState c st height =
     (let s = cConsensusStates st (RevisionHeight height) in
      if cBlockHash s = replicate 32 0 then ([], False)
      else (marshalConsensusState c (cBlockHash s) (cAppHash s) (cTimestamp s), True))"

section \<open>The relayer's registry\<close>

text \<open>
  \<open>RegisterInterfaces\<close> of \<open>go/relay/codec.go\<close> registers the messages under the names of the generated code; the
  registry, \<open>RegisterImplementations\<close> with an interface and a type URL, is the SDK's. \<open>pack\<close> is the SDK's \<open>Any\<close>.
\<close>

definition type_url :: "string \<Rightarrow> string" where
  "type_url message = ''/'' @ message"

definition ClientState_name :: string where "ClientState_name = ''ibc.lightclients.tendermintzk.v1.ClientState''"
definition ConsensusState_name :: string where "ConsensusState_name = ''ibc.lightclients.tendermintzk.v1.ConsensusState''"
definition UpdateStateMessage_name :: string where
  "UpdateStateMessage_name = ''ibc.lightclients.tendermintzk.v1.UpdateStateMessage''"
definition ProverConfig_name :: string where "ProverConfig_name = ''relayer.provers.tendermintzk.config.ProverConfig''"

definition RegisterInterfaces :: "(string \<Rightarrow> string \<Rightarrow> 'reg \<Rightarrow> 'reg) \<Rightarrow> 'reg \<Rightarrow> 'reg" where
  "RegisterInterfaces RegisterImplementations registry =
     RegisterImplementations ''core.ProverConfig'' (type_url ProverConfig_name)
     (RegisterImplementations ''exported.ClientMessage'' (type_url UpdateStateMessage_name)
     (RegisterImplementations ''exported.ConsensusState'' (type_url ConsensusState_name)
     (RegisterImplementations ''exported.ClientState'' (type_url ClientState_name) registry)))"

definition Module_RegisterInterfaces :: "(string \<Rightarrow> string \<Rightarrow> 'reg \<Rightarrow> 'reg) \<Rightarrow> 'reg \<Rightarrow> 'reg" where
  "Module_RegisterInterfaces RegisterImplementations registry = RegisterInterfaces RegisterImplementations registry"

lemma type_urls [simp]:
  "type_url ClientState_name = CLIENT_STATE_TYPE_URL" "type_url ConsensusState_name = CONSENSUS_STATE_TYPE_URL"
  "type_url UpdateStateMessage_name = UPDATE_STATE_MESSAGE_TYPE_URL"
  by (simp_all add: type_url_def ClientState_name_def CLIENT_STATE_TYPE_URL_def ConsensusState_name_def
      CONSENSUS_STATE_TYPE_URL_def UpdateStateMessage_name_def UPDATE_STATE_MESSAGE_TYPE_URL_def)

section \<open>What the libraries document\<close>

text \<open>
  The runtime reads the protobuf encodings wherever they stand in a buffer, and passes over them; it
  writes them where there is room. \<open>henc\<close> is the encoding of a \<open>Height\<close>, the one the relayer's codec uses.
\<close>

definition frame :: "bytes \<Rightarrow> bytes" where
  "frame b = uvarint (word_of_nat (length b)) @ b"

definition field_key :: "nat \<Rightarrow> nat \<Rightarrow> byte" where
  "field_key f wt = word_of_nat (8 * f + wt)"

definition reads :: "(nat \<Rightarrow> bytes \<Rightarrow> ('x \<times> nat) option) \<Rightarrow> 'x \<Rightarrow> bytes \<Rightarrow> bool" where
  "reads dec x e \<longleftrightarrow> (\<forall>pre post. length (pre @ e @ post) < max_len \<longrightarrow> dec (32 + length pre) (pre @ e @ post) = Some (x, length e))"

definition decodes_ok :: "sol_codec \<Rightarrow> (Height \<Rightarrow> bytes) \<Rightarrow> bool" where
  "decodes_ok c henc \<longleftrightarrow>
     (\<forall>f wt pre post. 0 < f \<and> f < 16 \<and> wt \<in> {0, 2} \<longrightarrow>
        decode_key c (32 + length pre) (pre @ field_key f wt # post) = Some (f, wt, 1))
     \<and> (\<forall>v. reads (decode_uint64 c) v (uvarint v)) \<and> reads (decode_bool c) True [1]
     \<and> (\<forall>b. reads (decode_bytes c) b (frame b)) \<and> (\<forall>n < max_len. reads (decode_size c) n (uvarint (word_of_nat n)))
     \<and> (\<forall>h. reads (\<lambda>p bs. decode_height c p bs (length (henc h))) h (henc h))
     \<and> (\<forall>v pre post. length (pre @ uvarint v @ post) < max_len \<longrightarrow>
          skip_field_decode c 0 (32 + length pre) (pre @ uvarint v @ post) = Some (length (uvarint v)))
     \<and> (\<forall>b pre post. length (pre @ frame b @ post) < max_len \<longrightarrow>
          skip_field_decode c 2 (32 + length pre) (pre @ frame b @ post) = Some (length (frame b)))"

section \<open>Reading what was written\<close>

text \<open>A byte string that takes the loop from one state to another, wherever it stands.\<close>

definition sol_feeds :: "sol_codec \<Rightarrow> 's reader \<Rightarrow> bytes \<Rightarrow> 's \<Rightarrow> 's \<Rightarrow> bool" where
  "sol_feeds c rd e s s' \<longleftrightarrow> (\<forall>pre post stop. length (pre @ e @ post) < max_len \<longrightarrow> 32 + length (pre @ e) \<le> stop \<longrightarrow>
     decode_loop c rd (pre @ e @ post) stop (32 + length pre) s
       = decode_loop c rd (pre @ e @ post) stop (32 + length (pre @ e)) s')"

lemma sol_feeds_Nil: "sol_feeds c rd [] s s"
  by (simp add: sol_feeds_def)

lemma sol_feeds_append:
  assumes "sol_feeds c rd e s s'" and "sol_feeds c rd e' s' s''"
  shows "sol_feeds c rd (e @ e') s s''"
  unfolding sol_feeds_def
proof (intro allI impI)
  fix pre post stop
  assume l: "length (pre @ (e @ e') @ post) < max_len" "32 + length (pre @ e @ e') \<le> stop"
  with assms(1) [unfolded sol_feeds_def, rule_format, of pre "e' @ post" stop]
    assms(2) [unfolded sol_feeds_def, rule_format, of "pre @ e" post stop]
  show "decode_loop c rd (pre @ (e @ e') @ post) stop (32 + length pre) s =
      decode_loop c rd (pre @ (e @ e') @ post) stop (32 + length (pre @ e @ e')) s''"
    by simp
qed

lemma sol_feeds_decode:
  assumes "sol_feeds c rd e s s'" and "length e < max_len"
  shows "decode_loop c rd e (32 + length e) 32 s = Some s'"
  using assms(1) [unfolded sol_feeds_def, rule_format, of "[]" "[]" "32 + length e"] assms(2)
  by (simp add: decode_loop.simps)

lemma sol_feeds_field:
  assumes ok: "decodes_ok c henc" and f: "0 < f" "f < 16" "wt \<in> {0, 2}"
    and rd: "\<And>pre post. length (pre @ e @ post) < max_len \<Longrightarrow> rd (pre @ e @ post) f wt (32 + length pre) s = Some (s', length e)"
  shows "sol_feeds c rd (field_key f wt # e) s s'"
  unfolding sol_feeds_def
proof (intro allI impI)
  fix pre post stop
  let ?bs = "pre @ (field_key f wt # e) @ post"
  assume l: "length ?bs < max_len" "32 + length (pre @ field_key f wt # e) \<le> stop"
  have "decode_key c (32 + length pre) ?bs = Some (f, wt, 1)"
    using ok f by (simp add: decodes_ok_def)
  moreover have "rd ?bs f wt (32 + length pre + 1) s = Some (s', length e)"
    using rd [of "pre @ [field_key f wt]" post] l(1) by simp
  ultimately show "decode_loop c rd ?bs stop (32 + length pre) s =
      decode_loop c rd ?bs stop (32 + length (pre @ field_key f wt # e)) s'"
    using l(2) by (subst decode_loop.simps) (simp add: add.assoc)
qed

text \<open>The fields of the three messages, for a reader that stores what it reads with \<open>store\<close>.\<close>

lemma readsD: "reads dec x e \<Longrightarrow> length (pre @ e @ post) < max_len \<Longrightarrow> dec (32 + length pre) (pre @ e @ post) = Some (x, length e)"
  by (simp add: reads_def)

lemma decodes_okD:
  assumes "decodes_ok c henc"
  shows "reads (decode_uint64 c) v (uvarint v)" "reads (decode_bytes c) b (frame b)" "reads (decode_bool c) True [1]"
    "n < max_len \<Longrightarrow> reads (decode_size c) n (uvarint (word_of_nat n))"
    "reads (\<lambda>p bs. decode_height c p bs (length (henc h))) h (henc h)"
    "length (pre @ uvarint v @ post) < max_len \<Longrightarrow>
       skip_field_decode c 0 (32 + length pre) (pre @ uvarint v @ post) = Some (length (uvarint v))"
    "length (pre @ frame b @ post) < max_len \<Longrightarrow>
       skip_field_decode c 2 (32 + length pre) (pre @ frame b @ post) = Some (length (frame b))"
  using assms by (simp_all add: decodes_ok_def)

lemma sol_feeds_read:
  assumes "decodes_ok c henc" and "0 < f" "f < 16" "wt \<in> {0, 2}" and "reads dec x e"
    and "\<And>bs p. rd bs f wt p s = read_with (dec p bs) store"
  shows "sol_feeds c rd (field_key f wt # e) s (store x)"
  by (rule sol_feeds_field [OF assms(1-4)]) (simp add: assms(6) read_with_def readsD [OF assms(5)])

lemma enc_field:
  "enc_uint (field_key f wt) v = field_key f wt # uvarint v" "enc_bytes (field_key f wt) b = field_key f wt # frame b"
  by (simp_all add: enc_uint_def enc_bytes_def frame_def)

lemma sol_feeds_opt_uint:
  assumes ok: "decodes_ok c henc" "0 < f" "f < 16"
    and rd: "\<And>bs p. rd bs f 0 p s = read_with (decode_uint64 c p bs) store" and "store 0 = s"
  shows "sol_feeds c rd (enc_opt_uint (field_key f 0) v) s (store v)"
  using sol_feeds_read [where dec = "decode_uint64 c" and x = v and rd = rd and store = store and s = s,
      OF ok _ decodes_okD(1) [OF ok(1)] rd] assms(5)
  by (simp add: enc_opt_uint_def enc_field sol_feeds_Nil)

lemma sol_feeds_opt_bytes:
  assumes ok: "decodes_ok c henc" "0 < f" "f < 16"
    and rd: "\<And>bs p. rd bs f 2 p s = read_with (decode_bytes c p bs) store" and "store [] = s"
  shows "sol_feeds c rd (enc_opt_bytes (field_key f 2) b) s (store b)"
  using sol_feeds_read [where dec = "decode_bytes c" and x = b and rd = rd and store = store and s = s,
      OF ok _ decodes_okD(2) [OF ok(1)] rd] assms(5)
  by (simp add: enc_opt_bytes_def enc_field sol_feeds_Nil)

lemma sol_feeds_skip_uint:
  assumes ok: "decodes_ok c henc" "0 < f" "f < 16" and rd: "\<And>bs p. rd bs f 0 p s = skip_unknown c 0 p bs s"
  shows "sol_feeds c rd (enc_opt_uint (field_key f 0) v) s s"
proof (cases "v = 0")
  case False
  have "sol_feeds c rd (field_key f 0 # uvarint v) s s"
    by (rule sol_feeds_field [OF ok]) (simp_all add: rd skip_unknown_def decodes_okD(6) [OF ok(1)])
  with False show ?thesis by (simp add: enc_opt_uint_def enc_field)
qed (simp add: enc_opt_uint_def sol_feeds_Nil)

lemma sol_feeds_skip_bytes:
  assumes ok: "decodes_ok c henc" "0 < f" "f < 16" and rd: "\<And>bs p. rd bs f 2 p s = skip_unknown c 2 p bs s"
  shows "sol_feeds c rd (enc_opt_bytes (field_key f 2) b) s s"
proof (cases "b = []")
  case False
  have "sol_feeds c rd (field_key f 2 # frame b) s s"
    by (rule sol_feeds_field [OF ok]) (simp_all add: rd skip_unknown_def decodes_okD(7) [OF ok(1)])
  with False show ?thesis by (simp add: enc_opt_bytes_def enc_field)
qed (simp add: enc_opt_bytes_def sol_feeds_Nil)

lemma enc_repeated_Cons: "enc_repeated t (b # bs) = enc_bytes t b @ enc_repeated t bs"
  and enc_repeated_Nil: "enc_repeated t [] = []"
  by (simp_all add: enc_repeated_def)

text \<open>The two passes over a repeated field: counting, and filling from the left.\<close>

lemma sol_feeds_count:
  assumes ok: "decodes_ok c henc" "0 < f" "f < 16"
    and rd: "\<And>bs p n. rd bs f 2 p (st n) = read_with (decode_bytes c p bs) (\<lambda>x. st (Suc n))"
  shows "sol_feeds c rd (enc_repeated (field_key f 2) xs) (st n) (st (n + length xs))"
proof (induction xs arbitrary: n)
  case (Cons x xs)
  have "sol_feeds c rd (enc_bytes (field_key f 2) x) (st n) (st (Suc n))"
    unfolding enc_field
    using sol_feeds_read [where dec = "decode_bytes c" and rd = rd and store = "\<lambda>x. st (Suc n)" and s = "st n",
        OF ok _ decodes_okD(2) [OF ok(1)] rd] by simp
  from sol_feeds_append [OF this Cons.IH [of "Suc n"]] show ?case by (simp add: enc_repeated_Cons)
qed (simp add: enc_repeated_Nil sol_feeds_Nil)

lemma fill_next_eq: "fill_next (done @ replicate (Suc n) []) (Suc n) x = Some ((done @ [x]) @ replicate n [], n)"
  by (simp add: fill_next_def list_update_append)

lemma sol_feeds_fill:
  assumes ok: "decodes_ok c henc" "0 < f" "f < 16"
    and rd: "\<And>bs p xs n. rd bs f 2 p (st xs n) = (case decode_bytes c p bs of None \<Rightarrow> None | Some (x, sz) \<Rightarrow>
        (case fill_next xs n x of None \<Rightarrow> None | Some (xs', n') \<Rightarrow> Some (st xs' n', sz)))"
  shows "sol_feeds c rd (enc_repeated (field_key f 2) xs) (st (done @ replicate (length xs) []) (length xs)) (st (done @ xs) 0)"
proof (induction xs arbitrary: "done")
  case (Cons x xs)
  have "sol_feeds c rd (field_key f 2 # frame x) (st (done @ replicate (Suc (length xs)) []) (Suc (length xs)))
      (st ((done @ [x]) @ replicate (length xs) []) (length xs))"
    by (rule sol_feeds_field [OF ok])
      (simp_all only: rd readsD [OF decodes_okD(2) [OF ok(1)]] option.case prod.case fill_next_eq insertI1 insertI2 singletonI)
  from sol_feeds_append [OF this Cons.IH [of "done @ [x]"]] show ?case
    by (simp add: enc_repeated_Cons enc_field)
qed (simp add: enc_repeated_Nil sol_feeds_Nil)

text \<open>The tags of the generated Go code are the keys of the fields.\<close>

lemma tags:
  "field_key 1 0 = 0x8" "field_key 1 2 = 0xA" "field_key 2 0 = 0x10" "field_key 2 2 = 0x12" "field_key 3 0 = 0x18"
  "field_key 3 2 = 0x1A" "field_key 4 0 = 0x20" "field_key 5 2 = 0x2A" "field_key 6 2 = 0x32" "field_key 7 2 = 0x3A"
  "field_key 8 2 = 0x42"
  by (simp_all add: field_key_def)

lemma first_feeds:
  assumes ok: "decodes_ok c henc"
  shows "sol_feeds c (first_reader c) (UpdateStateMessage_enc m) (UpdateStateMessage_Reset, 0, 0)
    (m\<lparr>SimpleTreeProof := [], Input := []\<rparr>, length (SimpleTreeProof m), length (Input m))"
proof -
  let ?r0 = UpdateStateMessage_Reset
  let ?r1 = "?r0\<lparr>TrustedHeight := TrustedHeight m\<rparr>"
  let ?r2 = "?r1\<lparr>UntrustedHeight := UntrustedHeight m\<rparr>"
  let ?r3 = "?r2\<lparr>UntrustedBlockHash := UntrustedBlockHash m\<rparr>"
  let ?r4 = "?r3\<lparr>MsgTimestamp := MsgTimestamp m\<rparr>"
  let ?r5 = "?r4\<lparr>MsgAppHash := MsgAppHash m\<rparr>"
  let ?r6 = "?r5\<lparr>ZkProof := ZkProof m\<rparr>"
  let ?k = "length (SimpleTreeProof m)" and ?l = "length (Input m)"
  let ?f = "sol_feeds c (first_reader c)"
  note d = first_reader_def UpdateStateMessage_Reset_def
  have 1: "?f (enc_opt_uint (field_key 1 0) (TrustedHeight m)) (?r0, 0, 0) (?r1, 0, 0)"
    by (rule sol_feeds_opt_uint [OF ok, where store = "\<lambda>x. (?r0\<lparr>TrustedHeight := x\<rparr>, 0, 0)"]) (simp_all add: d)
  have 2: "?f (enc_opt_uint (field_key 2 0) (UntrustedHeight m)) (?r1, 0, 0) (?r2, 0, 0)"
    by (rule sol_feeds_opt_uint [OF ok, where store = "\<lambda>x. (?r1\<lparr>UntrustedHeight := x\<rparr>, 0, 0)"]) (simp_all add: d)
  have 3: "?f (enc_opt_bytes (field_key 3 2) (UntrustedBlockHash m)) (?r2, 0, 0) (?r3, 0, 0)"
    by (rule sol_feeds_opt_bytes [OF ok, where store = "\<lambda>x. (?r2\<lparr>UntrustedBlockHash := x\<rparr>, 0, 0)"]) (simp_all add: d)
  have 4: "?f (enc_opt_uint (field_key 4 0) (MsgTimestamp m)) (?r3, 0, 0) (?r4, 0, 0)"
    by (rule sol_feeds_opt_uint [OF ok, where store = "\<lambda>x. (?r3\<lparr>MsgTimestamp := x\<rparr>, 0, 0)"]) (simp_all add: d)
  have 5: "?f (enc_opt_bytes (field_key 5 2) (MsgAppHash m)) (?r4, 0, 0) (?r5, 0, 0)"
    by (rule sol_feeds_opt_bytes [OF ok, where store = "\<lambda>x. (?r4\<lparr>MsgAppHash := x\<rparr>, 0, 0)"]) (simp_all add: d)
  have 6: "?f (enc_repeated (field_key 6 2) (SimpleTreeProof m)) (?r5, 0, 0) (?r5, ?k, 0)"
    using sol_feeds_count [OF ok, of 6 "first_reader c" "\<lambda>n. (?r5, n, 0)" "SimpleTreeProof m" 0] by (simp add: d)
  have 7: "?f (enc_repeated (field_key 7 2) (Input m)) (?r5, ?k, 0) (?r5, ?k, ?l)"
    using sol_feeds_count [OF ok, of 7 "first_reader c" "\<lambda>n. (?r5, ?k, n)" "Input m" 0] by (simp add: d)
  have 8: "?f (enc_opt_bytes (field_key 8 2) (ZkProof m)) (?r5, ?k, ?l) (?r6, ?k, ?l)"
    by (rule sol_feeds_opt_bytes [OF ok, where store = "\<lambda>x. (?r5\<lparr>ZkProof := x\<rparr>, ?k, ?l)"]) (simp_all add: d)
  have m: "?r6 = m\<lparr>SimpleTreeProof := [], Input := []\<rparr>" by (simp add: UpdateStateMessage_Reset_def)
  from sol_feeds_append [OF 1 sol_feeds_append [OF 2 sol_feeds_append [OF 3 sol_feeds_append [OF 4
    sol_feeds_append [OF 5 sol_feeds_append [OF 6 sol_feeds_append [OF 7 8]]]]]]]
  show ?thesis by (simp only: UpdateStateMessage_enc_def tags m)
qed

lemma second_feeds:
  assumes ok: "decodes_ok c henc" and z: "SimpleTreeProof r = replicate (length (SimpleTreeProof m)) []"
    "Input r = replicate (length (Input m)) []"
  shows "sol_feeds c (second_reader c) (UpdateStateMessage_enc m) (r, length (SimpleTreeProof m), length (Input m))
    (r\<lparr>SimpleTreeProof := SimpleTreeProof m, Input := Input m\<rparr>, 0, 0)"
proof -
  let ?k = "length (SimpleTreeProof m)" and ?l = "length (Input m)"
  let ?f = "sol_feeds c (second_reader c)"
  let ?r1 = "r\<lparr>SimpleTreeProof := SimpleTreeProof m\<rparr>"
  note d = second_reader_def
  have 1: "?f (enc_opt_uint (field_key f 0) v) s s" if "0 < f" "f < 6" for f v s
    by (rule sol_feeds_skip_uint [OF ok]) (use that in \<open>simp_all add: d split: prod.split\<close>)
  have 2: "?f (enc_opt_bytes (field_key f 2) b) s s" if "0 < f" "f < 6 \<or> f = 8" for f b s
    by (rule sol_feeds_skip_bytes [OF ok]) (use that in \<open>auto simp: d split: prod.split\<close>)
  have "?f (enc_repeated (field_key 6 2) (SimpleTreeProof m)) (r\<lparr>SimpleTreeProof := [] @ replicate ?k []\<rparr>, ?k, ?l)
      (r\<lparr>SimpleTreeProof := [] @ SimpleTreeProof m\<rparr>, 0, ?l)"
    by (rule sol_feeds_fill [OF ok, where st = "\<lambda>xs n. (r\<lparr>SimpleTreeProof := xs\<rparr>, n, ?l)"])
      (simp_all add: d split: option.split)
  moreover have "r\<lparr>SimpleTreeProof := [] @ replicate ?k []\<rparr> = r" using z(1) [symmetric] by simp
  ultimately have 6: "?f (enc_repeated (field_key 6 2) (SimpleTreeProof m)) (r, ?k, ?l) (?r1, 0, ?l)" by simp
  have "?f (enc_repeated (field_key 7 2) (Input m)) (?r1\<lparr>Input := [] @ replicate ?l []\<rparr>, 0, ?l) (?r1\<lparr>Input := [] @ Input m\<rparr>, 0, 0)"
    by (rule sol_feeds_fill [OF ok, where st = "\<lambda>xs n. (?r1\<lparr>Input := xs\<rparr>, 0, n)"]) (simp_all add: d split: option.split)
  moreover have "?r1\<lparr>Input := [] @ replicate ?l []\<rparr> = ?r1" using z(2) [symmetric] by (cases r) simp
  ultimately have 7: "?f (enc_repeated (field_key 7 2) (Input m)) (?r1, 0, ?l) (?r1\<lparr>Input := Input m\<rparr>, 0, 0)" by simp
  from sol_feeds_append [OF 1 [of 1] sol_feeds_append [OF 1 [of 2] sol_feeds_append [OF 2 [of 3] sol_feeds_append [OF 1 [of 4]
    sol_feeds_append [OF 2 [of 5] sol_feeds_append [OF 6 sol_feeds_append [OF 7 2 [of 8]]]]]]]]
  show ?thesis by (simp only: UpdateStateMessage_enc_def tags) simp
qed

lemma arrays_swap: "m\<lparr>Input := a, SimpleTreeProof := b\<rparr> = m\<lparr>SimpleTreeProof := b, Input := a\<rparr>"
  by (cases m) simp

lemma sol_decode_update:
  assumes ok: "decodes_ok c henc" and len: "length (UpdateStateMessage_enc m) < max_len"
  shows "sol_UpdateStateMessage_decode c (UpdateStateMessage_enc m) = Some m"
proof -
  let ?k = "length (SimpleTreeProof m)" and ?l = "length (Input m)"
  let ?r = "m\<lparr>SimpleTreeProof := replicate ?k [], Input := replicate ?l []\<rparr>"
  have "decode_loop c (second_reader c) (UpdateStateMessage_enc m) (32 + length (UpdateStateMessage_enc m)) 32 (?r, ?k, ?l)
      = Some (m, 0, 0)"
    using sol_feeds_decode [OF second_feeds [OF ok, of ?r m] len] by simp
  with sol_feeds_decode [OF first_feeds [OF ok] len] show ?thesis
    by (cases "SimpleTreeProof m = []"; cases "Input m = []")
      (simp_all add: sol_UpdateStateMessage_decode_def Let_def arrays_swap)
qed

lemma sol_decode_consensus:
  assumes ok: "decodes_ok c henc" and len: "length (ConsensusState_enc m) < max_len"
  shows "sol_ConsensusState_decode c (ConsensusState_enc m) = Some m"
proof -
  let ?r0 = ConsensusState_Reset
  let ?r1 = "?r0\<lparr>BlockHash := BlockHash m\<rparr>"
  let ?r2 = "?r1\<lparr>AppHash := AppHash m\<rparr>"
  let ?r3 = "?r2\<lparr>Timestamp := Timestamp m\<rparr>"
  let ?f = "sol_feeds c (ConsensusState_reader c)"
  note d = ConsensusState_reader_def ConsensusState_Reset_def
  have 1: "?f (enc_opt_bytes (field_key 1 2) (BlockHash m)) ?r0 ?r1"
    by (rule sol_feeds_opt_bytes [OF ok, where store = "\<lambda>x. ?r0\<lparr>BlockHash := x\<rparr>"]) (simp_all add: d)
  have 2: "?f (enc_opt_bytes (field_key 2 2) (AppHash m)) ?r1 ?r2"
    by (rule sol_feeds_opt_bytes [OF ok, where store = "\<lambda>x. ?r1\<lparr>AppHash := x\<rparr>"]) (simp_all add: d)
  have 3: "?f (enc_opt_uint (field_key 3 0) (Timestamp m)) ?r2 ?r3"
    by (rule sol_feeds_opt_uint [OF ok, where store = "\<lambda>x. ?r2\<lparr>Timestamp := x\<rparr>"]) (simp_all add: d)
  have m: "?r3 = m" by (simp add: ConsensusState_Reset_def)
  from sol_feeds_append [OF 1 sol_feeds_append [OF 2 3]]
  have "?f (ConsensusState_enc m) ?r0 m" by (simp only: ConsensusState_enc_def tags m)
  from sol_feeds_decode [OF this len] show ?thesis by (simp add: sol_ConsensusState_decode_def)
qed

lemma reads_sol_Height:
  assumes ok: "decodes_ok c henc"
  shows "reads (sol_decode_Height c) h (frame (henc h))"
  unfolding reads_def
proof (intro allI impI)
  fix pre post
  let ?n = "length (henc h)" and ?u = "uvarint (word_of_nat (length (henc h)))"
  let ?bs = "pre @ frame (henc h) @ post"
  assume len: "length ?bs < max_len"
  then have "?n < max_len" by (simp add: frame_def)
  from readsD [OF decodes_okD(4) [OF ok this], of pre "henc h @ post"] len
  have "decode_size c (32 + length pre) ?bs = Some (?n, length ?u)" by (simp add: frame_def)
  moreover from readsD [OF decodes_okD(5) [OF ok], of "pre @ ?u" h post] len
  have "decode_height c (32 + length pre + length ?u) ?bs ?n = Some (h, ?n)" by (simp add: frame_def add.assoc)
  ultimately show "sol_decode_Height c (32 + length pre) ?bs = Some (h, length (frame (henc h)))"
    by (simp add: sol_decode_Height_def frame_def)
qed

lemma sol_decode_client:
  assumes ok: "decodes_ok c henc" and len: "length (ClientState_enc henc m) < max_len"
  shows "sol_ClientState_decode c (ClientState_enc henc m) = Some m"
proof -
  let ?r0 = ClientState_Reset
  let ?r1 = "?r0\<lparr>StepVerifierDigest := StepVerifierDigest m\<rparr>"
  let ?r2 = "?r1\<lparr>SkipVerifierDigest := SkipVerifierDigest m\<rparr>"
  let ?r3 = "?r2\<lparr>TrustingPeriod := TrustingPeriod m\<rparr>"
  let ?r4 = "?r3\<lparr>Frozen := Frozen m\<rparr>"
  let ?r5 = "?r4\<lparr>LatestHeight := LatestHeight m\<rparr>"
  let ?f = "sol_feeds c (ClientState_reader c)"
  note d = ClientState_reader_def ClientState_Reset_def
  have 1: "?f (enc_opt_bytes (field_key 1 2) (StepVerifierDigest m)) ?r0 ?r1"
    by (rule sol_feeds_opt_bytes [OF ok, where store = "\<lambda>x. ?r0\<lparr>StepVerifierDigest := x\<rparr>"]) (simp_all add: d)
  have 2: "?f (enc_opt_bytes (field_key 2 2) (SkipVerifierDigest m)) ?r1 ?r2"
    by (rule sol_feeds_opt_bytes [OF ok, where store = "\<lambda>x. ?r1\<lparr>SkipVerifierDigest := x\<rparr>"]) (simp_all add: d)
  have 3: "?f (enc_opt_uint (field_key 3 0) (TrustingPeriod m)) ?r2 ?r3"
    by (rule sol_feeds_opt_uint [OF ok, where store = "\<lambda>x. ?r2\<lparr>TrustingPeriod := x\<rparr>"]) (simp_all add: d)
  have "?f (field_key 4 0 # [1]) ?r3 (?r3\<lparr>Frozen := True\<rparr>)"
    by (rule sol_feeds_read [OF ok _ _ _ decodes_okD(3) [OF ok], where store = "\<lambda>x. ?r3\<lparr>Frozen := x\<rparr>"]) (simp_all add: d)
  then have 4: "?f (if Frozen m then [field_key 4 0, 1] else []) ?r3 ?r4"
    by (auto simp: sol_feeds_Nil ClientState_Reset_def)
  have 5: "?f (enc_bytes (field_key 5 2) (henc (LatestHeight m))) ?r4 ?r5"
    unfolding enc_field
    by (rule sol_feeds_read [OF ok _ _ _ reads_sol_Height [OF ok], where store = "\<lambda>x. ?r4\<lparr>LatestHeight := x\<rparr>"]) (simp_all add: d)
  have m: "?r5 = m" by (simp add: ClientState_Reset_def)
  from sol_feeds_append [OF 1 sol_feeds_append [OF 2 sol_feeds_append [OF 3 sol_feeds_append [OF 4 5]]]]
  have "?f (ClientState_enc henc m) ?r0 m" by (simp only: ClientState_enc_def tags m)
  from sol_feeds_decode [OF this len] show ?thesis by (simp add: sol_ClientState_decode_def)
qed

section \<open>Writing\<close>

definition sol_put :: "sol_writer \<Rightarrow> bytes \<Rightarrow> bool" where
  "sol_put w e \<longleftrightarrow> (\<forall>p bs. 32 \<le> p \<longrightarrow> p - 32 + length e \<le> length bs \<longrightarrow> w p bs = (copy_at bs (p - 32) e, length e))"

text \<open>The estimates are bounds of the lengths.\<close>

definition encodes_ok :: "sol_codec \<Rightarrow> (Height \<Rightarrow> bytes) \<Rightarrow> bool" where
  "encodes_ok c henc \<longleftrightarrow>
     (\<forall>f wt. 0 < f \<and> f < 16 \<and> wt \<in> {0, 2} \<longrightarrow> sol_put (encode_key c f wt) [field_key f wt])
     \<and> (\<forall>v. sol_put (encode_uint64 c v) (uvarint v)) \<and> sol_put (encode_bool c True) [1]
     \<and> (\<forall>b. sol_put (encode_bytes c b) (frame b)) \<and> (\<forall>h. sol_put (encode_nested_height c h) (frame (henc h)))
     \<and> (\<forall>h. length (henc h) \<le> estimate_height c h) \<and> (\<forall>v. sz_uint64 c v = sov v)
     \<and> (\<forall>b n. length b \<le> n \<longrightarrow> length (frame b) \<le> sz_lendelim c n)"

lemma copy_at_next:
  "n + length e + length e' \<le> length bs \<Longrightarrow> copy_at (copy_at bs n e) (n + length e) e' = copy_at bs n (e @ e')"
  by (simp add: copy_at_fits ac_simps)

lemma sol_writes_put:
  "list_all2 sol_put ws es \<Longrightarrow> 32 \<le> p \<Longrightarrow> p - 32 + length (concat es) \<le> length bs \<Longrightarrow>
     sol_writes ws (bs, p) = (copy_at bs (p - 32) (concat es), p + length (concat es))"
proof (induction arbitrary: bs p rule: list_all2_induct)
  case Nil
  then show ?case by (simp add: copy_at_def)
next
  case (Cons w ws e es)
  let ?bs = "copy_at bs (p - 32) e"
  from Cons.hyps(1) Cons.prems have w: "w p bs = (?bs, length e)" by (simp add: sol_put_def)
  have l: "length ?bs = length bs" using Cons.prems by simp
  have "sol_writes ws (?bs, p + length e) = (copy_at ?bs (p + length e - 32) (concat es), p + length e + length (concat es))"
    by (rule Cons.IH) (use Cons.prems l in simp_all)
  moreover have "copy_at ?bs (p + length e - 32) (concat es) = copy_at bs (p - 32) (e @ concat es)"
    using copy_at_next [of "p - 32" e "concat es" bs] Cons.prems by simp
  ultimately show ?case by (simp add: w add.assoc)
qed

lemma sol_encode_put:
  assumes "list_all2 sol_put ws es" and "length (concat es) \<le> n"
  shows "sol_encode n ws = concat es"
  using sol_writes_put [OF assms(1), of 32 "replicate n 0"] assms(2) by (simp add: sol_encode_def copy_at_def)

lemma list_all2_if: "(b \<Longrightarrow> list_all2 P xs ys) \<Longrightarrow> list_all2 P (if b then xs else []) (if b then ys else [])"
  by simp

lemma concat_opt: "concat (if b then [[k], e] else []) = (if b then k # e else [])"
  by simp

lemma encodes_okD:
  assumes "encodes_ok c henc"
  shows "0 < f \<Longrightarrow> f < 16 \<Longrightarrow> wt \<in> {0, 2} \<Longrightarrow> sol_put (encode_key c f wt) [field_key f wt]"
    "sol_put (encode_uint64 c v) (uvarint v)" "sol_put (encode_bool c True) [1]" "sol_put (encode_bytes c b) (frame b)"
    "sol_put (encode_nested_height c h) (frame (henc h))" "length (henc h) \<le> estimate_height c h" "sz_uint64 c v = sov v"
    "length b \<le> n \<Longrightarrow> length (frame b) \<le> sz_lendelim c n"
  using assms by (simp_all add: encodes_ok_def)

lemma sol_encode_consensus:
  assumes ok: "encodes_ok c henc"
  shows "sol_ConsensusState_encode c r = ConsensusState_enc r"
proof -
  note k = encodes_okD [OF ok]
  let ?es = "(if length (BlockHash r) \<noteq> 0 then [[field_key 1 2], frame (BlockHash r)] else [])
    @ (if length (AppHash r) \<noteq> 0 then [[field_key 2 2], frame (AppHash r)] else [])
    @ (if Timestamp r \<noteq> 0 then [[field_key 3 0], uvarint (Timestamp r)] else [])"
  have e: "concat ?es = ConsensusState_enc r"
    by (simp add: concat_opt ConsensusState_enc_def enc_opt_bytes_def enc_opt_uint_def enc_field [symmetric] tags [symmetric]
        del: One_nat_def)
  have "length (concat ?es) \<le> ConsensusState_estimate c r"
    using k(8) [of "BlockHash r" "length (BlockHash r)"] k(8) [of "AppHash r" "length (AppHash r)"]
    by (simp add: ConsensusState_estimate_def k(7) length_uvarint)
  then have "sol_ConsensusState_encode c r = concat ?es"
    unfolding sol_ConsensusState_encode_def
    by (intro sol_encode_put list_all2_appendI list_all2_if) (simp_all add: k(1-4))
  with e show ?thesis by simp
qed

lemma sol_encode_client:
  assumes ok: "encodes_ok c henc"
  shows "sol_ClientState_encode c r = ClientState_enc henc r"
proof -
  note k = encodes_okD [OF ok]
  let ?es = "(if length (StepVerifierDigest r) \<noteq> 0 then [[field_key 1 2], frame (StepVerifierDigest r)] else [])
    @ (if length (SkipVerifierDigest r) \<noteq> 0 then [[field_key 2 2], frame (SkipVerifierDigest r)] else [])
    @ (if TrustingPeriod r \<noteq> 0 then [[field_key 3 0], uvarint (TrustingPeriod r)] else [])
    @ (if Frozen r \<noteq> False then [[field_key 4 0], [1]] else [])
    @ [[field_key 5 2], frame (henc (LatestHeight r))]"
  have e: "concat ?es = ClientState_enc henc r"
    by (simp add: concat_opt ClientState_enc_def enc_opt_bytes_def enc_opt_uint_def enc_field [symmetric] tags [symmetric]
        del: One_nat_def)
  have "length (concat ?es) \<le> ClientState_estimate c r"
    using k(8) [of "StepVerifierDigest r" "length (StepVerifierDigest r)"]
      k(8) [of "SkipVerifierDigest r" "length (SkipVerifierDigest r)"] k(8) [OF k(6) [of "LatestHeight r"]]
    by (simp add: ClientState_estimate_def k(7) length_uvarint)
  then have "sol_ClientState_encode c r = concat ?es"
    unfolding sol_ClientState_encode_def
    by (intro sol_encode_put list_all2_appendI list_all2_if) (simp_all add: k(1-5))
  with e show ?thesis by simp
qed

section \<open>Queries of a client\<close>

text \<open>Any number of updates; an \<open>appHash\<close> is a \<open>bytes32\<close>.\<close>

inductive updates :: "contract \<Rightarrow> contract \<Rightarrow> bool" where
  none: "updates st st"
| more: "updates st st' \<Longrightarrow> length (inAppHash m) = 32 \<Longrightarrow> updateState st' now m = Inr st'' \<Longrightarrow> updates st st''"

lemma updates_keep:
  "updates st st' \<Longrightarrow> cLatestHeight st \<noteq> 0 \<Longrightarrow> stepVerifierDigest st' = stepVerifierDigest st
    \<and> skipVerifierDigest st' = skipVerifierDigest st \<and> revisionNumber st' = revisionNumber st
    \<and> cTrustingPeriod st' = cTrustingPeriod st \<and> cLatestHeight st \<le> cLatestHeight st'"
proof (induction rule: updates.induct)
  case (more st st' m now st'')
  then show ?case using updateState_Inr [OF more(3)] by (auto simp: max_def)
qed simp

definition words_stored :: "contract \<Rightarrow> bool" where
  "words_stored st \<longleftrightarrow> (\<forall>h. length (cBlockHash (cConsensusStates st h)) = 32 \<and> length (cAppHash (cConsensusStates st h)) = 32)"

lemma updates_words: "updates st st' \<Longrightarrow> words_stored st \<Longrightarrow> words_stored st'"
proof (induction rule: updates.induct)
  case (more st st' m now st'')
  then show ?case using updateState_Inr [OF more(3)] by (auto simp: words_stored_def length_merkleRoot)
qed simp

lemma created_words: "initializeClient (new_contract step skp revision) cs cons = Inr st \<Longrightarrow> words_stored st"
  by (auto simp: words_stored_def initializeClient_def new_contract_def no_consensus_def split: if_splits)

lemma initialized:
  "initializeClient c0 cs cons = Inr st \<Longrightarrow>
     length (StepVerifierDigest cs) = 32 \<and> length (SkipVerifierDigest cs) = 32 \<and> \<not> Frozen cs
     \<and> stepVerifierDigest st = be_nat (StepVerifierDigest cs) \<and> skipVerifierDigest st = be_nat (SkipVerifierDigest cs)
     \<and> revisionNumber st = RevisionNumber (LatestHeight cs) \<and> cTrustingPeriod st = TrustingPeriod cs
     \<and> cLatestHeight st = RevisionHeight (LatestHeight cs) \<and> RevisionHeight (LatestHeight cs) \<noteq> 0
     \<and> cConsensusStates st (RevisionHeight (LatestHeight cs)) =
         \<lparr>cBlockHash = BlockHash cons, cAppHash = AppHash cons, cTimestamp = Timestamp cons\<rparr>"
  by (auto simp: initializeClient_def bytes32_exact split: if_splits)

lemma length_enc_small:
  assumes "\<And>h. length (henc h) < 1024"
  shows "length (StepVerifierDigest m) = 32 \<Longrightarrow> length (SkipVerifierDigest m) = 32 \<Longrightarrow> length (ClientState_enc henc m) < max_len"
    and "length (BlockHash r) = 32 \<Longrightarrow> length (AppHash r) = 32 \<Longrightarrow> length (ConsensusState_enc r) < max_len"
  using assms [of "LatestHeight m"] sov_le [of 32] sov_le [of "TrustingPeriod m"] sov_le [of "Timestamp r"]
    sov_le [of "word_of_nat (length (henc (LatestHeight m)))"]
  by (simp_all add: ClientState_enc_def ConsensusState_enc_def length_enc enc_bytes_def length_uvarint)

section \<open>Properties\<close>

text \<open>
  C10: The two sides agree on the bytes: the messages the relayer marshals and packs under the type URLs it
  registered are decoded by the contract to the same messages. An update so sent does what the update with the
  message itself does, and \<open>initializeClient\<close> what it does with the two states, if the IBC handler calls it. The
  contract reads repeated fields in two passes, with a counter for each.
\<close>

theorem relayed_bytes_decoded:
  assumes lib: "decodes_ok c henc" "height_codec_ok hc henc"
    and pack: "\<And>url v. url \<in> {CLIENT_STATE_TYPE_URL, CONSENSUS_STATE_TYPE_URL, UPDATE_STATE_MESSAGE_TYPE_URL} \<Longrightarrow>
      Any_decode c (pack url v) = Some (url, v)"
    and size: "UpdateStateMessage_Size (Some msg) < max_len" "ClientState_Size hc (Some cs) < max_len"
      "ConsensusState_Size (Some cons) < max_len"
  shows "\<exists>bm bc bs. UpdateStateMessage_Marshal msg = Inr bm \<and> ClientState_Marshal hc cs = Inr bc \<and> ConsensusState_Marshal cons = Inr bs
    \<and> update_bytes K c a abi_bytes pc st now (pack (type_url UpdateStateMessage_name) bm) = update_client a abi_bytes pc st now msg
    \<and> initialize_bytes K c ibcHandler sender st (pack (type_url ClientState_name) bc) (pack (type_url ConsensusState_name) bs) =
        (if sender \<noteq> ibcHandler then Inl OnlyIBC else initializeClient st cs cons)"
proof (intro exI conjI)
  show "UpdateStateMessage_Marshal msg = Inr (UpdateStateMessage_enc msg)"
    unfolding UpdateStateMessage_Marshal_def by (rule update_state_message.marshal_enc)
  show "ClientState_Marshal hc cs = Inr (ClientState_enc henc cs)"
    unfolding ClientState_Marshal_def by (rule pb_message.marshal_enc [OF ClientState_message [OF lib(2)]])
  show "ConsensusState_Marshal cons = Inr (ConsensusState_enc cons)"
    unfolding ConsensusState_Marshal_def by (rule consensus_state.marshal_enc)
  have u: "sol_UpdateStateMessage_decode c (UpdateStateMessage_enc msg) = Some msg"
    using size(1) by (intro sol_decode_update [OF lib(1)]) (simp add: update_state_message.sz_enc)
  show "update_bytes K c a abi_bytes pc st now (pack (type_url UpdateStateMessage_name) (UpdateStateMessage_enc msg))
      = update_client a abi_bytes pc st now msg"
    by (cases "convertUpdateStateMessage msg")
      (auto simp: update_bytes_def routeUpdateClient_def pack same_url_def convert_bytes_def u update_client_def
        rbind_assoc split: prod.split)
  have "sol_ClientState_decode c (ClientState_enc henc cs) = Some cs"
    using size(2) by (intro sol_decode_client [OF lib(1)]) (simp add: pb_message.sz_enc [OF ClientState_message [OF lib(2)]])
  moreover have "sol_ConsensusState_decode c (ConsensusState_enc cons) = Some cons"
    using size(3) by (intro sol_decode_consensus [OF lib(1)]) (simp add: consensus_state.sz_enc)
  ultimately show "initialize_bytes K c ibcHandler sender st (pack (type_url ClientState_name) (ClientState_enc henc cs))
      (pack (type_url ConsensusState_name) (ConsensusState_enc cons)) =
        (if sender \<noteq> ibcHandler then Inl OnlyIBC else initializeClient st cs cons)"
    by (simp add: initialize_bytes_def unmarshalClientState_def unmarshalConsensusState_def pack same_url_def)
qed

text \<open>A runtime with the documented behaviour, made of the readers of the Go side.\<close>

definition put_at :: "bytes \<Rightarrow> sol_writer" where
  "put_at e p bs = (copy_at bs (p - 32) e, length e)"

definition example_url :: "string \<Rightarrow> byte" where
  "example_url url = (if url = CLIENT_STATE_TYPE_URL then 1 else if url = CONSENSUS_STATE_TYPE_URL then 2 else 3)"

definition example_codec :: sol_codec where
  "example_codec =
     \<lparr>decode_key = (\<lambda>p bs. if length bs \<le> p - 32 then None
        else let k = unat (bs ! (p - 32)) in Some (k div 8, k mod 8, 1)),
      decode_uint64 = (\<lambda>p bs. case read_varint bs (p - 32) 0 (0 :: 64 word) of Inl e \<Rightarrow> None | Inr (v, j) \<Rightarrow> Some (v, j - (p - 32))),
      decode_bool = (\<lambda>p bs. if length bs \<le> p - 32 then None else Some (bs ! (p - 32) \<noteq> 0, 1)),
      decode_bytes = (\<lambda>p bs. case read_bytes bs (p - 32) of Inl e \<Rightarrow> None | Inr (b, j) \<Rightarrow> Some (b, j - (p - 32))),
      decode_size = (\<lambda>p bs. case read_varint bs (p - 32) 0 (0 :: 64 word) of Inl e \<Rightarrow> None | Inr (v, j) \<Rightarrow> Some (unat v, j - (p - 32))),
      skip_field_decode = (\<lambda>w p bs. if w = 0
        then (case read_varint bs (p - 32) 0 (0 :: 64 word) of Inl e \<Rightarrow> None | Inr (v, j) \<Rightarrow> Some (j - (p - 32)))
        else (case read_bytes bs (p - 32) of Inl e \<Rightarrow> None | Inr (b, j) \<Rightarrow> Some (j - (p - 32)))),
      decode_height = (\<lambda>p bs sz. case hc_unmarshal witness_codec (take sz (drop (p - 32) bs)) zero_height of
         Inl e \<Rightarrow> None | Inr h \<Rightarrow> Some (h, sz)),
      encode_key = (\<lambda>f w. put_at [field_key f w]), encode_uint64 = (\<lambda>v. put_at (uvarint v)),
      encode_bool = (\<lambda>b. put_at [if b then 1 else 0]), encode_bytes = (\<lambda>b. put_at (frame b)),
      encode_nested_height = (\<lambda>h. put_at (frame (witness_henc h))), estimate_height = (\<lambda>h. length (witness_henc h)),
      sz_lendelim = (\<lambda>n. n + 10), sz_uint64 = sov,
      Any_decode = (\<lambda>bs. case bs of [] \<Rightarrow> None | t # v \<Rightarrow>
        Some (if t = 1 then CLIENT_STATE_TYPE_URL else if t = 2 then CONSENSUS_STATE_TYPE_URL
          else UPDATE_STATE_MESSAGE_TYPE_URL, v)),
      Any_encode = (\<lambda>url v. example_url url # v)\<rparr>"

lemma example_varint:
  "read_varint (pre @ uvarint v @ post) (length pre) 0 (0 :: 64 word) = Inr (v, length pre + length (uvarint v))"
  using read_varint_0 [of "length pre" "pre @ uvarint v @ post" v post, where ?'w = 64] by simp

lemma example_frame:
  "length (pre @ frame b @ post) < max_len \<Longrightarrow> read_bytes (pre @ frame b @ post) (length pre) = Inr (b, length pre + length (frame b))"
  using read_bytes_enc [of "length pre" "pre @ frame b @ post" b post] by (simp add: frame_def)

lemma example_key: "0 < f \<Longrightarrow> f < 16 \<Longrightarrow> w \<in> {0, 2} \<Longrightarrow> unat (field_key f w) = 8 * f + w"
proof -
  assume *: "0 < f" "f < 16" "w \<in> {0, 2}"
  then have "8 * f + w < 2 ^ LENGTH(8)" by auto
  then show ?thesis unfolding field_key_def by (simp only: unat_of_nat mod_less)
qed

lemma example_decodes_ok: "decodes_ok example_codec witness_henc"
  unfolding decodes_ok_def reads_def
proof (intro conjI allI impI)
  fix f w :: nat and pre post
  assume "0 < f \<and> f < 16 \<and> w \<in> {0, 2}"
  then show "decode_key example_codec (32 + length pre) (pre @ field_key f w # post) = Some (f, w, 1)"
    using example_key [of f w] by (auto simp: example_codec_def nth_append Let_def)
next
  fix n pre post
  assume "n < max_len"
  then show "decode_size example_codec (32 + length pre) (pre @ uvarint (word_of_nat n) @ post) =
      Some (n, length (uvarint (word_of_nat n)))"
    using example_varint [of pre "word_of_nat n" post] by (simp add: example_codec_def unat_of_nat take_bit_nat_eq_self)
next
  fix h pre post
  show "decode_height example_codec (32 + length pre) (pre @ witness_henc h @ post) (length (witness_henc h)) =
      Some (h, length (witness_henc h))"
    using height_codecD(3) [OF witness_codec_ok, of h] by (simp add: example_codec_def)
qed (simp_all add: example_codec_def example_varint example_frame nth_append)

lemma example_encodes_ok: "encodes_ok example_codec witness_henc"
proof -
  have "length (frame b) \<le> n + 10" if "length b \<le> n" for b n
    using that sov_le [of "word_of_nat (length b)"] by (simp add: frame_def length_uvarint)
  then show ?thesis
    by (simp add: encodes_ok_def sol_put_def put_at_def example_codec_def)
qed

lemma example_pack:
  "url \<in> {CLIENT_STATE_TYPE_URL, CONSENSUS_STATE_TYPE_URL, UPDATE_STATE_MESSAGE_TYPE_URL} \<Longrightarrow>
     Any_decode example_codec (Any_encode example_codec url v) = Some (url, v)"
  by (auto simp: example_codec_def example_url_def CLIENT_STATE_TYPE_URL_def CONSENSUS_STATE_TYPE_URL_def
      UPDATE_STATE_MESSAGE_TYPE_URL_def)

definition example_states :: "ClientState \<times> ConsensusState" where
  "example_states = (\<lparr>StepVerifierDigest = replicate 32 1, SkipVerifierDigest = replicate 32 2,
     TrustingPeriod = 5, Frozen = False, LatestHeight = \<lparr>RevisionNumber = 0, RevisionHeight = 9\<rparr>\<rparr>,
     \<lparr>BlockHash = replicate 32 5, AppHash = replicate 32 3, Timestamp = 7\<rparr>)"

theorem relayed_bytes_decoded_witness:
  "\<exists>bm. UpdateStateMessage_Marshal example_message = Inr bm
    \<and> update_bytes Sum256 example_codec static_abi Inr safe_contract example_contract 0
        (Any_encode example_codec (type_url UpdateStateMessage_name) bm)
      = update_client static_abi Inr safe_contract example_contract 0 example_message"
proof -
  have "UpdateStateMessage_Size (Some example_message) < max_len"
    by (simp add: UpdateStateMessage_Size_def example_message_def sov_small)
  moreover have "ClientState_Size witness_codec (Some (fst example_states)) < max_len"
    by (simp add: ClientState_Size_def example_states_def witness_codec_def witness_henc_def length_uvarint sov_small)
  moreover have "ConsensusState_Size (Some (snd example_states)) < max_len"
    by (simp add: ConsensusState_Size_def example_states_def sov_small)
  ultimately have "\<exists>bm bc bs. UpdateStateMessage_Marshal example_message = Inr bm
      \<and> ClientState_Marshal witness_codec (fst example_states) = Inr bc \<and> ConsensusState_Marshal (snd example_states) = Inr bs
      \<and> update_bytes Sum256 example_codec static_abi Inr safe_contract example_contract 0
            (Any_encode example_codec (type_url UpdateStateMessage_name) bm)
          = update_client static_abi Inr safe_contract example_contract 0 example_message
      \<and> initialize_bytes Sum256 example_codec 0 (0 :: nat) example_contract
            (Any_encode example_codec (type_url ClientState_name) bc) (Any_encode example_codec (type_url ConsensusState_name) bs)
          = (if (0 :: nat) \<noteq> 0 then Inl OnlyIBC else initializeClient example_contract (fst example_states) (snd example_states))"
    by (intro relayed_bytes_decoded [where pack = "Any_encode example_codec", OF example_decodes_ok witness_codec_ok])
      (erule example_pack)
  then show ?thesis by blast
qed

text \<open>
  C11: What a client answers: after \<open>initializeClient\<close> with two states and any number of updates,
  \<open>getClientState\<close> returns bytes whose value the relayer's \<open>Unmarshal\<close> reads as the client state it was created
  with, at the latest height; \<open>getConsensusState\<close> returns at every height with a block hash what the relayer reads as the
  state stored there, and nothing at other heights.
\<close>

theorem queried_states_read:
  assumes lib: "encodes_ok c henc" "height_codec_ok hc henc" "\<And>h. length (henc h) < 1024"
    and init: "initializeClient (new_contract step skp revision) cs cons = Inr st0" and up: "updates st0 st"
  shows "(\<exists>v. getClientState c st = (Any_encode c CLIENT_STATE_TYPE_URL v, True)
      \<and> ClientState_Unmarshal hc v ClientState_Reset = Some (Inr (cs\<lparr>LatestHeight := getLatestHeight st\<rparr>)))
    \<and> (\<forall>h. let s = cConsensusStates st (RevisionHeight h) in
        if cBlockHash s = replicate 32 0 then getConsensusState c st h = ([], False)
        else \<exists>w. getConsensusState c st h = (Any_encode c CONSENSUS_STATE_TYPE_URL w, True)
          \<and> ConsensusState_Unmarshal w ConsensusState_Reset =
              Some (Inr \<lparr>BlockHash = cBlockHash s, AppHash = cAppHash s, Timestamp = getTimestampAtHeight st h\<rparr>))"
proof -
  note i = initialized [OF init]
  with updates_keep [OF up] have keep: "stepVerifierDigest st = stepVerifierDigest st0"
      "skipVerifierDigest st = skipVerifierDigest st0" "revisionNumber st = revisionNumber st0"
      "cTrustingPeriod st = cTrustingPeriod st0" "cLatestHeight st \<noteq> 0" by auto
  have words: "words_stored st" by (rule updates_words [OF up created_words [OF init]])
  let ?cs = "cs\<lparr>LatestHeight := getLatestHeight st\<rparr>"
  have "be_pad 32 (be_nat d) = d" if "length d = 32" for d
    using be_pad_be_nat [of d] that by simp
  with i keep have "getClientState c st = (Any_encode c CLIENT_STATE_TYPE_URL (ClientState_enc henc ?cs), True)"
    by (cases cs) (simp add: getClientState_def marshalClientState_def getLatestHeight_def sol_encode_client [OF lib(1)])
  moreover have "ClientState_Unmarshal hc (ClientState_enc henc ?cs) ClientState_Reset = Some (Inr ?cs)"
    unfolding ClientState_Unmarshal_def
    by (rule pb_message.unmarshal_enc [OF ClientState_message [OF lib(2)] length_enc_small(1) [OF lib(3)]]) (simp_all add: i)
  moreover have "let s = cConsensusStates st (RevisionHeight h) in
      if cBlockHash s = replicate 32 0 then getConsensusState c st h = ([], False)
      else \<exists>w. getConsensusState c st h = (Any_encode c CONSENSUS_STATE_TYPE_URL w, True)
        \<and> ConsensusState_Unmarshal w ConsensusState_Reset =
            Some (Inr \<lparr>BlockHash = cBlockHash s, AppHash = cAppHash s, Timestamp = getTimestampAtHeight st h\<rparr>)" for h
  proof -
    let ?s = "cConsensusStates st (RevisionHeight h)"
    let ?m = "\<lparr>BlockHash = cBlockHash ?s, AppHash = cAppHash ?s, Timestamp = cTimestamp ?s\<rparr>"
    have "ConsensusState_Unmarshal (ConsensusState_enc ?m) ConsensusState_Reset = Some (Inr ?m)"
      unfolding ConsensusState_Unmarshal_def
      by (rule consensus_state.unmarshal_enc, rule length_enc_small(2) [OF lib(3)]) (use words in \<open>simp_all add: words_stored_def\<close>)
    then have "\<exists>w. Any_encode c CONSENSUS_STATE_TYPE_URL (ConsensusState_enc ?m) = Any_encode c CONSENSUS_STATE_TYPE_URL w
        \<and> ConsensusState_Unmarshal w ConsensusState_Reset = Some (Inr ?m)" by blast
    then show ?thesis
      by (simp add: Let_def getConsensusState_def marshalConsensusState_def sol_encode_consensus [OF lib(1)] getTimestampAtHeight_def)
  qed
  ultimately show ?thesis by blast
qed

theorem queried_states_read_witness:
  "\<exists>st v. initializeClient (new_contract (be_nat (replicate 32 1)) (be_nat (replicate 32 2)) 0)
        (fst example_states) (snd example_states) = Inr st
    \<and> getClientState example_codec st = (Any_encode example_codec CLIENT_STATE_TYPE_URL v, True)
    \<and> ClientState_Unmarshal witness_codec v ClientState_Reset =
        Some (Inr ((fst example_states)\<lparr>LatestHeight := getLatestHeight st\<rparr>))"
proof -
  obtain st where st: "initializeClient (new_contract (be_nat (replicate 32 1)) (be_nat (replicate 32 2)) 0)
      (fst example_states) (snd example_states) = Inr st"
    by (simp add: initializeClient_def example_states_def new_contract_def bytes32_exact)
  have "length (witness_henc h) < 1024" for h
    using sov_le [of "RevisionNumber h"] sov_le [of "RevisionHeight h"] by (simp add: witness_henc_def length_uvarint)
  from queried_states_read [OF example_encodes_ok witness_codec_ok this st updates.none] st show ?thesis by blast
qed

end
