(* ===== verification/Relay_Update.thy ===== *)
theory Relay_Update
  imports Self_Client Proof_Soundness Contract_Codec
begin

text \<open>
  What the relayer and the contract do together in one update: the relayer's inputs and siblings are those the
  contract computes, so the message of a verified header is taken when its proof is. The theorems
  are in the root theory, for one update, and in \<open>Relay_Runs\<close>, for all.
\<close>

section \<open>An update\<close>

lemma getSimpleTreeProof_shape:
  assumes "getSimpleTreeProof Sum256 ms (Some h) = Some p"
  shows "length p = 6 \<and> list_all (\<lambda>b. length b = 32) p"
proof -
  from assms obtain fs where fs: "header_fields ms h = Some fs"
    by (auto simp: getSimpleTreeProof_def headerToLeaves_def split: option.splits)
  then have "length fs = 14"
    by (auto simp: header_fields_def split: if_splits sum.splits)
  then show ?thesis
    using assms by (auto simp: getSimpleTreeProof_fields [OF fs refl] innerHash_def leafHash_def)
qed

lemma convert_relayed:
  assumes "getSimpleTreeProof Sum256 ms (Some h) = Some p" and "length ns = 3"
    and "length bh = 32" and "length ah = 32"
  shows "convertUpdateStateMessage
    \<lparr>TrustedHeight = t, UntrustedHeight = u, UntrustedBlockHash = bh, MsgTimestamp = ts,
     MsgAppHash = ah, SimpleTreeProof = p, Input = map HexBigInt_Bytes ns, ZkProof = zk\<rparr> =
   Inr (\<lparr>trustedHeight = t, untrustedHeight = u, untrustedBlockHash = bh, inTimestamp = ts, inAppHash = ah,
     inSimpleTreeProof = p, inInput = map (\<lambda>n. be_nat (bytes32 (be_bytes n))) ns\<rparr>, zk)"
  using getSimpleTreeProof_shape [OF assms(1)] assms(2-4)
  by (simp add: convertUpdateStateMessage_def convertSimpleTreeProof_def bytes32_exact
      HexBigInt_Bytes_def comp_def)

text \<open>The inputs the contract checks are those the relayer computes, read from 32 bytes.\<close>

lemma updateState_public_inputs:
  assumes "trusted < target" and "cBlockHash (cConsensusStates c trusted) = trustedHash"
    and "trustedHash \<noteq> replicate 32 0" and "length step = 32" and "length skp = 32"
    and "now \<le> unat (cTimestamp (cConsensusStates c trusted)) + unat (cTrustingPeriod c)"
    and "stepVerifierDigest c = be_nat step" and "skipVerifierDigest c = be_nat skp"
    and "targetHash = merkleRoot Sum256 ts a p"
    and ns: "ns = public_inputs step skp trusted trustedHash target targetHash"
  shows "(\<exists>c'. updateState c now
    \<lparr>trustedHeight = trusted, untrustedHeight = target, untrustedBlockHash = targetHash, inTimestamp = ts,
     inAppHash = a, inSimpleTreeProof = p, inInput = map (\<lambda>n. be_nat (bytes32 (be_bytes n))) ns\<rparr> = Inr c')
    \<longleftrightarrow> list_all aligned ns"
proof -
  have d: "be_nat x < 2 ^ 256" if "length x = 32" for x
    using be_nat_less [of x] that by simp
  have m: "x mod 2 ^ 253 < (2 :: nat) ^ 256" for x
    using mod_less_divisor [of "2 ^ 253" x] by (simp add: less_trans)
  show ?thesis
    using assms(1-9) d [OF assms(4)] d [OF assms(5)] m
    by (auto simp: ns public_inputs_def updateState_def check_step_def check_skip_def diff_1_iff Let_def
        aligned_word rbind_eq_Inr_iff not_le not_less)
qed

text \<open>
  A header of the chain: its block hash is the RFC 6962 root of its fields, its application hash has 32 bytes
  and its time fits the timestamps of the contract.
\<close>

definition header_ok :: "('v, 'b) marshalers \<Rightarrow> ('v, 'b) chain \<Rightarrow> ('v, 'b) Header \<Rightarrow> bool" where
  "header_ok ms ch hdr \<longleftrightarrow>
     length (slice (hAppHash hdr)) = 32
     \<and> 0 \<le> unix_seconds (hTime hdr) \<and> unix_seconds (hTime hdr) < 18446744073 \<and> nanosecond (hTime hdr) < 1000000000
     \<and> (case header_fields ms hdr of None \<Rightarrow> False
          | Some fs \<Rightarrow> Hash ch hdr = tree_root Sum256 (map (leafHash Sum256) fs))"

text \<open>
  The setting of an update: the relayer's client, the header it relays, and the contract
  agree on the digests, on the trusted block hash and on the header's fields, and CometBFT's
  block hash is the RFC 6962 root of the fields.
\<close>

definition header_setting ::
    "('v, 'b) marshalers \<Rightarrow> ('p, 'v, 'b) header_lib \<Rightarrow> ('v, 'b) chain \<Rightarrow> 'p tm_header \<Rightarrow> ('v, 'b) Header \<Rightarrow> bool" where
  "header_setting ms lib ch h hdr \<longleftrightarrow>
     marshalers_ok ms
     \<and> HeaderFromProto lib (signed_header h) = Inr hdr
     \<and> proto_time_of lib (signed_header h) = hTime hdr
     \<and> proto_app_hash lib (signed_header h) = slice (hAppHash hdr)
     \<and> header_ok ms ch hdr
     \<and> header_at ch (sint (RevisionHeight (tm_height h))) = Inr hdr"

definition update_setting ::
    "('v, 'b) marshalers \<Rightarrow> ('p, 'v, 'b) header_lib \<Rightarrow> ('v, 'b) chain \<Rightarrow> ZKProverClient \<Rightarrow> contract
       \<Rightarrow> 'p tm_header \<Rightarrow> uint64 \<Rightarrow> ('v, 'b) Header \<Rightarrow> bool" where
  "update_setting ms lib ch zpc c h trusted hdr \<longleftrightarrow>
     header_setting ms lib ch h hdr
     \<and> tm_header_hash zpc = tm_client ch
     \<and> length (ZKStepVerifierDigest zpc) = 32 \<and> length (ZKSkipVerifierDigest zpc) = 32
     \<and> stepVerifierDigest c = be_nat (ZKStepVerifierDigest zpc)
     \<and> skipVerifierDigest c = be_nat (ZKSkipVerifierDigest zpc)
     \<and> length (cBlockHash (cConsensusStates c trusted)) = 32
     \<and> cBlockHash (cConsensusStates c trusted) \<noteq> replicate 32 0
     \<and> tm_header_hash zpc (sint trusted) = Inr (cBlockHash (cConsensusStates c trusted))"

lemma header_committed:
  assumes "marshalers_ok ms" and "header_ok ms ch hdr"
  obtains ah p where "hAppHash hdr = Some ah" "length ah = 32" "getSimpleTreeProof Sum256 ms (Some hdr) = Some p"
    "map length p = replicate 6 32" "Hash ch hdr = merkleRoot Sum256 (UnixNano (hTime hdr)) ah p"
proof -
  note S = assms [unfolded header_ok_def]
  from S obtain fs where fs: "header_fields ms hdr = Some fs"
    and hash: "Hash ch hdr = tree_root Sum256 (map (leafHash Sum256) fs)"
    by (auto split: option.splits)
  from S obtain ah where ah: "hAppHash hdr = Some ah" "length ah = 32"
    by (auto simp: slice_def split: option.splits)
  from ah(2) have "ah \<noteq> []" by auto
  with S ah obtain p where "getSimpleTreeProof Sum256 ms (Some hdr) = Some p"
    "merkleRoot Sum256 (UnixNano (hTime hdr)) ah p = tree_root Sum256 (map (leafHash Sum256) fs)"
    using simple_tree_proof_root [of ms hdr fs ah Sum256] fs by auto
  moreover from getSimpleTreeProof_shape [OF this(1)] have "map length p = replicate 6 32"
    by (auto simp: list_eq_iff_nth_eq list_all_length)
  ultimately show ?thesis using that ah hash by simp
qed

lemma delivered_inputs:
  assumes setting: "update_setting ms lib ch zpc c h trusted hdr" and lt: "trusted < RevisionHeight (tm_height h)"
    and wait: "wait_reach {Prove w zpc trusted (RevisionHeight (tm_height h))} s" "waiter s = GotProof proof"
  shows "ZKInput proof = public_inputs (ZKStepVerifierDigest zpc) (ZKSkipVerifierDigest zpc) trusted
    (cBlockHash (cConsensusStates c trusted)) (RevisionHeight (tm_height h)) (Hash ch hdr)"
proof -
  note S = setting [unfolded update_setting_def header_setting_def header_ok_def]
  obtain ah p where root: "Hash ch hdr = merkleRoot Sum256 (UnixNano (hTime hdr)) ah p"
    using header_committed setting [unfolded update_setting_def header_setting_def] by metis
  from S have tgt: "tm_header_hash zpc (sint (RevisionHeight (tm_height h))) = Inr (Hash ch hdr)"
    by (simp add: tm_client_def)
  from wait_inv_reach [OF wait(1)] wait(2) have "Prove w zpc trusted (RevisionHeight (tm_height h)) = Inr proof"
    by (auto simp: wait_inv_def)
  then obtain m where m: "proveMock zpc trusted (RevisionHeight (tm_height h)) = Inr m" "ZKInput proof = ZKInput m"
    using Prove_inputs by blast
  have "proveMock zpc trusted (RevisionHeight (tm_height h)) = Inr \<lparr>ZKInput = public_inputs (ZKStepVerifierDigest zpc)
      (ZKSkipVerifierDigest zpc) trusted (cBlockHash (cConsensusStates c trusted)) (RevisionHeight (tm_height h)) (Hash ch hdr),
      ZKProofOf = MockProof\<rparr>"
    by (rule proveMock_expected [OF lt tgt]) (use S in \<open>blast | simp only: root length_merkleRoot\<close>)+
  with m show ?thesis by auto
qed

text \<open>What the contract keeps of a header.\<close>

definition header_state :: "('v, 'b) chain \<Rightarrow> ('v, 'b) Header \<Rightarrow> cConsensus" where
  "header_state ch hdr =
     \<lparr>cBlockHash = Hash ch hdr, cAppHash = slice (hAppHash hdr), cTimestamp = UnixNano (hTime hdr)\<rparr>"

definition store_header :: "('v, 'b) chain \<Rightarrow> ('v, 'b) Header \<Rightarrow> uint64 \<Rightarrow> contract \<Rightarrow> contract" where
  "store_header ch hdr height c =
     c\<lparr>cConsensusStates := (cConsensusStates c)(height := header_state ch hdr), cLatestHeight := max (cLatestHeight c) height\<rparr>"

lemma relayed_update:
  assumes setting: "update_setting ms lib ch zpc c h trusted hdr"
    and cp: "cp_latest_height cp = Inr cph" "cp_client_height cp cph = Inr latest" "RevisionHeight latest = trusted"
    and lt: "trusted < RevisionHeight (tm_height h)"
    and wait: "wait_reach {Prove w zpc trusted (RevisionHeight (tm_height h))} s" "waiter s = GotProof proof"
    and abi: "EncodeEthABI a (ZKProofOf proof) = Inr zk"
    and now: "now \<le> unat (cTimestamp (cConsensusStates c trusted)) + unat (cTrustingPeriod c)"
  shows "\<exists>msg i. SetupHeadersForUpdate Sum256 ms lib a ch cp (TmHeader h) (waiter s) = Inr msg
    \<and> convertUpdateStateMessage msg = Inr (i, zk)
    \<and> inInput i = map (\<lambda>n. be_nat (bytes32 (be_bytes n))) (ZKInput proof)
    \<and> ((\<exists>c'. updateState c now i = Inr c') \<longleftrightarrow> list_all aligned (ZKInput proof))
    \<and> (\<forall>c'. updateState c now i = Inr c' \<longrightarrow> c' = store_header ch hdr (RevisionHeight (tm_height h)) c)"
proof -
  define target where "target = RevisionHeight (tm_height h)"
  note S = setting [unfolded update_setting_def header_setting_def header_ok_def, folded target_def]
  obtain ah p where ah: "hAppHash hdr = Some ah" "length ah = 32"
    and p: "getSimpleTreeProof Sum256 ms (Some hdr) = Some p"
    and root: "Hash ch hdr = merkleRoot Sum256 (UnixNano (hTime hdr)) ah p"
    using header_committed setting [unfolded update_setting_def header_setting_def] by metis
  let ?th = "cBlockHash (cConsensusStates c trusted)"
  have ns: "ZKInput proof = public_inputs (ZKStepVerifierDigest zpc) (ZKSkipVerifierDigest zpc) trusted ?th target (Hash ch hdr)"
    using delivered_inputs [OF setting lt wait] by (simp add: target_def)
  let ?msg = "\<lparr>TrustedHeight = trusted, UntrustedHeight = target, UntrustedBlockHash = Hash ch hdr,
     MsgTimestamp = UnixNano (hTime hdr), MsgAppHash = ah, SimpleTreeProof = p,
     Input = map HexBigInt_Bytes (ZKInput proof), ZkProof = zk\<rparr>"
  have msg: "SetupHeadersForUpdate Sum256 ms lib a ch cp (TmHeader h) (waiter s) = Inr ?msg"
    using S cp lt abi ah p wait(2)
    by (simp add: SetupHeadersForUpdate_def setup_start_def setup_finish_def target_def slice_def Let_def not_le)
  have "length (ZKInput proof) = 3" by (simp add: ns public_inputs_def)
  note conv = convert_relayed [OF p(1) this, of "Hash ch hdr" ah trusted target "UnixNano (hTime hdr)" zk]
  show ?thesis
  proof (intro exI conjI)
    show "SetupHeadersForUpdate Sum256 ms lib a ch cp (TmHeader h) (waiter s) = Inr ?msg" by (rule msg)
    show "convertUpdateStateMessage ?msg = Inr (\<lparr>trustedHeight = trusted, untrustedHeight = target,
        untrustedBlockHash = Hash ch hdr, inTimestamp = UnixNano (hTime hdr), inAppHash = ah,
        inSimpleTreeProof = p, inInput = map (\<lambda>n. be_nat (bytes32 (be_bytes n))) (ZKInput proof)\<rparr>, zk)"
      by (rule conv) (simp_all add: root length_merkleRoot ah)
    show "(\<exists>c'. updateState c now \<lparr>trustedHeight = trusted, untrustedHeight = target,
        untrustedBlockHash = Hash ch hdr, inTimestamp = UnixNano (hTime hdr), inAppHash = ah,
        inSimpleTreeProof = p, inInput = map (\<lambda>n. be_nat (bytes32 (be_bytes n))) (ZKInput proof)\<rparr> = Inr c')
      \<longleftrightarrow> list_all aligned (ZKInput proof)"
      by (rule updateState_public_inputs [OF lt [folded target_def] refl _ _ _ now _ _ root ns])
        (use S in simp_all)
    show "\<forall>c'. updateState c now \<lparr>trustedHeight = trusted, untrustedHeight = target,
        untrustedBlockHash = Hash ch hdr, inTimestamp = UnixNano (hTime hdr), inAppHash = ah,
        inSimpleTreeProof = p, inInput = map (\<lambda>n. be_nat (bytes32 (be_bytes n))) (ZKInput proof)\<rparr> = Inr c'
      \<longrightarrow> c' = store_header ch hdr (RevisionHeight (tm_height h)) c"
      by (auto simp: store_header_def header_state_def target_def slice_def ah dest!: updateState_Inr)
  qed simp
qed

text \<open>With the contract's check of the proof in front of \<open>updateState\<close>.\<close>

lemma read_aligned:
  "list_all (\<lambda>n. n < 2 ^ 256) ns \<Longrightarrow> list_all aligned ns \<Longrightarrow> map (\<lambda>n. be_nat (bytes32 (be_bytes n))) ns = ns"
  by (induction ns) (simp_all add: aligned_word)

lemma relayed_update_verified:
  assumes setting: "update_setting ms lib ch zpc c h trusted hdr"
    and cp: "cp_latest_height cp = Inr cph" "cp_client_height cp cph = Inr latest" "RevisionHeight latest = trusted"
    and lt: "trusted < RevisionHeight (tm_height h)"
    and wait: "wait_reach {Prove w zpc trusted (RevisionHeight (tm_height h))} s" "waiter s = GotProof proof"
    and abi: "abi_ok a"
    and now: "now \<le> unat (cTimestamp (cConsensusStates c trusted)) + unat (cTrustingPeriod c)"
  shows "\<exists>msg. SetupHeadersForUpdate Sum256 ms lib a ch cp (TmHeader h) (waiter s) = Inr msg
    \<and> (\<exists>i zk. convertUpdateStateMessage msg = Inr (i, zk))
    \<and> (\<forall>pc abi_bytes. serves pc (ZKProofOf proof) \<longrightarrow>
        ((\<exists>c'. update_client a abi_bytes pc c now msg = Inr c')
          \<longleftrightarrow> checked_by pc (ZKProofOf proof) (ZKInput proof) \<and> list_all aligned (ZKInput proof))
        \<and> (\<forall>c'. update_client a abi_bytes pc c now msg = Inr c' \<longrightarrow> c' = store_header ch hdr (RevisionHeight (tm_height h)) c))"
proof -
  from wait_inv_reach [OF wait(1)] wait(2) have P: "Prove w zpc trusted (RevisionHeight (tm_height h)) = Inr proof"
    by (auto simp: wait_inv_def)
  note typed = Prove_typed [OF P]
  obtain zk where zk: "EncodeEthABI a (ZKProofOf proof) = Inr zk"
    using EncodeEthABI_typed [OF abi typed] by blast
  obtain msg i where msg: "SetupHeadersForUpdate Sum256 ms lib a ch cp (TmHeader h) (waiter s) = Inr msg"
      "convertUpdateStateMessage msg = Inr (i, zk)"
      and inp: "inInput i = map (\<lambda>n. be_nat (bytes32 (be_bytes n))) (ZKInput proof)"
      and up: "(\<exists>c'. updateState c now i = Inr c') \<longleftrightarrow> list_all aligned (ZKInput proof)"
      and stored: "\<forall>c'. updateState c now i = Inr c' \<longrightarrow> c' = store_header ch hdr (RevisionHeight (tm_height h)) c"
    using relayed_update [OF setting cp lt wait zk now] by blast
  have "list_all (\<lambda>n. n < 2 ^ 256) (ZKInput proof)"
    by (rule Prove_words [OF P])
  then have "list_all aligned (ZKInput proof) \<Longrightarrow> inInput i = ZKInput proof"
    unfolding inp by (rule read_aligned)
  with msg up stored update_client_delivered [OF abi typed zk _ msg(2)] show ?thesis by auto
qed

section \<open>The creation of a client\<close>

lemma initializeClient_digests:
  "initializeClient c0 cs cons = Inr c \<Longrightarrow>
     stepVerifierDigest c = be_nat (bytes32 (StepVerifierDigest cs))
     \<and> skipVerifierDigest c = be_nat (bytes32 (SkipVerifierDigest cs))
     \<and> cConsensusStates c (RevisionHeight (LatestHeight cs)) =
         \<lparr>cBlockHash = bytes32 (BlockHash cons), cAppHash = bytes32 (AppHash cons), cTimestamp = Timestamp cons\<rparr>
     \<and> length (BlockHash cons) = 32 \<and> cTrustingPeriod c = TrustingPeriod cs"
  by (auto simp: initializeClient_def split: if_splits)

lemma NewProver_client:
  "NewProver ch config = Inr pr \<Longrightarrow>
     pr_config pr = config \<and> tm_header_hash (zkProverClient pr) = tm_client ch
     \<and> GetStepVerifierDigest config = Inr (ZKStepVerifierDigest (zkProverClient pr))
     \<and> GetSkipVerifierDigest config = Inr (ZKSkipVerifierDigest (zkProverClient pr))"
  by (auto simp: NewProver_def NewZKProverClient_def rbind_eq_Inr_iff)

text \<open>The application hash the contract has after an update is the one of the relayed header.\<close>

lemma updated_app_hash:
  assumes built: "SetupHeadersForUpdate H ms lib a ch cp (TmHeader h) outcome = Inr msg"
    and update: "convertUpdateStateMessage msg = Inr (i, zk)" "updateState c now i = Inr c'"
  shows "cAppHash (cConsensusStates c' (RevisionHeight (tm_height h))) = bytes32 (proto_app_hash lib (signed_header h))
    \<and> revisionNumber c' = revisionNumber c"
proof -
  from built have "MsgAppHash msg = proto_app_hash lib (signed_header h)"
      and "UntrustedHeight msg = RevisionHeight (tm_height h)"
    by (auto simp: SetupHeadersForUpdate_success_iff)
  with update(1) have "inAppHash i = bytes32 (proto_app_hash lib (signed_header h))"
      and "untrustedHeight i = RevisionHeight (tm_height h)"
    by (auto simp: convertUpdateStateMessage_def split: if_splits)
  with updateState_Inr [OF update(2)] show ?thesis by auto
qed

section \<open>An example\<close>

definition example_target :: "(nat, bytes) Header" where
  "example_target = example_header\<lparr>hHeight := 7\<rparr>"

definition example_chain :: "(nat, bytes) chain" where
  "example_chain =
     \<lparr>header_at = (\<lambda>h. if h = 5 then Inr example_header else if h = 7 then Inr example_target else Inl ''height''),
      Hash = (\<lambda>h. if hHeight h = 5 then replicate 32 5
        else case header_fields example_marshalers h of None \<Rightarrow> []
          | Some fs \<Rightarrow> tree_root Sum256 (map (leafHash Sum256) fs))\<rparr>"

definition example_tm_header :: "(nat, bytes) Header tm_header" where
  "example_tm_header = \<lparr>signed_header = example_target, commit_hash = Hash example_chain example_target,
     tm_height = \<lparr>RevisionNumber = 0, RevisionHeight = 7\<rparr>\<rparr>"

definition example_counterparty :: counterparty where
  "example_counterparty = \<lparr>cp_latest_height = Inr \<lparr>RevisionNumber = 0, RevisionHeight = 100\<rparr>,
     cp_client_height = (\<lambda>h. Inr \<lparr>RevisionNumber = 0, RevisionHeight = 5\<rparr>)\<rparr>"

definition example_zpc :: ZKProverClient where
  "example_zpc = NewZKProverClient ''mock'' [] (replicate 32 1) (replicate 32 2) (tm_client example_chain)"

lemma example_target_fields: "\<exists>fs. header_fields example_marshalers example_target = Some fs"
  by (simp add: header_fields_def example_marshalers_def example_target_def example_header_def
      slice_def valid_time_def)

lemma example_setting:
  "update_setting example_marshalers example_lib example_chain example_zpc example_contract
     example_tm_header 5 example_target"
proof -
  obtain fs where fs: "header_fields example_marshalers example_target = Some fs"
    using example_target_fields ..
  have "hHeight example_target \<noteq> 5" and "hHeight example_header = 5"
    by (simp_all add: example_target_def example_header_def)
  then have "Hash example_chain example_target = tree_root Sum256 (map (leafHash Sum256) fs)"
    and "Hash example_chain example_header = replicate 32 5"
    by (simp_all add: example_chain_def fs)
  moreover have "hTime example_target = \<lparr>unix_seconds = 1700000000, nanosecond = 7\<rparr>"
    and "hAppHash example_target = Some (replicate 32 3)"
    by (simp_all add: example_target_def example_header_def)
  ultimately show ?thesis
    using example_marshalers_ok fs
    by (simp add: update_setting_def header_setting_def header_ok_def example_lib_def example_tm_header_def example_zpc_def
        NewZKProverClient_def example_contract_def new_contract_def tm_client_def slice_def
        example_chain_def)
qed

text \<open>A run of the wait loop that delivers the mock proof at the first tick.\<close>

lemma example_wait:
  "\<exists>r. wait_reach {Prove example_net example_zpc 5 (RevisionHeight (tm_height example_tm_header))} (got_state r)
    \<and> ZKProofOf r = MockProof"
proof -
  let ?R = "{Prove example_net example_zpc 5 (RevisionHeight (tm_height example_tm_header))}"
  obtain r where r: "Prove example_net example_zpc 5 (RevisionHeight (tm_height example_tm_header)) = Inr r"
      "ZKProofOf r = MockProof"
    by (simp add: Prove_def example_zpc_def NewZKProverClient_def MockProverType_def proveMock_def
        header_hash_def int64Ptr_def tm_client_def example_chain_def example_tm_header_def Let_def)
  have "wait_reach ?R (got_state r)" unfolding r(1) by (rule got_state_reach)
  with r(2) show ?thesis by blast
qed

end
