(* ===== verification/Relay_Runs.thy ===== *)
theory Relay_Runs
  imports Relay_Update
begin

text \<open>
  A client from its creation through any number of updates, which anybody may submit. If accepted
  proofs are sound and nothing hashed collides, all it ever stores are headers of the chain, so the relayer can
  always go on from the latest one, and what the client says of the chain's state is true.
\<close>

section \<open>Histories of a client\<close>

text \<open>
  \<open>M\<close> are the messages that are ever submitted. A client is created with a header of the chain; a message that the
  contract refuses leaves it as it is.
\<close>

inductive client_history :: "('v, 'b) chain \<Rightarrow> abi \<Rightarrow> (bytes \<Rightarrow> string + bytes) \<Rightarrow> prover_contract \<Rightarrow> UpdateStateMessage set
    \<Rightarrow> nat \<Rightarrow> nat \<Rightarrow> uint64 \<Rightarrow> contract \<Rightarrow> bool"
  for ch a abi_bytes pc M step skp revision where
  created: "initializeClient (new_contract step skp revision) cs
      \<lparr>BlockHash = Hash ch hdr, AppHash = slice (hAppHash hdr), Timestamp = UnixNano (hTime hdr)\<rparr> = Inr c \<Longrightarrow>
    header_at ch (sint (RevisionHeight (LatestHeight cs))) = Inr hdr \<Longrightarrow>
    client_history ch a abi_bytes pc M step skp revision c"
| updated: "client_history ch a abi_bytes pc M step skp revision c \<Longrightarrow> msg \<in> M \<Longrightarrow>
    update_client a abi_bytes pc c now msg = Inr c' \<Longrightarrow> client_history ch a abi_bytes pc M step skp revision c'"

section \<open>What is assumed\<close>

text \<open>The headers at the heights of the messages are well formed.\<close>

definition target_heights :: "UpdateStateMessage set \<Rightarrow> uint64 set" where
  "target_heights M = UntrustedHeight ` M"

definition chain_ok :: "('v, 'b) marshalers \<Rightarrow> ('v, 'b) chain \<Rightarrow> uint64 set \<Rightarrow> bool" where
  "chain_ok ms ch K \<longleftrightarrow> marshalers_ok ms
     \<and> (\<forall>h \<in> K. \<forall>hdr. header_at ch (sint h) = Inr hdr \<longrightarrow> header_ok ms ch hdr)"

text \<open>A block hash of the chain.\<close>

definition chain_block :: "('v, 'b) chain \<Rightarrow> uint64 \<Rightarrow> bytes \<Rightarrow> bool" where
  "chain_block ch h b \<longleftrightarrow> tm_client ch (sint h) = Inr b"

text \<open>
  The updates and proofs that reach the contract from the submitted messages. The proofs among them are
  sound (\<open>proof_sound\<close>) for the blocks of the chain.
\<close>

definition submitted :: "abi \<Rightarrow> (bytes \<Rightarrow> string + bytes) \<Rightarrow> prover_contract \<Rightarrow> UpdateStateMessage set
    \<Rightarrow> (UpdateStateInput \<times> proof_args) set" where
  "submitted a abi_bytes pc M = {(m, args). \<exists>msg \<in> M. \<exists>zk. convertUpdateStateMessage msg = Inr (m, zk)
     \<and> routeUpdateState a abi_bytes pc zk = Inr args}"

abbreviation sound_updates :: "abi \<Rightarrow> (bytes \<Rightarrow> string + bytes) \<Rightarrow> prover_contract \<Rightarrow> nat \<Rightarrow> nat
    \<Rightarrow> (uint64 \<Rightarrow> bytes \<Rightarrow> bool) \<Rightarrow> UpdateStateMessage set \<Rightarrow> bool" where
  "sound_updates a abi_bytes pc step skp valid M \<equiv> proof_sound pc step skp valid (submitted a abi_bytes pc M)"

lemma no_submitted: "proof_sound pc step skp valid (submitted a abi_bytes pc {})"
  by (simp add: proof_sound_def submitted_def)

text \<open>The strings that are hashed into the block hashes of the chain and of the messages, and a collision among strings.\<close>

definition header_strings :: "('v, 'b) marshalers \<Rightarrow> ('v, 'b) Header \<Rightarrow> bytes set" where
  "header_strings ms hdr = (case getSimpleTreeProof Sum256 ms (Some hdr) of None \<Rightarrow> {}
     | Some p \<Rightarrow> set (merkle_inputs Sum256 (UnixNano (hTime hdr)) (slice (hAppHash hdr)) p))"

definition message_strings :: "UpdateStateMessage \<Rightarrow> bytes set" where
  "message_strings msg = (case convertUpdateStateMessage msg of Inl e \<Rightarrow> {}
     | Inr (m, zk) \<Rightarrow> set (merkle_inputs Sum256 (inTimestamp m) (inAppHash m) (inSimpleTreeProof m)))"

definition hashed_strings :: "('v, 'b) marshalers \<Rightarrow> ('v, 'b) chain \<Rightarrow> UpdateStateMessage set \<Rightarrow> bytes set" where
  "hashed_strings ms ch M =
     (\<Union>(header_strings ms ` {hdr. \<exists>h \<in> target_heights M. header_at ch (sint h) = Inr hdr})) \<union> (\<Union>(message_strings ` M))"

definition collision :: "(bytes \<Rightarrow> bytes) \<Rightarrow> bytes set \<Rightarrow> bool" where
  "collision H S \<longleftrightarrow> (\<exists>x \<in> S. \<exists>y \<in> S. x \<noteq> y \<and> H x = H y)"

lemma not_collision: "\<not> collision H S \<longleftrightarrow> inj_on H S"
  by (auto simp: collision_def inj_on_def)

lemma collision_mono: "collision H S \<Longrightarrow> S \<subseteq> T \<Longrightarrow> collision H T"
  by (auto simp: collision_def)

section \<open>Facts on messages\<close>

lemma converted_shape:
  assumes "convertUpdateStateMessage msg = Inr (m, zk)"
  shows "length (inInput m) = 3" "length (inAppHash m) = 32" "length (untrustedBlockHash m) = 32"
    "map length (inSimpleTreeProof m) = replicate 6 32"
proof -
  have "map length (take 6 p) = replicate 6 32" if "convertSimpleTreeProof p = Inr q" for p q :: "bytes list"
    using that by (auto simp: convertSimpleTreeProof_def list_eq_iff_nth_eq list_all_length split: if_splits)
  then show "length (inInput m) = 3" "length (inAppHash m) = 32" "length (untrustedBlockHash m) = 32"
    "map length (inSimpleTreeProof m) = replicate 6 32"
    using assms by (auto simp: convertUpdateStateMessage_def convertSimpleTreeProof_def rbind_eq_Inr_iff split: if_splits)
qed

lemma update_client_Inr:
  assumes "update_client a abi_bytes pc c now msg = Inr c'"
  obtains m zk args where "convertUpdateStateMessage msg = Inr (m, zk)" "routeUpdateState a abi_bytes pc zk = Inr args"
    "call_update pc c now m args = Inr c'" "updateState c now m = Inr c'"
  using assms by (auto simp: update_client_def rbind_eq_Inr_iff dest: call_update_Inr)

section \<open>The invariant\<close>

text \<open>A state in which the fields are those of a message of \<open>M\<close> for its height.\<close>

definition from_message :: "UpdateStateMessage set \<Rightarrow> uint64 \<Rightarrow> cConsensus \<Rightarrow> bool" where
  "from_message M h s \<longleftrightarrow> (\<exists>msg \<in> M. \<exists>m zk. convertUpdateStateMessage msg = Inr (m, zk) \<and> untrustedHeight m = h
     \<and> cBlockHash s = merkleRoot Sum256 (inTimestamp m) (inAppHash m) (inSimpleTreeProof m)
     \<and> cAppHash s = inAppHash m \<and> cTimestamp s = inTimestamp m)"

definition state_inv :: "('v, 'b) chain \<Rightarrow> UpdateStateMessage set \<Rightarrow> uint64 \<Rightarrow> cConsensus \<Rightarrow> bool" where
  "state_inv ch M h s \<longleftrightarrow> s = no_consensus
     \<or> chain_block ch h (cBlockHash s) \<and> length (cBlockHash s) = 32
       \<and> ((\<exists>hdr. header_at ch (sint h) = Inr hdr \<and> s = header_state ch hdr) \<or> from_message M h s)"

definition history_inv :: "('v, 'b) chain \<Rightarrow> UpdateStateMessage set \<Rightarrow> nat \<Rightarrow> nat \<Rightarrow> uint64 \<Rightarrow> contract \<Rightarrow> bool" where
  "history_inv ch M step skp revision c \<longleftrightarrow>
     stepVerifierDigest c = step \<and> skipVerifierDigest c = skp \<and> revisionNumber c = revision
     \<and> (\<forall>h. state_inv ch M h (cConsensusStates c h))"

lemma chain_block_header:
  "chain_block ch h b \<longleftrightarrow> (\<exists>hdr. header_at ch (sint h) = Inr hdr \<and> Hash ch hdr = b)"
  by (auto simp: chain_block_def tm_client_def split: sum.splits)

lemma state_inv_block:
  "state_inv ch M h s \<Longrightarrow> cBlockHash s \<noteq> replicate 32 0 \<Longrightarrow> chain_block ch h (cBlockHash s) \<and> length (cBlockHash s) = 32"
  by (auto simp: state_inv_def no_consensus_def)

lemma history_inv_created:
  assumes init: "initializeClient (new_contract step skp revision) cs
      \<lparr>BlockHash = Hash ch hdr, AppHash = slice (hAppHash hdr), Timestamp = UnixNano (hTime hdr)\<rparr> = Inr c"
    and hdr: "header_at ch (sint (RevisionHeight (LatestHeight cs))) = Inr hdr"
  shows "history_inv ch M step skp revision c"
proof -
  let ?h = "RevisionHeight (LatestHeight cs)"
  have "cConsensusStates c = (\<lambda>h. no_consensus)(?h := header_state ch hdr)"
      "stepVerifierDigest c = step" "skipVerifierDigest c = skp" "revisionNumber c = revision" "length (Hash ch hdr) = 32"
    using init by (auto simp: initializeClient_def new_contract_def header_state_def bytes32_exact split: if_splits)
  with hdr show ?thesis
    by (auto simp: history_inv_def state_inv_def header_state_def chain_block_header)
qed

lemma history_inv_updated:
  assumes inv: "history_inv ch M step skp revision c"
    and sound: "sound_updates a abi_bytes pc step skp (chain_block ch) M"
    and msg: "msg \<in> M" "update_client a abi_bytes pc c now msg = Inr c'"
  shows "history_inv ch M step skp revision c'"
proof -
  obtain m zk args where m: "convertUpdateStateMessage msg = Inr (m, zk)" "routeUpdateState a abi_bytes pc zk = Inr args"
      "call_update pc c now m args = Inr c'" "updateState c now m = Inr c'"
    using msg(2) by (rule update_client_Inr)
  note shape = converted_shape [OF m(1)] and u = updateState_Inr [OF m(4)]
  from inv have d: "stepVerifierDigest c = step" "skipVerifierDigest c = skp"
      and s: "state_inv ch M (trustedHeight m) (cConsensusStates c (trustedHeight m))"
    by (simp_all add: history_inv_def)
  have "(m, args) \<in> submitted a abi_bytes pc M"
    using msg(1) m(1,2) by (auto simp: submitted_def)
  from proof_soundD [OF sound this shape(1) m(3) d] state_inv_block [OF s] u
  have "chain_block ch (untrustedHeight m) (untrustedBlockHash m)" by blast
  moreover have "from_message M (untrustedHeight m)
      \<lparr>cBlockHash = untrustedBlockHash m, cAppHash = inAppHash m, cTimestamp = inTimestamp m\<rparr>"
    unfolding from_message_def using msg(1) m(1) u by auto
  ultimately show ?thesis
    using inv u shape(3) by (auto simp: history_inv_def state_inv_def)
qed

lemma history_inv:
  assumes "client_history ch a abi_bytes pc M step skp revision c"
    and "sound_updates a abi_bytes pc step skp (chain_block ch) M"
  shows "history_inv ch M step skp revision c"
  using assms(1) by induction (blast intro: history_inv_created history_inv_updated assms(2))+

text \<open>Without a collision, the fields of a message with the block hash of a header are the header's.\<close>

lemma from_message_header:
  assumes ok: "chain_ok ms ch (target_heights M)" and hdr: "header_at ch (sint h) = Inr hdr"
    and s: "from_message M h s" "cBlockHash s = Hash ch hdr"
    and inj: "\<not> collision Sum256 (hashed_strings ms ch M)"
  shows "s = header_state ch hdr"
proof -
  from s(1) obtain msg m zk where m: "msg \<in> M" "convertUpdateStateMessage msg = Inr (m, zk)" "untrustedHeight m = h"
      "cBlockHash s = merkleRoot Sum256 (inTimestamp m) (inAppHash m) (inSimpleTreeProof m)"
      "cAppHash s = inAppHash m" "cTimestamp s = inTimestamp m"
    by (auto simp: from_message_def)
  note shape = converted_shape [OF m(2)]
  from m(1-3) have target: "h \<in> target_heights M"
    by (auto simp: target_heights_def convertUpdateStateMessage_def rbind_eq_Inr_iff split: if_splits)
  with ok hdr have h: "marshalers_ok ms" "header_ok ms ch hdr" by (auto simp: chain_ok_def)
  obtain ah p where p: "hAppHash hdr = Some ah" "length ah = 32" "getSimpleTreeProof Sum256 ms (Some hdr) = Some p"
      "map length p = replicate 6 32" "Hash ch hdr = merkleRoot Sum256 (UnixNano (hTime hdr)) ah p"
    using header_committed [OF h] by metis
  have strings: "set (merkle_inputs Sum256 (inTimestamp m) (inAppHash m) (inSimpleTreeProof m)) \<subseteq> hashed_strings ms ch M"
      "set (merkle_inputs Sum256 (UnixNano (hTime hdr)) ah p) \<subseteq> hashed_strings ms ch M"
    using m(1,2) hdr target p(1,3) by (force simp: hashed_strings_def header_strings_def message_strings_def slice_def)+
  have "inTimestamp m = UnixNano (hTime hdr) \<and> inAppHash m = ah \<and> inSimpleTreeProof m = p"
  proof (rule merkleRoot_injD)
    show "inj_on Sum256 (set (merkle_inputs Sum256 (inTimestamp m) (inAppHash m) (inSimpleTreeProof m)
        @ merkle_inputs Sum256 (UnixNano (hTime hdr)) ah p))"
      by (rule inj_on_subset [OF inj [unfolded not_collision]]) (use strings in simp)
  qed (use shape p s(2) m(4) in simp_all)
  with m p s(2) show ?thesis by (cases s) (simp add: header_state_def slice_def)
qed

lemma history_header:
  assumes hist: "client_history ch a abi_bytes pc M step skp revision c" and ok: "chain_ok ms ch (target_heights M)"
    and sound: "sound_updates a abi_bytes pc step skp (chain_block ch) M"
    and inj: "\<not> collision Sum256 (hashed_strings ms ch M)"
    and stored: "cConsensusStates c h \<noteq> no_consensus"
  obtains hdr where "header_at ch (sint h) = Inr hdr" "cConsensusStates c h = header_state ch hdr"
proof -
  let ?s = "cConsensusStates c h"
  from history_inv [OF hist sound] have inv: "state_inv ch M h ?s" by (simp add: history_inv_def)
  with stored obtain hdr where hdr: "header_at ch (sint h) = Inr hdr" "Hash ch hdr = cBlockHash ?s"
    by (auto simp: state_inv_def chain_block_header)
  from inv stored consider (header) hdr' where "header_at ch (sint h) = Inr hdr'" "?s = header_state ch hdr'"
    | (message) "from_message M h ?s"
    by (auto simp: state_inv_def)
  then show ?thesis
  proof cases
    case header
    then show ?thesis by (rule that)
  next
    case message
    from that [OF hdr(1) from_message_header [OF ok hdr(1) message hdr(2) [symmetric] inj]] show ?thesis .
  qed
qed

section \<open>Properties\<close>

text \<open>
  C3: A client never stores anything but headers of the chain: if the proofs for the submitted messages are
  sound, then at every height the client of any history has no state or exactly the block hash, the application hash and
  the timestamp of the chain's header at that height, whoever sent the updates; otherwise two of the hashed strings
  collide.
\<close>

theorem stored_states_of_chain:
  assumes "client_history ch a abi_bytes pc M step skp revision c" and "chain_ok ms ch (target_heights M)"
    and "sound_updates a abi_bytes pc step skp (chain_block ch) M"
  shows "collision Sum256 (hashed_strings ms ch M)
    \<or> (\<forall>h. cConsensusStates c h = no_consensus
        \<or> (\<exists>hdr. header_at ch (sint h) = Inr hdr \<and> cConsensusStates c h = header_state ch hdr))"
  using history_header [OF assms] by metis

text \<open>
  C6: The relayer can always go on: in every history of a client, whoever updated it, the relayer that
  gets a proof for a header above the client's latest height builds a message the contract converts, and the contract takes the
  update exactly if its verifier accepts the proof and each public input is zero or has 32 significant bytes; it then
  stores that header.
\<close>

theorem relayer_goes_on:
  assumes hist: "client_history ch a abi_bytes pc M step skp revision c"
    and sound: "sound_updates a abi_bytes pc step skp (chain_block ch) M"
    and zpc: "tm_header_hash zpc = tm_client ch" "length (ZKStepVerifierDigest zpc) = 32" "length (ZKSkipVerifierDigest zpc) = 32"
      "step = be_nat (ZKStepVerifierDigest zpc)" "skp = be_nat (ZKSkipVerifierDigest zpc)"
    and latest: "cBlockHash (cConsensusStates c (cLatestHeight c)) \<noteq> replicate 32 0"
    and cp: "cp_latest_height cp = Inr cph" "cp_client_height cp cph = Inr (getLatestHeight c)"
    and header: "header_setting ms lib ch h hdr" "cLatestHeight c < RevisionHeight (tm_height h)"
    and wait: "wait_reach {Prove w zpc (cLatestHeight c) (RevisionHeight (tm_height h))} s" "waiter s = GotProof proof"
    and abi: "abi_ok a" "serves pc (ZKProofOf proof)"
    and now: "now \<le> unat (cTimestamp (cConsensusStates c (cLatestHeight c))) + unat (cTrustingPeriod c)"
  shows "\<exists>msg. SetupHeadersForUpdate Sum256 ms lib a ch cp (TmHeader h) (waiter s) = Inr msg
    \<and> ((\<exists>c'. update_client a abi_bytes pc c now msg = Inr c')
        \<longleftrightarrow> checked_by pc (ZKProofOf proof) (ZKInput proof) \<and> list_all aligned (ZKInput proof))
    \<and> (\<forall>c'. update_client a abi_bytes pc c now msg = Inr c' \<longrightarrow> c' = store_header ch hdr (RevisionHeight (tm_height h)) c)"
proof -
  note inv = history_inv [OF hist sound, unfolded history_inv_def]
  then have "state_inv ch M (cLatestHeight c) (cConsensusStates c (cLatestHeight c))" by blast
  note block = state_inv_block [OF this latest, unfolded chain_block_def]
  have setting: "update_setting ms lib ch zpc c h (cLatestHeight c) hdr"
    unfolding update_setting_def using inv zpc latest block header(1) by simp
  from relayed_update_verified [OF setting cp _ header(2) wait abi(1) now] abi(2) show ?thesis
    by (auto simp: getLatestHeight_def)
qed

text \<open>
  C4: What a client says of the chain is true. When it accepts a membership proof at a height where it has a
  state, the path has the value in the IAVL tree of the store of the chain's header at that height, whoever updated the
  client and whatever bytes the proof is made of; otherwise two of the hashed strings collide.
\<close>

theorem verified_value_in_chain:
  assumes "client_history ch a abi_bytes pc M step skp revision c" and "chain_ok ms ch (target_heights M)"
    and "sound_updates a abi_bytes pc step skp (chain_block ch) M"
    and stored: "cConsensusStates c (RevisionHeight height) \<noteq> no_consensus"
    and rt: "runtime_ok rt" "runtime_spans rt"
    and acc: "verifyMembership Sum256 rt abi_decode c height prf prefix path value = Inr True"
    and dec: "abi_decode prf = Some ps"
    and app: "\<And>hdr. header_at ch (sint (RevisionHeight height)) = Inr hdr \<Longrightarrow>
      slice (hAppHash hdr) = Sum256 (stores_string Sum256 sts)"
    and state: "stores_good sts" "distinct (map fst (stores_entries sts))"
      "(prefix, Sum256 (iavl_string Sum256 t)) \<in> set (stores_entries sts)" "iavl_good t"
    and size: "sized (Prefix (ps ! 0)) path" "length prefix < 2 ^ 64"
  shows "collision Sum256 (hashed_strings ms ch M \<union> set (member_strings Sum256 rt ps prefix path value)
      \<union> set (stores_hashed Sum256 sts) \<union> set (iavl_hashed Sum256 t))
    \<or> (path, value) \<in> set (iavl_entries t)"
proof (cases "collision Sum256 (hashed_strings ms ch M \<union> set (member_strings Sum256 rt ps prefix path value)
      \<union> set (stores_hashed Sum256 sts) \<union> set (iavl_hashed Sum256 t))")
  case False
  then have inj: "inj_on Sum256 (set (member_strings Sum256 rt ps prefix path value)
        \<union> set (stores_hashed Sum256 sts) \<union> set (iavl_hashed Sum256 t))"
      and nc: "\<not> collision Sum256 (hashed_strings ms ch M)"
    by (auto simp: not_collision intro: inj_on_subset)
  obtain hdr where "header_at ch (sint (RevisionHeight height)) = Inr hdr"
      "cConsensusStates c (RevisionHeight height) = header_state ch hdr"
    by (rule history_header [OF assms(1-3) nc stored])
  then have "cAppHash (cConsensusStates c (RevisionHeight height)) = Sum256 (stores_string Sum256 sts)"
    using app by (simp add: header_state_def)
  moreover have "verifier_setting Sum256 rt" using rt by unfold_locales simp_all
  ultimately show ?thesis
    using verifier_setting.member_verified [OF _ acc dec _ state size inj] by simp
qed simp

text \<open>
  C5: What a client says is absent is absent. When it accepts a proof of absence at a height where it has a state,
  the path has no value in the IAVL tree of the store of the chain's header at that height; otherwise two of the hashed strings collide, under SHA-256 or under Keccak-256.
\<close>

theorem verified_absence_in_chain:
  assumes "client_history ch a abi_bytes pc M step skp revision c" and "chain_ok ms ch (target_heights M)"
    and "sound_updates a abi_bytes pc step skp (chain_block ch) M"
    and stored: "cConsensusStates c (RevisionHeight height) \<noteq> no_consensus"
    and rt: "runtime_ok rt" "runtime_spans rt"
    and acc: "verifyNonMembership Sum256 K rt abi_decode c height prf prefix path = Inr True"
    and dec: "abi_decode prf = Some (p, e)"
    and app: "\<And>hdr. header_at ch (sint (RevisionHeight height)) = Inr hdr \<Longrightarrow>
      slice (hAppHash hdr) = Sum256 (stores_string Sum256 sts)"
    and state: "stores_good sts" "distinct (map fst (stores_entries sts))"
      "(prefix, Sum256 (iavl_string Sum256 t)) \<in> set (stores_entries sts)" "iavl_ok t"
    and size: "sized (Prefix (left_proof p)) (Key (left_proof p))" "sized (Prefix (right_proof p)) (Key (right_proof p))"
      "length prefix < 2 ^ 64"
  shows "collision Sum256 (hashed_strings ms ch M \<union> set (absent_strings Sum256 K rt p prefix e)
      \<union> set (stores_hashed Sum256 sts) \<union> set (iavl_hashed Sum256 t))
    \<or> collision K ({absent_key p, path} \<union> path_strings (Path (left_proof p)) \<union> path_strings (Path (right_proof p)))
    \<or> path \<notin> fst ` set (iavl_entries t)"
proof (rule ccontr)
  assume *: "\<not> ?thesis"
  then have inj: "inj_on Sum256 (set (absent_strings Sum256 K rt p prefix e)
        \<union> set (stores_hashed Sum256 sts) \<union> set (iavl_hashed Sum256 t))"
      and nc: "\<not> collision Sum256 (hashed_strings ms ch M)"
      and K: "inj_on K ({absent_key p, path} \<union> path_strings (Path (left_proof p)) \<union> path_strings (Path (right_proof p)))"
    unfolding de_Morgan_disj not_collision by (auto intro: inj_on_subset)
  obtain hdr where "header_at ch (sint (RevisionHeight height)) = Inr hdr"
      "cConsensusStates c (RevisionHeight height) = header_state ch hdr"
    by (rule history_header [OF assms(1-3) nc stored])
  then have "cAppHash (cConsensusStates c (RevisionHeight height)) = Sum256 (stores_string Sum256 sts)"
    using app by (simp add: header_state_def)
  moreover have "verifier_setting Sum256 rt" using rt by unfold_locales simp_all
  ultimately have "path \<notin> fst ` set (iavl_entries t)"
    using verifier_setting.non_member_verified [OF _ acc dec _ state size inj K] by simp
  with * show False by simp
qed

text \<open>
  C7: What the relayer proves of the chain a client accepts: in every history of a client, whoever
  updated it, a state that \<open>ProveState\<close> proves at a height where the client has a state is accepted by
  \<open>verifyMembership\<close> exactly if the leaf prefix of the store's proof that the chain returned is the byte 0; otherwise two of the
  hashed strings collide.
\<close>

theorem proved_state_accepted_later:
  assumes "client_history ch a abi_bytes pc M step skp revision c" and "chain_ok ms ch (target_heights M)"
    and "sound_updates a abi_bytes pc step skp (chain_block ch) M"
    and stored: "cConsensusStates c (RevisionHeight height) \<noteq> no_consensus" "RevisionNumber height = revision"
    and prove: "ProveState ea slib ch height path value = Inr (prf, height)"
    and lib: "ics23_checks slib" "runtime_ok rt" "runtime_reads rt" "abi_agrees ea abi_decode" "length path < 2 ^ 64"
      "CHR ''%'' \<notin> set path"
    and header: "header_at ch (sint (RevisionHeight height)) = Inr hdr" "length (slice (hAppHash hdr)) = 32"
  shows "collision Sum256 (hashed_strings ms ch M)
    \<or> (\<exists>bs pe0 pe1. QueryTendermintProof slib (sint (RevisionHeight height)) (string_bytes path) = Inr (value, bs, height)
        \<and> UnmarshalMerkleProof slib bs = Inr [Exist pe0, Exist pe1]
        \<and> (verifyMembership Sum256 rt abi_decode c height prf (string_bytes ''ibc'') (string_bytes path) value = Inr True
           \<longleftrightarrow> ics_leaf_prefix pe1 = Some [0]))"
proof (cases "collision Sum256 (hashed_strings ms ch M)")
  case False
  have "revisionNumber c = revision" using history_inv [OF assms(1,3)] by (simp add: history_inv_def)
  moreover obtain hdr' where "header_at ch (sint (RevisionHeight height)) = Inr hdr'"
      "cConsensusStates c (RevisionHeight height) = header_state ch hdr'"
    by (rule history_header [OF assms(1-3) False stored(1)])
  then have "cAppHash (cConsensusStates c (RevisionHeight height)) = slice (hAppHash hdr)"
    using header(1) by (simp add: header_state_def)
  ultimately show ?thesis
    using proved_state_verified [OF prove header lib] stored(2) by auto
qed simp

section \<open>Example histories\<close>

text \<open>A client created at height 5.\<close>

lemma history_created:
  assumes hdr: "header_at ch 5 = Inr hdr" "length (Hash ch hdr) = 32" "length (slice (hAppHash hdr)) = 32"
      "hTime hdr = \<lparr>unix_seconds = 1700000000, nanosecond = 7\<rparr>"
  obtains c where "client_history ch a abi_bytes pc M (be_nat (replicate 32 1)) (be_nat (replicate 32 2)) 0 c"
    "cConsensusStates c = (\<lambda>h. no_consensus)(5 := header_state ch hdr)" "header_state ch hdr \<noteq> no_consensus"
    "cLatestHeight c = 5" "revisionNumber c = 0" "cTrustingPeriod c = 3600000000000"
    "stepVerifierDigest c = be_nat (replicate 32 1)" "skipVerifierDigest c = be_nat (replicate 32 2)"
proof -
  have ts: "UnixNano (hTime hdr) = 1700000000000000007"
    by (simp add: UnixNano_def hdr(4))
  obtain c where c: "initializeClient (new_contract (be_nat (replicate 32 1)) (be_nat (replicate 32 2)) 0) (fst life_states)
      \<lparr>BlockHash = Hash ch hdr, AppHash = slice (hAppHash hdr), Timestamp = UnixNano (hTime hdr)\<rparr> = Inr c"
      "c = (new_contract (be_nat (replicate 32 1)) (be_nat (replicate 32 2)) 0)
        \<lparr>cConsensusStates := (\<lambda>h. no_consensus)(5 := header_state ch hdr), cLatestHeight := 5, cTrustingPeriod := 3600000000000\<rparr>"
    using hdr(2,3)
    by (simp add: initializeClient_def life_states_def life_header_def new_contract_def bytes32_exact header_state_def ts)
  from c(1) have "client_history ch a abi_bytes pc M (be_nat (replicate 32 1)) (be_nat (replicate 32 2)) 0 c"
    by (rule client_history.created) (simp add: life_states_def life_header_def hdr(1))
  from this c(2) show ?thesis by (auto intro!: that simp: new_contract_def header_state_def no_consensus_def ts)
qed

abbreviation run_history :: "prover_contract \<Rightarrow> UpdateStateMessage set \<Rightarrow> contract \<Rightarrow> bool" where
  "run_history pc M \<equiv> client_history example_chain static_abi Inr pc M (be_nat (replicate 32 1)) (be_nat (replicate 32 2)) 0"

lemma run_hash: "Hash example_chain example_header = replicate 32 5"
  by (simp add: example_chain_def) (simp add: example_header_def)

lemma run_times: "UnixNano (hTime example_header) = 1700000000000000007" "UnixNano (hTime example_target) = 1700000000000000007"
  by (simp_all add: UnixNano_def example_header_def example_target_def)

lemmas run_created = history_created [of example_chain example_header]

lemma run_header: "header_at example_chain 5 = Inr example_header" "length (Hash example_chain example_header) = 32"
    "length (slice (hAppHash example_header)) = 32" "hTime example_header = \<lparr>unix_seconds = 1700000000, nanosecond = 7\<rparr>"
  by (simp_all add: run_hash) (simp_all add: example_chain_def example_header_def slice_def)

theorem relayer_goes_on_witness:
  "\<exists>c proof msg. run_history (MockContract Sum256) {} c
    \<and> SetupHeadersForUpdate Sum256 example_marshalers example_lib static_abi example_chain
        example_counterparty (TmHeader example_tm_header) (GotProof proof) = Inr msg
    \<and> ((\<exists>c'. update_client static_abi Inr (MockContract Sum256) c 1700000100 msg = Inr c') \<longleftrightarrow> list_all aligned (ZKInput proof))"
proof -
  obtain c where c: "run_history (MockContract Sum256) {} c"
      "cConsensusStates c = (\<lambda>h. no_consensus)(5 := header_state example_chain example_header)"
      "cLatestHeight c = 5" "revisionNumber c = 0" "cTrustingPeriod c = 3600000000000"
    by (rule run_created [OF run_header])
  obtain r where reach: "wait_reach {Prove example_net example_zpc 5 (RevisionHeight (tm_height example_tm_header))} (got_state r)"
      and r: "ZKProofOf r = MockProof"
    using example_wait by blast
  note h = run_hash and ts = run_times
  have "\<exists>msg. SetupHeadersForUpdate Sum256 example_marshalers example_lib static_abi example_chain
      example_counterparty (TmHeader example_tm_header) (waiter (got_state r)) = Inr msg
    \<and> ((\<exists>c'. update_client static_abi Inr (MockContract Sum256) c 1700000100 msg = Inr c')
        \<longleftrightarrow> checked_by (MockContract Sum256) (ZKProofOf r) (ZKInput r) \<and> list_all aligned (ZKInput r))
    \<and> (\<forall>c'. update_client static_abi Inr (MockContract Sum256) c 1700000100 msg = Inr c'
        \<longrightarrow> c' = store_header example_chain example_target (RevisionHeight (tm_height example_tm_header)) c)"
  proof (rule relayer_goes_on [OF c(1)])
    show "header_setting example_marshalers example_lib example_chain example_tm_header example_target"
      using example_setting by (simp add: update_setting_def)
    show "wait_reach {Prove example_net example_zpc (cLatestHeight c) (RevisionHeight (tm_height example_tm_header))} (got_state r)"
      using reach c(3) by simp
    show "cp_latest_height example_counterparty = Inr \<lparr>RevisionNumber = 0, RevisionHeight = 100\<rparr>"
      and "cp_client_height example_counterparty \<lparr>RevisionNumber = 0, RevisionHeight = 100\<rparr> = Inr (getLatestHeight c)"
      by (simp_all add: example_counterparty_def getLatestHeight_def c)
  qed (simp_all add: no_submitted static_abi_ok example_zpc_def NewZKProverClient_def c h header_state_def
      example_tm_header_def got_state_def r ts)
  with c(1) r show ?thesis by (auto simp: got_state_def)
qed

text \<open>A history with one update, whose proof the contract's verifier accepts for its inputs alone.\<close>

definition run_inputs :: "nat list" where
  "run_inputs = [be_nat (replicate 32 2), truncated (PutUint64 5 @ replicate 32 5 @ PutUint64 7),
     truncated (Hash example_chain example_target)]"

definition run_contract :: prover_contract where
  "run_contract = Groth16Contract (\<lambda>p ns. p = replicate 8 7 \<and> ns = run_inputs)"

definition run_message :: "bytes list \<Rightarrow> UpdateStateMessage" where
  "run_message p = \<lparr>TrustedHeight = 5, UntrustedHeight = 7, UntrustedBlockHash = Hash example_chain example_target,
     MsgTimestamp = UnixNano (hTime example_target), MsgAppHash = replicate 32 3, SimpleTreeProof = p,
     Input = map (be_pad 32) run_inputs, ZkProof = abi_encoding [replicate 8 7]\<rparr>"

lemma run_target:
  obtains p where "map length p = replicate 6 32"
    "Hash example_chain example_target = merkleRoot Sum256 (UnixNano (hTime example_target)) (replicate 32 3) p"
proof -
  have "marshalers_ok example_marshalers" "header_ok example_marshalers example_chain example_target"
    using example_setting by (auto simp: update_setting_def header_setting_def)
  moreover have "hAppHash example_target = Some (replicate 32 3)"
    by (simp add: example_target_def example_header_def)
  ultimately show ?thesis using that header_committed by (metis option.inject)
qed

lemma truncated_less: "truncated bs < 2 ^ 256"
  using mod_less_divisor [of "2 ^ 253" "be_nat (Sum256 bs)"] by (simp add: truncated_def less_trans)

lemma run_converted:
  assumes "map length p = replicate 6 32" and "length (Hash example_chain example_target) = 32"
  shows "convertUpdateStateMessage (run_message p) = Inr (\<lparr>trustedHeight = 5, untrustedHeight = 7,
    untrustedBlockHash = Hash example_chain example_target, inTimestamp = UnixNano (hTime example_target),
    inAppHash = replicate 32 3, inSimpleTreeProof = p, inInput = run_inputs\<rparr>, abi_encoding [replicate 8 7])"
proof -
  have "length p = 6" and "list_all (\<lambda>b. length b = 32) p"
    using assms(1) by (auto simp: list_all_length list_eq_iff_nth_eq dest: arg_cong [where f = length])
  then have "convertSimpleTreeProof p = Inr p" by (simp add: convertSimpleTreeProof_def)
  moreover have "length (be_pad 32 n) = 32" if "n < 2 ^ 256" for n
    using that by (simp add: length_be_pad)
  moreover have "be_nat (replicate 32 2) < 2 ^ 256" using be_nat_less [of "replicate 32 2"] by simp
  ultimately show ?thesis
    using assms(2) truncated_less
    by (simp add: convertUpdateStateMessage_def run_message_def run_inputs_def bytes32_exact)
qed

lemma run_sound: "sound_updates static_abi Inr run_contract (be_nat (replicate 32 1)) (be_nat (replicate 32 2))
    (chain_block example_chain) {run_message p}"
proof -
  have "chain_block example_chain 7 (Hash example_chain example_target)"
    by (simp add: chain_block_header example_chain_def)
  moreover have "untrustedHeight m = 7 \<and> untrustedBlockHash m = bytes32 (Hash example_chain example_target)"
    if "convertUpdateStateMessage (run_message p) = Inr (m, zk)" for m zk
    using that by (auto simp: convertUpdateStateMessage_def run_message_def rbind_eq_Inr_iff split: if_splits)
  moreover obtain q where "Hash example_chain example_target = merkleRoot Sum256 (UnixNano (hTime example_target)) (replicate 32 3) q"
    by (rule run_target)
  ultimately show ?thesis
    by (auto simp: proof_sound_def submitted_def bytes32_exact length_merkleRoot)
qed

theorem stored_states_of_chain_witness:
  "\<exists>p c'. run_history run_contract {run_message p} c' \<and> cLatestHeight c' = 7
    \<and> (collision Sum256 (hashed_strings example_marshalers example_chain {run_message p})
       \<or> cConsensusStates c' 7 = header_state example_chain example_target)"
proof -
  obtain p where p: "map length p = replicate 6 32"
      "Hash example_chain example_target = merkleRoot Sum256 (UnixNano (hTime example_target)) (replicate 32 3) p"
    by (rule run_target)
  let ?M = "{run_message p}"
  obtain c where c: "run_history run_contract ?M c"
      "cConsensusStates c = (\<lambda>h. no_consensus)(5 := header_state example_chain example_header)"
      "cLatestHeight c = 5" "revisionNumber c = 0" "cTrustingPeriod c = 3600000000000"
      "stepVerifierDigest c = be_nat (replicate 32 1)" "skipVerifierDigest c = be_nat (replicate 32 2)"
    by (rule run_created [OF run_header])
  note h = run_hash and ts = run_times
  have conv: "convertUpdateStateMessage (run_message p) = Inr (\<lparr>trustedHeight = 5, untrustedHeight = 7,
      untrustedBlockHash = Hash example_chain example_target, inTimestamp = UnixNano (hTime example_target),
      inAppHash = replicate 32 3, inSimpleTreeProof = p, inInput = run_inputs\<rparr>, abi_encoding [replicate 8 7])"
    by (rule run_converted [OF p(1)]) (simp add: p(2) length_merkleRoot)
  have typed: "typed_proof (Groth16 (replicate 8 7))" "serves run_contract (Groth16 (replicate 8 7))"
    by (simp_all add: uint256s_def run_contract_def list_all_iff)
  have "EncodeEthABI static_abi (Groth16 (replicate 8 7)) = Inr (abi_encoding [replicate 8 7])"
    using EncodeEthABI_typed [OF static_abi_ok typed(1)] by simp
  from update_client_delivered [OF static_abi_ok typed(1) this typed(2) conv, of Inr c 1700000100]
  obtain c' where c': "update_client static_abi Inr run_contract c 1700000100 (run_message p) = Inr c'"
      "cLatestHeight c' = 7" "cConsensusStates c' 7 \<noteq> no_consensus"
    by (simp add: run_contract_def updateState_def check_skip_def Let_def c h ts header_state_def run_inputs_def truncated_def
        no_consensus_def p(2))
  have hist: "run_history run_contract ?M c'"
    by (rule client_history.updated [OF c(1) _ c'(1)]) simp
  have "collision Sum256 (hashed_strings example_marshalers example_chain ?M)
    \<or> (\<forall>h. cConsensusStates c' h = no_consensus
        \<or> (\<exists>hdr. header_at example_chain (sint h) = Inr hdr \<and> cConsensusStates c' h = header_state example_chain hdr))"
  proof (rule stored_states_of_chain [OF hist _ run_sound])
    show "chain_ok example_marshalers example_chain (target_heights ?M)"
      using example_setting by (simp add: chain_ok_def target_heights_def run_message_def update_setting_def header_setting_def)
        (simp add: example_chain_def)
  qed
  with hist c'(2,3) show ?thesis by (fastforce simp: example_chain_def)
qed

text \<open>A chain whose header at height 5 has the hash of two stores, one with a tree of two entries, and proofs of its state.\<close>

definition state_stores :: stores where
  "state_stores = StoreNode (StoreLeaf (string_bytes ''ibc'') (Sum256 (iavl_string Sum256 toy_tree)))
     (StoreLeaf (string_bytes ''mint'') (replicate 32 9))"

definition state_header :: "(nat, bytes) Header" where
  "state_header = example_header\<lparr>hAppHash := Some (Sum256 (stores_string Sum256 state_stores))\<rparr>"

definition state_chain :: "(nat, bytes) chain" where
  "state_chain = \<lparr>header_at = (\<lambda>h. if h = 5 then Inr state_header else Inl ''height''), Hash = (\<lambda>h. replicate 32 5)\<rparr>"

definition state_left :: ExistenceProof where
  "state_left = \<lparr>Spec = 2, Prefix = iavl_prefix 0 1 22, Key = [1, 1], Value = [7, 7],
     Path = [(iavl_prefix 1 2 22 @ [32], 32 # Sum256 (iavl_string Sum256 (ILeaf 22 [3, 3] [8, 8])))]\<rparr>"

definition state_right :: ExistenceProof where
  "state_right = \<lparr>Spec = 2, Prefix = iavl_prefix 0 1 22, Key = [3, 3], Value = [8, 8],
     Path = [(iavl_prefix 1 2 22 @ (32 # Sum256 (iavl_string Sum256 (ILeaf 22 [1, 1] [7, 7]))) @ [32], [])]\<rparr>"

definition state_store_proof :: ExistenceProof where
  "state_store_proof = \<lparr>Spec = 1, Prefix = [0], Key = string_bytes ''ibc'', Value = [],
     Path = [([1], Sum256 (stores_string Sum256 (StoreLeaf (string_bytes ''mint'') (replicate 32 9))))]\<rparr>"

lemma state_prefixes: "iavl_prefix 0 1 22 = [0, 2, 44]" "iavl_prefix 1 2 22 = [2, 4, 44]"
  by code_simp+

lemma state_frames: "length key < 2 ^ 64 \<Longrightarrow> leaf_data example_runtime Sum256 prefix key value =
    prefix @ (uvarint (word_of_nat (length key)) @ key) @ 0x20 # Sum256 value"
  by (rule verifier_setting.leaf_data_frame) (rule sha.verifier_setting_axioms)

lemma state_valid_ops:
  "validateIAVLOps example_runtime (iavl_prefix 0 1 22) 0 = Inr ()"
  "length rest \<in> {1, 34} \<Longrightarrow> validateIAVLOps example_runtime (iavl_prefix 1 2 22 @ rest) 1 = Inr ()"
  using validateIAVLOps_varints [OF example_runtime_ok, of "[]" "2 * 0" "2 * 1" "2 * 22" 0]
    validateIAVLOps_varints [OF example_runtime_ok, of rest "2 * 1" "2 * 2" "2 * 22" 1]
  by (auto simp: iavl_prefix_def)

lemma state_roots:
  "existence_root Sum256 example_runtime state_left = Inr (Sum256 (iavl_string Sum256 toy_tree))"
  "existence_root Sum256 example_runtime state_right = Inr (Sum256 (iavl_string Sum256 toy_tree))"
  "verifyMembershipTendermintSpec Sum256 example_runtime (Prefix state_store_proof) (string_bytes ''ibc'')
     (Sum256 (iavl_string Sum256 toy_tree)) (Path state_store_proof) = Inr (Sum256 (stores_string Sum256 state_stores))"
  using state_valid_ops
  by (simp_all add: existence_root_def verifyMembershipIAVLSpec_Inr verifyMembershipTendermintSpec_Inr state_left_def
      state_right_def state_store_proof_def state_frames toy_tree_def state_stores_def iavl_check_def tendermint_check_def
      state_prefixes length_string_bytes)

lemma state_history:
  obtains c where "client_history state_chain static_abi Inr pc {} (be_nat (replicate 32 1)) (be_nat (replicate 32 2)) 0 c"
    "cConsensusStates c 5 = header_state state_chain state_header" "cConsensusStates c 5 \<noteq> no_consensus" "revisionNumber c = 0"
proof -
  have "header_at state_chain 5 = Inr state_header" "length (Hash state_chain state_header) = 32"
      "length (slice (hAppHash state_header)) = 32" "hTime state_header = \<lparr>unix_seconds = 1700000000, nanosecond = 7\<rparr>"
    by (simp_all add: state_chain_def) (simp_all add: state_header_def example_header_def slice_def)
  from history_created [OF this, where ?a = static_abi and ?abi_bytes = Inr and ?pc = pc and ?M = "{}"]
  show ?thesis using that by (metis fun_upd_same)
qed

lemma state_setting:
  "chain_ok example_marshalers state_chain (target_heights {})" "sound_updates a abi_bytes pc step skp valid {}"
  "header_at state_chain 5 = Inr hdr \<Longrightarrow> slice (hAppHash hdr) = Sum256 (stores_string Sum256 state_stores)"
  "stores_good state_stores" "distinct (map fst (stores_entries state_stores))"
  "(string_bytes ''ibc'', Sum256 (iavl_string Sum256 toy_tree)) \<in> set (stores_entries state_stores)"
  by (auto simp: chain_ok_def target_heights_def no_submitted example_marshalers_ok state_chain_def state_header_def
      slice_def state_stores_def dest: arg_cong [where f = length])

theorem verified_value_in_chain_witness:
  "\<exists>c. verifyMembership Sum256 example_runtime (\<lambda>bs. Some [state_left, state_store_proof]) c
        \<lparr>RevisionNumber = 0, RevisionHeight = 5\<rparr> [] (string_bytes ''ibc'') [1, 1] [7, 7] = Inr True
    \<and> (collision Sum256 (hashed_strings example_marshalers state_chain {}
         \<union> set (member_strings Sum256 example_runtime [state_left, state_store_proof] (string_bytes ''ibc'') [1, 1] [7, 7])
         \<union> set (stores_hashed Sum256 state_stores) \<union> set (iavl_hashed Sum256 toy_tree))
      \<or> ([1, 1], [7, 7]) \<in> set (iavl_entries toy_tree))"
proof -
  obtain c where c: "client_history state_chain static_abi Inr (MockContract Sum256) {} (be_nat (replicate 32 1))
        (be_nat (replicate 32 2)) 0 c"
      "cConsensusStates c 5 = header_state state_chain state_header" "cConsensusStates c 5 \<noteq> no_consensus" "revisionNumber c = 0"
    by (rule state_history)
  have app: "cAppHash (cConsensusStates c 5) = Sum256 (stores_string Sum256 state_stores)"
    using state_setting(3) [of state_header] by (simp add: c(2) header_state_def state_chain_def)
  have acc: "verifyMembership Sum256 example_runtime (\<lambda>bs. Some [state_left, state_store_proof]) c
      \<lparr>RevisionNumber = 0, RevisionHeight = 5\<rparr> [] (string_bytes ''ibc'') [1, 1] [7, 7] = Inr True"
    using state_roots(1,3) [unfolded existence_root_def] c(4) app by (simp add: verifyMembership_Inr state_left_def)
  have "collision Sum256 (hashed_strings example_marshalers state_chain {}
         \<union> set (member_strings Sum256 example_runtime [state_left, state_store_proof] (string_bytes ''ibc'') [1, 1] [7, 7])
         \<union> set (stores_hashed Sum256 state_stores) \<union> set (iavl_hashed Sum256 toy_tree))
      \<or> ([1, 1], [7, 7]) \<in> set (iavl_entries toy_tree)"
    by (rule verified_value_in_chain [OF c(1) state_setting(1,2) _ example_runtime_ok example_runtime_spans acc refl _ state_setting(4-6)])
      (use c(3) state_setting(3) toy_state_good(1) in \<open>simp_all add: iavl_ok_def sized_def state_left_def state_prefixes\<close>)
  with acc show ?thesis by blast
qed

definition state_absence :: NonExistenceProof where
  "state_absence = \<lparr>absent_key = [2, 2], left_proof = state_left, right_proof = state_right\<rparr>"

lemma state_neighbours: "isLeftNeighborIAVL (\<lambda>x. x) (Path state_left) (Path state_right) = Inr True"
proof -
  have "isLeftStepIAVL (Path state_left ! 0) (Path state_right ! 0) = Inr True"
    unfolding isLeftStepIAVL_True by (simp add: state_left_def state_right_def state_prefixes hasPadding_def)
  moreover have "Path state_left ! 0 \<noteq> Path state_right ! 0" "length (Path state_left) = 1" "length (Path state_right) = 1"
    by (simp_all add: state_left_def state_right_def)
  ultimately show ?thesis
    by (auto simp: isLeftNeighborIAVL_def neighbor_loop.simps isRightMostIAVL_eq isLeftMostIAVL_eq prod_eq_iff)
qed

theorem verified_absence_in_chain_witness:
  "\<exists>c. verifyNonMembership Sum256 (\<lambda>x. x) example_runtime (\<lambda>bs. Some (state_absence, state_store_proof)) c
        \<lparr>RevisionNumber = 0, RevisionHeight = 5\<rparr> [] (string_bytes ''ibc'') [2, 2] = Inr True
    \<and> (collision Sum256 (hashed_strings example_marshalers state_chain {}
         \<union> set (absent_strings Sum256 (\<lambda>x. x) example_runtime state_absence (string_bytes ''ibc'') state_store_proof)
         \<union> set (stores_hashed Sum256 state_stores) \<union> set (iavl_hashed Sum256 toy_tree))
      \<or> [2, 2] \<notin> fst ` set (iavl_entries toy_tree))"
proof -
  obtain c where c: "client_history state_chain static_abi Inr (MockContract Sum256) {} (be_nat (replicate 32 1))
        (be_nat (replicate 32 2)) 0 c"
      "cConsensusStates c 5 = header_state state_chain state_header" "cConsensusStates c 5 \<noteq> no_consensus" "revisionNumber c = 0"
    by (rule state_history)
  have app: "cAppHash (cConsensusStates c 5) = Sum256 (stores_string Sum256 state_stores)"
    using state_setting(3) [of state_header] by (simp add: c(2) header_state_def state_chain_def)
  have range: "ensureKeysInValidRange (Key state_left) [2, 2] (Key state_right) = Inr ()"
    by (simp add: ensureKeysInValidRange_Inr state_left_def state_right_def)
  have spec: "proof_spec (Spec state_left) = Some IAVLTreeSpec" "proof_spec (Spec state_right) = Some IAVLTreeSpec"
      "Key state_left \<noteq> []" "Key state_right \<noteq> []" "Key state_store_proof = string_bytes ''ibc''"
    by (simp_all add: state_left_def state_right_def state_store_proof_def proof_spec_def)
  have "verifyNonMembershipIAVL Sum256 (\<lambda>x. x) example_runtime state_absence = Inr (Sum256 (iavl_string Sum256 toy_tree))"
    by (simp add: verifyNonMembershipIAVL_def state_absence_def spec range state_roots(1,2) state_neighbours require_position_def Let_def)
  then have acc: "verifyNonMembership Sum256 (\<lambda>x. x) example_runtime (\<lambda>bs. Some (state_absence, state_store_proof)) c
      \<lparr>RevisionNumber = 0, RevisionHeight = 5\<rparr> [] (string_bytes ''ibc'') [2, 2] = Inr True"
    using state_roots(3) c(4) app spec(5) by (simp add: verifyNonMembership_def state_absence_def)
  have "collision Sum256 (hashed_strings example_marshalers state_chain {}
         \<union> set (absent_strings Sum256 (\<lambda>x. x) example_runtime state_absence (string_bytes ''ibc'') state_store_proof)
         \<union> set (stores_hashed Sum256 state_stores) \<union> set (iavl_hashed Sum256 toy_tree))
    \<or> collision (\<lambda>x. x) ({absent_key state_absence, [2, 2]} \<union> path_strings (Path (left_proof state_absence))
         \<union> path_strings (Path (right_proof state_absence)))
    \<or> [2, 2] \<notin> fst ` set (iavl_entries toy_tree)"
    by (rule verified_absence_in_chain [OF c(1) state_setting(1,2) _ example_runtime_ok example_runtime_spans acc refl _
          state_setting(4-6) toy_state_good(1)])
      (use c(3) state_setting(3) in \<open>simp_all add: sized_def state_absence_def state_left_def state_right_def state_prefixes\<close>)
  moreover have "\<not> collision (\<lambda>x. x) S" for S by (simp add: collision_def)
  ultimately show ?thesis using acc by blast
qed

text \<open>The chain of \<open>Tree_Verifier\<close>'s example, with block hashes.\<close>

definition proved_chain :: "(nat, bytes) chain" where
  "proved_chain = stored_chain\<lparr>Hash := \<lambda>h. replicate 32 5\<rparr>"

lemma proved_chain_state: "ProveState a lib proved_chain = ProveState a lib stored_chain"
  unfolding ProveState_def proved_chain_def by simp

theorem proved_state_accepted_later_witness:
  "\<exists>c. client_history proved_chain static_abi Inr (MockContract Sum256) {} (be_nat (replicate 32 1)) (be_nat (replicate 32 2)) 0 c
    \<and> (collision Sum256 (hashed_strings example_marshalers proved_chain {})
      \<or> verifyMembership Sum256 example_runtime (\<lambda>bs. if bs = [1] then Some stored_pair else None) c
          \<lparr>RevisionNumber = 0, RevisionHeight = 5\<rparr> [1] (string_bytes ''ibc'') (string_bytes ''connections/0'') [2] = Inr True)"
proof -
  let ?hdr = "example_header\<lparr>hAppHash := Some (ics_root [0] store_pe)\<rparr>"
  have len: "length (ics_root [0] store_pe) = 32" by (simp add: ics_root_def store_pe_def)
  obtain c where c: "client_history proved_chain static_abi Inr (MockContract Sum256) {} (be_nat (replicate 32 1))
        (be_nat (replicate 32 2)) 0 c"
      "cConsensusStates c = (\<lambda>h. no_consensus)(5 := header_state proved_chain ?hdr)" "header_state proved_chain ?hdr \<noteq> no_consensus"
  proof -
    have "header_at proved_chain 5 = Inr ?hdr" "length (Hash proved_chain ?hdr) = 32" "length (slice (hAppHash ?hdr)) = 32"
        "hTime ?hdr = \<lparr>unix_seconds = 1700000000, nanosecond = 7\<rparr>"
      by (simp_all add: proved_chain_def stored_chain_def len slice_def) (simp add: example_header_def)
    from history_created [OF this, where ?a = static_abi and ?abi_bytes = Inr and ?pc = "MockContract Sum256" and ?M = "{}"]
    show ?thesis using that by metis
  qed
  have "collision Sum256 (hashed_strings example_marshalers proved_chain {})
      \<or> (\<exists>bs pe0 pe1. QueryTendermintProof stored_lib (sint (RevisionHeight \<lparr>RevisionNumber = 0, RevisionHeight = 5\<rparr>))
            (string_bytes ''connections/0'') = Inr ([2], bs, \<lparr>RevisionNumber = 0, RevisionHeight = 5\<rparr>)
        \<and> UnmarshalMerkleProof stored_lib bs = Inr [Exist pe0, Exist pe1]
        \<and> (verifyMembership Sum256 example_runtime (\<lambda>bs. if bs = [1] then Some stored_pair else None) c
            \<lparr>RevisionNumber = 0, RevisionHeight = 5\<rparr> [1] (string_bytes ''ibc'') (string_bytes ''connections/0'') [2] = Inr True
           \<longleftrightarrow> ics_leaf_prefix pe1 = Some [0]))"
  proof (rule proved_state_accepted_later [OF c(1) _ _ _ _ _ stored_checks example_runtime_ok example_runtime_reads stored_abi_agrees])
    show "ProveState stored_abi stored_lib proved_chain \<lparr>RevisionNumber = 0, RevisionHeight = 5\<rparr> ''connections/0'' [2]
        = Inr ([1], \<lparr>RevisionNumber = 0, RevisionHeight = 5\<rparr>)"
      unfolding proved_chain_state by (rule stored_proved)
    show "header_at proved_chain (sint (RevisionHeight \<lparr>RevisionNumber = 0, RevisionHeight = 5\<rparr>)) = Inr ?hdr"
      by (simp add: proved_chain_def stored_chain_def)
  qed (use c(2,3) in \<open>simp_all add: slice_def len chain_ok_def target_heights_def no_submitted example_marshalers_ok\<close>)
  moreover have "ics_leaf_prefix store_pe = Some [0]" by (simp add: store_pe_def)
  ultimately show ?thesis using c(1) by (auto simp: stored_lib_def)
qed

end
