(* ===== verification/Contract_Clients.thy ===== *)
theory Contract_Clients
  imports Update_Safety
begin

text \<open>
  One contract keeps many clients: \<open>clientStates\<close> and \<open>consensusStates\<close> of \<open>contracts/TendermintZKLightClient.sol\<close>
  are mappings from the client's identifier. The functions are written here over the whole storage; the theories before
  speak of one client. Shown: what a client sees of the storage is what the one-client functions compute, whatever
  happens to other clients in between.
\<close>

section \<open>The storage\<close>

record client_entry =
  entry_latestHeight :: uint64
  entry_trustingPeriod :: uint64

record light_client =
  lc_stepVerifierDigest :: nat
  lc_skipVerifierDigest :: nat
  lc_revisionNumber :: uint64
  clientStates :: "string \<Rightarrow> client_entry"
  consensusStates :: "string \<Rightarrow> uint64 \<Rightarrow> cConsensus"

definition light_client_constructor :: "nat \<Rightarrow> nat \<Rightarrow> uint64 \<Rightarrow> light_client" where
  "light_client_constructor step skp revision =
     \<lparr>lc_stepVerifierDigest = step, lc_skipVerifierDigest = skp, lc_revisionNumber = revision,
      clientStates = (\<lambda>cid. \<lparr>entry_latestHeight = 0, entry_trustingPeriod = 0\<rparr>), consensusStates = (\<lambda>cid h. no_consensus)\<rparr>"

definition set_consensus :: "string \<Rightarrow> uint64 \<Rightarrow> cConsensus \<Rightarrow> light_client \<Rightarrow> light_client" where
  "set_consensus cid height s lc =
     lc\<lparr>consensusStates := (consensusStates lc)(cid := (consensusStates lc cid)(height := s))\<rparr>"

definition initializeClient_at :: "light_client \<Rightarrow> string \<Rightarrow> ClientState \<Rightarrow> ConsensusState \<Rightarrow> revert + light_client" where
  "initializeClient_at lc cid cs cons =
     (if length (StepVerifierDigest cs) \<noteq> 32 then Inl InvalidStepVerifierDigest
      else if length (SkipVerifierDigest cs) \<noteq> 32 then Inl InvalidSkipVerifierDigest
      else if be_nat (bytes32 (StepVerifierDigest cs)) \<noteq> lc_stepVerifierDigest lc then Inl InvalidStepVerifierDigest
      else if be_nat (bytes32 (SkipVerifierDigest cs)) \<noteq> lc_skipVerifierDigest lc then Inl InvalidSkipVerifierDigest
      else if TrustingPeriod cs = 0 then Inl InvalidTrustingPeriod
      else if Frozen cs then Inl ClientStateFrozen
      else if RevisionHeight (LatestHeight cs) = 0 then Inl InvalidRevisionHeight
      else if RevisionNumber (LatestHeight cs) \<noteq> lc_revisionNumber lc then Inl InvalidRevisionNumber
      else if length (BlockHash cons) \<noteq> 32 then Inl InvalidBlockHash
      else if length (AppHash cons) \<noteq> 32 then Inl InvalidAppHash
      else if Timestamp cons = 0 then Inl InvalidTimestamp
      else let lc = set_consensus cid (RevisionHeight (LatestHeight cs))
                 \<lparr>cBlockHash = bytes32 (BlockHash cons), cAppHash = bytes32 (AppHash cons), cTimestamp = Timestamp cons\<rparr> lc
        in Inr (lc\<lparr>clientStates := (clientStates lc)
             (cid := \<lparr>entry_latestHeight = RevisionHeight (LatestHeight cs), entry_trustingPeriod = TrustingPeriod cs\<rparr>)\<rparr>))"

definition expected_inputs :: "light_client \<Rightarrow> cConsensus \<Rightarrow> UpdateStateInput \<Rightarrow> revert + unit" where
  "expected_inputs lc cons m =
     (if untrustedHeight m - trustedHeight m = 1 then
        (if inInput m ! 0 \<noteq> lc_stepVerifierDigest lc then Inl UnexpectedStepVerifierDigest
         else if inInput m ! 1 \<noteq> be_nat (Sum256 (PutUint64 (trustedHeight m) @ cBlockHash cons)) mod 2 ^ 253
         then Inl UnexpectedStepInput else Inr ())
      else
        (if inInput m ! 0 \<noteq> lc_skipVerifierDigest lc then Inl UnexpectedSkipVerifierDigest
         else if inInput m ! 1 \<noteq> be_nat (Sum256
             (PutUint64 (trustedHeight m) @ cBlockHash cons @ PutUint64 (untrustedHeight m))) mod 2 ^ 253
         then Inl UnexpectedSkipInput else Inr ()))"

definition updateState_at :: "light_client \<Rightarrow> string \<Rightarrow> nat \<Rightarrow> UpdateStateInput \<Rightarrow> revert + light_client" where
  "updateState_at lc cid block_timestamp m =
     (if untrustedHeight m \<le> trustedHeight m then Inl InvalidHeight
      else let cons = consensusStates lc cid (trustedHeight m) in
        if cBlockHash cons = replicate 32 0 then Inl ConsensusStateNotFound
        else if unat (cTimestamp cons) + unat (entry_trustingPeriod (clientStates lc cid)) < block_timestamp
        then Inl OldConsensusExpired
        else rbind (expected_inputs lc cons m) (\<lambda>_.
          if inInput m ! 2 \<noteq> be_nat (Sum256 (untrustedBlockHash m)) mod 2 ^ 253 then Inl UnexpectedOutput
          else if untrustedBlockHash m \<noteq> merkleRoot Sum256 (inTimestamp m) (inAppHash m) (inSimpleTreeProof m)
          then Inl InvalidSimpleTreeProof
          else let lc = set_consensus cid (untrustedHeight m)
                 \<lparr>cBlockHash = untrustedBlockHash m, cAppHash = inAppHash m, cTimestamp = inTimestamp m\<rparr> lc
            in Inr (if entry_latestHeight (clientStates lc cid) < untrustedHeight m
              then lc\<lparr>clientStates := (clientStates lc)
                (cid := (clientStates lc cid)\<lparr>entry_latestHeight := untrustedHeight m\<rparr>)\<rparr>
              else lc)))"

section \<open>One client's view\<close>

definition client_view :: "light_client \<Rightarrow> string \<Rightarrow> contract" where
  "client_view lc cid =
     \<lparr>stepVerifierDigest = lc_stepVerifierDigest lc, skipVerifierDigest = lc_skipVerifierDigest lc,
      revisionNumber = lc_revisionNumber lc, cLatestHeight = entry_latestHeight (clientStates lc cid),
      cTrustingPeriod = entry_trustingPeriod (clientStates lc cid), cConsensusStates = consensusStates lc cid\<rparr>"

text \<open>The calls that change the storage; one that reverts leaves it as it is.\<close>

datatype client_event =
    Create (event_client: string) ClientState ConsensusState
  | Update (event_client: string) nat UpdateStateInput

definition unless_reverted :: "'s \<Rightarrow> revert + 's \<Rightarrow> 's" where
  "unless_reverted s r = (case r of Inl e \<Rightarrow> s | Inr s' \<Rightarrow> s')"

fun storage_step :: "client_event \<Rightarrow> light_client \<Rightarrow> light_client" where
  "storage_step (Create cid cs cons) lc = unless_reverted lc (initializeClient_at lc cid cs cons)"
| "storage_step (Update cid now m) lc = unless_reverted lc (updateState_at lc cid now m)"

fun client_step :: "client_event \<Rightarrow> contract \<Rightarrow> contract" where
  "client_step (Create cid cs cons) c = unless_reverted c (initializeClient c cs cons)"
| "client_step (Update cid now m) c = unless_reverted c (updateState c now m)"

section \<open>Separation\<close>

text \<open>
  A system with a view for each key, in which an event changes the view of its own key alone, and as a
  function of that view.
\<close>

locale separated =
  fixes step :: "'e \<Rightarrow> 's \<Rightarrow> 's" and key :: "'e \<Rightarrow> 'k" and view :: "'s \<Rightarrow> 'k \<Rightarrow> 'v" and own_step :: "'e \<Rightarrow> 'v \<Rightarrow> 'v"
  assumes own: "view (step e s) (key e) = own_step e (view s (key e))"
    and other: "k \<noteq> key e \<Longrightarrow> view (step e s) k = view s k"
begin

text \<open>After any sequence of events a view is what its own events alone make of it.\<close>

lemma view_fold: "view (fold step es s) k = fold own_step (filter (\<lambda>e. key e = k) es) (view s k)"
proof (induction es arbitrary: s)
  case (Cons e es)
  then show ?case by (cases "key e = k") (auto simp: own other)
qed simp

lemma unseen: "k \<notin> key ` set es \<Longrightarrow> view (fold step es s) k = view s k"
proof -
  assume "k \<notin> key ` set es"
  then have "filter (\<lambda>e. key e = k) es = []" by (auto simp: filter_empty_conv)
  then show ?thesis by (simp add: view_fold)
qed

end

lemma initializeClient_view:
  "(case initializeClient_at lc cid cs cons of Inl e \<Rightarrow> Inl e | Inr lc' \<Rightarrow> Inr (client_view lc' cid)) =
     initializeClient (client_view lc cid) cs cons"
  by (simp add: initializeClient_at_def initializeClient_def client_view_def set_consensus_def Let_def)

lemma expected_inputs_view:
  "expected_inputs lc cons m = (if untrustedHeight m - trustedHeight m = 1 then check_step (client_view lc cid) cons m
     else check_skip (client_view lc cid) cons m)"
  by (simp add: expected_inputs_def check_step_def check_skip_def client_view_def)

lemma updateState_view:
  "(case updateState_at lc cid now m of Inl e \<Rightarrow> Inl e | Inr lc' \<Rightarrow> Inr (client_view lc' cid)) =
     updateState (client_view lc cid) now m"
proof -
  have v: "cConsensusStates (client_view lc cid) = consensusStates lc cid"
      "cTrustingPeriod (client_view lc cid) = entry_trustingPeriod (clientStates lc cid)"
    by (simp_all add: client_view_def)
  show ?thesis
    unfolding updateState_at_def updateState_def v Let_def expected_inputs_view [of lc _ m cid]
    by (auto simp: rbind_def client_view_def set_consensus_def split: sum.split)
qed

lemma other_views:
  assumes "cid' \<noteq> cid"
  shows "initializeClient_at lc cid cs cons = Inr lc' \<Longrightarrow> client_view lc' cid' = client_view lc cid'"
    "updateState_at lc cid now m = Inr lc' \<Longrightarrow> client_view lc' cid' = client_view lc cid'"
  using assms
  by (auto simp: initializeClient_at_def updateState_at_def client_view_def set_consensus_def Let_def rbind_eq_Inr_iff
      split: if_splits)

interpretation storage: separated storage_step event_client client_view client_step
proof
  fix e lc
  show "client_view (storage_step e lc) (event_client e) = client_step e (client_view lc (event_client e))"
  proof (cases e)
    case (Create cid cs cons)
    then show ?thesis
      using initializeClient_view [of cid lc cs cons, symmetric] by (simp add: unless_reverted_def split: sum.split)
  next
    case (Update cid now m)
    then show ?thesis
      using updateState_view [of cid lc now m, symmetric] by (simp add: unless_reverted_def split: sum.split)
  qed
next
  fix k e lc
  show "k \<noteq> event_client e \<Longrightarrow> client_view (storage_step e lc) k = client_view lc k"
    using other_views by (cases e) (auto simp: unless_reverted_def split: sum.splits)
qed

section \<open>Properties\<close>

text \<open>
  C12: Clients do not interfere: after any sequence of calls on any clients of one contract, the storage
  that belongs to a client is what its own calls alone make of a contract with that one client, reverts
  included.
\<close>

theorem clients_independent:
  "client_view (fold storage_step es (light_client_constructor step skp revision)) cid =
     fold client_step (filter (\<lambda>e. event_client e = cid) es) (new_contract step skp revision)"
  unfolding storage.view_fold by (simp add: client_view_def light_client_constructor_def new_contract_def)

end
