(* ===== verification/Contract_Messages.thy ===== *)
theory Contract_Messages
  imports Contract_Codec
begin

text \<open>
  The rest of the generated codec
  \<open>contracts/proto/ibc/lightclients/tendermintzk/v1/TendermintZKLightClient.sol\<close>, which the light client does not call:
  the encoder of \<open>UpdateStateMessage\<close>, the library of \<open>Timestamp\<close>, nested encoding, the emptiness tests and the array
  helpers. The readers and writers of \<open>int64\<close> and \<open>int32\<close> of \<open>ProtoBufRuntime\<close> are the record \<open>int_codec\<close>.
\<close>

section \<open>Encoding an update message\<close>

definition UpdateStateMessage_estimate :: "sol_codec \<Rightarrow> UpdateStateMessage \<Rightarrow> nat" where
  "UpdateStateMessage_estimate c r = 1 + sz_uint64 c (TrustedHeight r) + (1 + sz_uint64 c (UntrustedHeight r))
     + (1 + sz_lendelim c (length (UntrustedBlockHash r))) + (1 + sz_uint64 c (MsgTimestamp r))
     + (1 + sz_lendelim c (length (MsgAppHash r)))
     + sum_list (map (\<lambda>b. 1 + sz_lendelim c (length b)) (SimpleTreeProof r))
     + sum_list (map (\<lambda>b. 1 + sz_lendelim c (length b)) (Input r))
     + (1 + sz_lendelim c (length (ZkProof r)))"

definition write_each :: "sol_codec \<Rightarrow> nat \<Rightarrow> bytes list \<Rightarrow> sol_writer list" where
  "write_each c f bss = concat (map (\<lambda>b. [encode_key c f 2, encode_bytes c b]) bss)"

definition sol_UpdateStateMessage_encode :: "sol_codec \<Rightarrow> UpdateStateMessage \<Rightarrow> bytes" where
  "sol_UpdateStateMessage_encode c r = sol_encode (UpdateStateMessage_estimate c r)
     ((if TrustedHeight r \<noteq> 0 then [encode_key c 1 0, encode_uint64 c (TrustedHeight r)] else [])
      @ (if UntrustedHeight r \<noteq> 0 then [encode_key c 2 0, encode_uint64 c (UntrustedHeight r)] else [])
      @ (if length (UntrustedBlockHash r) \<noteq> 0 then [encode_key c 3 2, encode_bytes c (UntrustedBlockHash r)] else [])
      @ (if MsgTimestamp r \<noteq> 0 then [encode_key c 4 0, encode_uint64 c (MsgTimestamp r)] else [])
      @ (if length (MsgAppHash r) \<noteq> 0 then [encode_key c 5 2, encode_bytes c (MsgAppHash r)] else [])
      @ (if length (SimpleTreeProof r) \<noteq> 0 then write_each c 6 (SimpleTreeProof r) else [])
      @ (if length (Input r) \<noteq> 0 then write_each c 7 (Input r) else [])
      @ (if length (ZkProof r) \<noteq> 0 then [encode_key c 8 2, encode_bytes c (ZkProof r)] else []))"

section \<open>Timestamp\<close>

record int_codec =
  decode_int64 :: "nat \<Rightarrow> bytes \<Rightarrow> (64 word \<times> nat) option"
  decode_int32 :: "nat \<Rightarrow> bytes \<Rightarrow> (32 word \<times> nat) option"
  encode_int64 :: "64 word \<Rightarrow> nat \<Rightarrow> bytes \<Rightarrow> bytes \<times> nat"
  encode_int32 :: "32 word \<Rightarrow> nat \<Rightarrow> bytes \<Rightarrow> bytes \<times> nat"
  sz_int64 :: "64 word \<Rightarrow> nat"
  sz_int32 :: "32 word \<Rightarrow> nat"

definition Timestamp_reader :: "sol_codec \<Rightarrow> int_codec \<Rightarrow> TimestampMsg reader" where
  "Timestamp_reader c ic bs fieldId wireType p r =
     (if fieldId = 1 then read_with (decode_int64 ic p bs) (\<lambda>x. r\<lparr>Seconds := x\<rparr>)
      else if fieldId = 2 then read_with (decode_int32 ic p bs) (\<lambda>x. r\<lparr>Nanos := x\<rparr>)
      else skip_unknown c wireType p bs r)"

definition sol_Timestamp_decode :: "sol_codec \<Rightarrow> int_codec \<Rightarrow> bytes \<Rightarrow> TimestampMsg option" where
  "sol_Timestamp_decode c ic bs = decode_loop c (Timestamp_reader c ic) bs (32 + length bs) 32 Timestamp_Reset"

definition Timestamp_estimate :: "int_codec \<Rightarrow> TimestampMsg \<Rightarrow> nat" where
  "Timestamp_estimate ic r = 1 + sz_int64 ic (Seconds r) + (1 + sz_int32 ic (Nanos r))"

definition sol_Timestamp_encode :: "sol_codec \<Rightarrow> int_codec \<Rightarrow> TimestampMsg \<Rightarrow> bytes" where
  "sol_Timestamp_encode c ic r = sol_encode (Timestamp_estimate ic r)
     ((if Seconds r \<noteq> 0 then [encode_key c 1 0, encode_int64 ic (Seconds r)] else [])
      @ (if Nanos r \<noteq> 0 then [encode_key c 2 0, encode_int32 ic (Nanos r)] else []))"

section \<open>Nested encoding\<close>

text \<open>
  The message is encoded into an array of its own, then its size and its bytes are written at the pointer.
\<close>

definition sol_encode_nested :: "(nat \<Rightarrow> sol_writer) \<Rightarrow> nat \<Rightarrow> sol_writer list \<Rightarrow> sol_writer" where
  "sol_encode_nested encode_varint estimate ws pointer bs =
     (case sol_writes ws (replicate estimate 0, 32) of (tmp, stop) \<Rightarrow>
        let size = stop - 32 in
        case encode_varint size pointer bs of (bs', n) \<Rightarrow>
          (copy_at bs' (pointer + n - 32) (take size tmp), n + size))"

section \<open>Helpers\<close>

definition sol_UpdateStateMessage_empty :: "UpdateStateMessage \<Rightarrow> bool" where
  "sol_UpdateStateMessage_empty r =
     (if TrustedHeight r \<noteq> 0 then False else if UntrustedHeight r \<noteq> 0 then False
      else if length (UntrustedBlockHash r) \<noteq> 0 then False else if MsgTimestamp r \<noteq> 0 then False
      else if length (MsgAppHash r) \<noteq> 0 then False else if length (SimpleTreeProof r) \<noteq> 0 then False
      else if length (Input r) \<noteq> 0 then False else if length (ZkProof r) \<noteq> 0 then False else True)"

definition sol_ClientState_empty :: "ClientState \<Rightarrow> bool" where
  "sol_ClientState_empty r =
     (if length (StepVerifierDigest r) \<noteq> 0 then False else if length (SkipVerifierDigest r) \<noteq> 0 then False
      else if TrustingPeriod r \<noteq> 0 then False else if Frozen r \<noteq> False then False else True)"

definition sol_ConsensusState_empty :: "ConsensusState \<Rightarrow> bool" where
  "sol_ConsensusState_empty r =
     (if length (BlockHash r) \<noteq> 0 then False else if length (AppHash r) \<noteq> 0 then False
      else if Timestamp r \<noteq> 0 then False else True)"

definition sol_Timestamp_empty :: "TimestampMsg \<Rightarrow> bool" where
  "sol_Timestamp_empty r = (if Seconds r \<noteq> 0 then False else if Nanos r \<noteq> 0 then False else True)"

text \<open>\<open>addSimpleTreeProof\<close> and \<open>addInput\<close> copy the array into one that is longer by one.\<close>

fun copy_elements :: "bytes list \<Rightarrow> bytes list \<Rightarrow> nat \<Rightarrow> nat \<Rightarrow> bytes list" where
  "copy_elements xs tmp i 0 = tmp"
| "copy_elements xs tmp i (Suc n) = copy_elements xs (tmp[i := xs ! i]) (i + 1) n"

definition add_element :: "bytes list \<Rightarrow> bytes \<Rightarrow> bytes list" where
  "add_element xs v = (let tmp = replicate (length xs + 1) []; tmp = copy_elements xs tmp 0 (length xs) in tmp[length xs := v])"

definition addSimpleTreeProof :: "UpdateStateMessage \<Rightarrow> bytes \<Rightarrow> UpdateStateMessage" where
  "addSimpleTreeProof r v = r\<lparr>SimpleTreeProof := add_element (SimpleTreeProof r) v\<rparr>"

definition addInput :: "UpdateStateMessage \<Rightarrow> bytes \<Rightarrow> UpdateStateMessage" where
  "addInput r v = r\<lparr>Input := add_element (Input r) v\<rparr>"

section \<open>Facts\<close>

lemma copy_elements_eq:
  "i + n \<le> length xs \<Longrightarrow> i + n \<le> length tmp \<Longrightarrow>
     copy_elements xs tmp i n = take i tmp @ take n (drop i xs) @ drop (i + n) tmp"
proof (induction n arbitrary: i tmp)
  case (Suc n)
  then have "take (i + 1) (tmp[i := xs ! i]) = take i tmp @ [xs ! i]"
    by (simp add: take_Suc_conv_app_nth)
  moreover have "drop i xs = xs ! i # drop (i + 1) xs"
    using Suc.prems by (simp add: Cons_nth_drop_Suc)
  ultimately show ?case using Suc by simp
qed simp

lemma add_element_eq: "add_element xs v = xs @ [v]"
proof -
  have "drop (length xs) (replicate (length xs + 1) []) = ([[]] :: bytes list)" by (simp only: drop_replicate) simp
  then show ?thesis by (simp add: add_element_def copy_elements_eq Let_def list_update_append)
qed

text \<open>The runtime's signed integers are the varints of their 64-bit two's complement.\<close>

definition ints_ok :: "int_codec \<Rightarrow> bool" where
  "ints_ok ic \<longleftrightarrow> (\<forall>v. reads (decode_int64 ic) v (uvarint v) \<and> sol_put (encode_int64 ic v) (uvarint v) \<and> sov v \<le> sz_int64 ic v)
     \<and> (\<forall>v. reads (decode_int32 ic) v (uvarint (scast v)) \<and> sol_put (encode_int32 ic v) (uvarint (scast v))
          \<and> sov (scast v) \<le> sz_int32 ic v)"

lemma list_all2_write_each:
  assumes "encodes_ok c henc" and "f < 16" "0 < f"
  shows "list_all2 sol_put (write_each c f bss) (concat (map (\<lambda>b. [[field_key f 2], frame b]) bss))"
  using encodes_okD(1,4) [OF assms(1)] assms(2,3) by (induction bss) (simp_all add: write_each_def)

lemma concat_each: "concat (concat (map (\<lambda>b. [[field_key f 2], frame b]) bss)) = enc_repeated (field_key f 2) bss"
  by (induction bss) (simp_all add: enc_repeated_Cons enc_repeated_Nil enc_field)

lemma length_each:
  assumes "encodes_ok c henc"
  shows "length (enc_repeated (field_key f 2) bss) \<le> sum_list (map (\<lambda>b. 1 + sz_lendelim c (length b)) bss)"
  by (induction bss) (simp_all add: enc_repeated_Cons enc_repeated_Nil enc_field add_mono encodes_okD(8) [OF assms])

lemma sol_encode_update:
  assumes ok: "encodes_ok c henc"
  shows "sol_UpdateStateMessage_encode c r = UpdateStateMessage_enc r"
proof -
  note k = encodes_okD [OF ok]
  let ?each = "\<lambda>f bss. concat (map (\<lambda>b. [[field_key f 2], frame b]) bss)"
  let ?es = "(if TrustedHeight r \<noteq> 0 then [[field_key 1 0], uvarint (TrustedHeight r)] else [])
    @ (if UntrustedHeight r \<noteq> 0 then [[field_key 2 0], uvarint (UntrustedHeight r)] else [])
    @ (if length (UntrustedBlockHash r) \<noteq> 0 then [[field_key 3 2], frame (UntrustedBlockHash r)] else [])
    @ (if MsgTimestamp r \<noteq> 0 then [[field_key 4 0], uvarint (MsgTimestamp r)] else [])
    @ (if length (MsgAppHash r) \<noteq> 0 then [[field_key 5 2], frame (MsgAppHash r)] else [])
    @ (if length (SimpleTreeProof r) \<noteq> 0 then ?each 6 (SimpleTreeProof r) else [])
    @ (if length (Input r) \<noteq> 0 then ?each 7 (Input r) else [])
    @ (if length (ZkProof r) \<noteq> 0 then [[field_key 8 2], frame (ZkProof r)] else [])"
  have each: "concat (if length bss \<noteq> 0 then ?each f bss else []) = enc_repeated (field_key f 2) bss" for f bss
    by (cases bss) (simp_all only: concat_each enc_repeated_Nil list.size concat.simps if_True if_False nat.simps not_True_eq_False add_Suc_right simp_thms)
  have e: "concat ?es = UpdateStateMessage_enc r"
    unfolding concat_append each
    by (simp add: concat_opt UpdateStateMessage_enc_def enc_opt_bytes_def enc_opt_uint_def enc_field [symmetric] tags [symmetric]
        del: One_nat_def)
  have o: "length (enc_opt_uint (field_key f 0) v) \<le> 1 + sz_uint64 c v"
      "length (enc_opt_bytes (field_key f 2) b) \<le> 1 + sz_lendelim c (length b)" for f v b
    using k(8) [of b "length b"] by (simp_all add: enc_opt_uint_def enc_opt_bytes_def enc_field k(7) length_uvarint)
  have "length (UpdateStateMessage_enc r) \<le> UpdateStateMessage_estimate c r"
    unfolding UpdateStateMessage_enc_def UpdateStateMessage_estimate_def tags [symmetric] length_append
    using o(1) [of 1 "TrustedHeight r"] o(1) [of 2 "UntrustedHeight r"] o(2) [of 3 "UntrustedBlockHash r"]
      o(1) [of 4 "MsgTimestamp r"] o(2) [of 5 "MsgAppHash r"] o(2) [of 8 "ZkProof r"]
      length_each [OF ok, of 6 "SimpleTreeProof r"] length_each [OF ok, of 7 "Input r"] by linarith
  with e have "length (concat ?es) \<le> UpdateStateMessage_estimate c r" by simp
  then have "sol_UpdateStateMessage_encode c r = concat ?es"
    unfolding sol_UpdateStateMessage_encode_def
    by (intro sol_encode_put list_all2_appendI list_all2_if list_all2_write_each [OF ok]) (simp_all add: k(1-4))
  with e show ?thesis by simp
qed

lemma sol_encode_timestamp:
  assumes ok: "encodes_ok c henc" and ints: "ints_ok ic"
  shows "sol_Timestamp_encode c ic r = Timestamp_enc r"
proof -
  note k = encodes_okD [OF ok]
  let ?es = "(if Seconds r \<noteq> 0 then [[field_key 1 0], uvarint (Seconds r)] else [])
    @ (if Nanos r \<noteq> 0 then [[field_key 2 0], uvarint (scast (Nanos r))] else [])"
  have e: "concat ?es = Timestamp_enc r"
    by (simp add: concat_opt Timestamp_enc_def enc_opt_uint_def enc_field [symmetric] tags [symmetric] scast_32_eq_0 del: One_nat_def)
  have "length (concat ?es) \<le> Timestamp_estimate ic r"
    using ints by (simp add: Timestamp_estimate_def ints_ok_def length_uvarint add_mono trans_le_add1 trans_le_add2 le_SucI)
  then have "sol_Timestamp_encode c ic r = concat ?es"
    unfolding sol_Timestamp_encode_def
    by (intro sol_encode_put list_all2_appendI list_all2_if) (use ints in \<open>simp_all add: k(1) ints_ok_def\<close>)
  with e show ?thesis by simp
qed

lemma sol_decode_timestamp:
  assumes ok: "decodes_ok c henc" and ints: "ints_ok ic" and len: "length (Timestamp_enc m) < max_len"
  shows "sol_Timestamp_decode c ic (Timestamp_enc m) = Some m"
proof -
  let ?r0 = Timestamp_Reset
  let ?r1 = "?r0\<lparr>Seconds := Seconds m\<rparr>"
  let ?r2 = "?r1\<lparr>Nanos := Nanos m\<rparr>"
  let ?f = "sol_feeds c (Timestamp_reader c ic)"
  note d = Timestamp_reader_def Timestamp_Reset_def
  have r: "reads (decode_int64 ic) (Seconds m) (uvarint (Seconds m))" "reads (decode_int32 ic) (Nanos m) (uvarint (scast (Nanos m)))"
    using ints by (simp_all add: ints_ok_def)
  have "?f (field_key 1 0 # uvarint (Seconds m)) ?r0 ?r1"
    by (rule sol_feeds_read [OF ok _ _ _ r(1), where store = "\<lambda>x. ?r0\<lparr>Seconds := x\<rparr>"]) (simp_all add: d)
  then have 1: "?f (enc_opt_uint (field_key 1 0) (Seconds m)) ?r0 ?r1"
    by (auto simp: enc_opt_uint_def enc_field sol_feeds_Nil Timestamp_Reset_def)
  have "?f (field_key 2 0 # uvarint (scast (Nanos m))) ?r1 ?r2"
    by (rule sol_feeds_read [OF ok _ _ _ r(2), where store = "\<lambda>x. ?r1\<lparr>Nanos := x\<rparr>"]) (simp_all add: d)
  then have 2: "?f (enc_opt_uint (field_key 2 0) (scast (Nanos m))) ?r1 ?r2"
    by (auto simp: enc_opt_uint_def enc_field sol_feeds_Nil Timestamp_Reset_def scast_32_eq_0)
  have m: "?r2 = m" by (simp add: Timestamp_Reset_def)
  from sol_feeds_append [OF 1 2] have "?f (Timestamp_enc m) ?r0 m" by (simp only: Timestamp_enc_def tags m)
  from sol_feeds_decode [OF this len] show ?thesis by (simp add: sol_Timestamp_decode_def)
qed

text \<open>A nested message is framed by its length.\<close>

lemma sol_put_nested:
  assumes ws: "list_all2 sol_put ws es" "length (concat es) \<le> n"
    and varint: "\<And>k. sol_put (encode_varint k) (uvarint (word_of_nat k))"
  shows "sol_put (sol_encode_nested encode_varint n ws) (frame (concat es))"
  unfolding sol_put_def
proof (intro allI impI)
  fix p and bs :: bytes
  let ?e = "concat es" and ?u = "uvarint (word_of_nat (length (concat es)))"
  assume p: "32 \<le> p" "p - 32 + length (frame ?e) \<le> length bs"
  have tmp: "sol_writes ws (replicate n 0, 32) = (copy_at (replicate n 0) 0 ?e, 32 + length ?e)"
    using sol_writes_put [OF ws(1), of 32 "replicate n 0"] ws(2) by simp
  have "encode_varint (length ?e) p bs = (copy_at bs (p - 32) ?u, length ?u)"
    using varint [of "length ?e"] p by (simp add: sol_put_def frame_def)
  then show "sol_encode_nested encode_varint n ws p bs = (copy_at bs (p - 32) (frame ?e), length (frame ?e))"
    using p ws(2) copy_at_next [of "p - 32" ?u ?e bs]
    by (simp add: sol_encode_nested_def tmp Let_def frame_def) (simp add: copy_at_def)
qed

section \<open>Properties\<close>

text \<open>
  C13: The contract's codec and the relayer's are the same on update messages and timestamps: the contract's
  encoders produce the bytes that \<open>Marshal\<close> of the generated Go code produces, and its decoders read them.
\<close>

theorem contract_codec_agrees:
  assumes lib: "decodes_ok c henc" "encodes_ok c henc" "ints_ok ic"
    and size: "UpdateStateMessage_Size (Some m) < max_len"
  shows "UpdateStateMessage_Marshal m = Inr (sol_UpdateStateMessage_encode c m)
    \<and> sol_UpdateStateMessage_decode c (sol_UpdateStateMessage_encode c m) = Some m
    \<and> Timestamp_Marshal t = Inr (sol_Timestamp_encode c ic t)
    \<and> sol_Timestamp_decode c ic (sol_Timestamp_encode c ic t) = Some t"
proof -
  have "length (UpdateStateMessage_enc m) < max_len" using size by (simp add: update_state_message.sz_enc)
  moreover have "length (enc_opt_uint k v) \<le> 11" for k v
    using sov_le [of v] by (simp add: enc_opt_uint_def enc_uint_def length_uvarint)
  from add_mono [OF this this] have "length (Timestamp_enc t) \<le> 22" by (simp add: Timestamp_enc_def)
  then have "length (Timestamp_enc t) < max_len" by simp
  moreover have "UpdateStateMessage_Marshal m = Inr (UpdateStateMessage_enc m)"
    unfolding UpdateStateMessage_Marshal_def by (rule update_state_message.marshal_enc)
  moreover have "Timestamp_Marshal t = Inr (Timestamp_enc t)"
    unfolding Timestamp_Marshal_def by (rule timestamp.marshal_enc)
  ultimately show ?thesis
    by (simp add: sol_encode_update [OF lib(2)] sol_encode_timestamp [OF lib(2,3)] sol_decode_update [OF lib(1)]
        sol_decode_timestamp [OF lib(1,3)])
qed

definition example_ints :: int_codec where
  "example_ints = \<lparr>decode_int64 = (\<lambda>p bs. case read_varint bs (p - 32) 0 (0 :: 64 word) of Inl e \<Rightarrow> None | Inr (v, j) \<Rightarrow> Some (v, j - (p - 32))),
     decode_int32 = (\<lambda>p bs. case read_varint bs (p - 32) 0 (0 :: 64 word) of Inl e \<Rightarrow> None | Inr (v, j) \<Rightarrow> Some (ucast v, j - (p - 32))),
     encode_int64 = (\<lambda>v. put_at (uvarint v)), encode_int32 = (\<lambda>v. put_at (uvarint (scast v))),
     sz_int64 = sov, sz_int32 = (\<lambda>v. sov (scast v))\<rparr>"

lemma example_ints_ok: "ints_ok example_ints"
  by (simp add: ints_ok_def reads_def sol_put_def put_at_def example_ints_def example_varint ucast_scast_32)

theorem contract_codec_agrees_witness:
  "sol_UpdateStateMessage_decode example_codec (sol_UpdateStateMessage_encode example_codec example_message) = Some example_message
    \<and> sol_Timestamp_decode example_codec example_ints
        (sol_Timestamp_encode example_codec example_ints \<lparr>Seconds = 5, Nanos = - 7\<rparr>) = Some \<lparr>Seconds = 5, Nanos = - 7\<rparr>"
proof -
  have "UpdateStateMessage_Size (Some example_message) < max_len"
    by (simp add: UpdateStateMessage_Size_def example_message_def sov_small)
  from contract_codec_agrees [OF example_decodes_ok example_encodes_ok example_ints_ok this] show ?thesis by blast
qed

end
