(* ===== verification/Gnark_Circuit.thy ===== *)
theory Gnark_Circuit
  imports ZK_Prover
begin

text \<open>
  The circuit that wraps a plonky2 proof, \<open>go/circuit.go\<close>, and the public inputs the prover
  assigns to it, \<open>getInputHashOutputHash\<close> of \<open>go/prove.go\<close>. The gnark API and the verifier chip
  of gnark-plonky2-verifier are arguments: field elements are numbers, the API's operations
  are the record \<open>frontend_api\<close>, and a circuit is the list of the pairs it asserts to be equal.
\<close>

section \<open>The circuit\<close>

record frontend_api =
  Add :: "nat \<Rightarrow> nat \<Rightarrow> nat"
  Mul :: "nat \<Rightarrow> nat \<Rightarrow> nat"

text \<open>A plonky2 proof with the limbs of its public inputs.\<close>

record 'pf ProofWithPublicInputs =
  PlonkyProof :: 'pf
  PublicInputLimbs :: "nat list"

record ('pf, 'vd, 'cd) Plonky2xVerifierCircuit =
  VerifierDigest :: nat
  InputHash :: nat
  OutputHash :: nat
  ProofWithPis :: "'pf ProofWithPublicInputs"
  VerifierData :: 'vd
  CommonCircuitData :: 'cd

type_synonym assertions = "(nat \<times> nat) list"

text \<open>\<open>Verify\<close> gives the chip's own assertions, \<open>CircuitDigest\<close> reads the verifier data.\<close>

record ('pf, 'vd, 'cd) verifier_chip =
  Verify :: "'cd \<Rightarrow> 'pf \<Rightarrow> nat list \<Rightarrow> 'vd \<Rightarrow> assertions"
  CircuitDigest :: "'vd \<Rightarrow> nat"

text \<open>
  The loop over \<open>i\<close>: the byte at \<open>hi - i\<close> times \<open>1 << 8*i\<close>, added to the digest; \<open>n\<close> is the
  number of rounds left.
\<close>

fun digest_loop :: "frontend_api \<Rightarrow> nat list \<Rightarrow> nat \<Rightarrow> nat \<Rightarrow> nat \<Rightarrow> nat \<Rightarrow> nat" where
  "digest_loop api publicInputs hi i 0 digest = digest"
| "digest_loop api publicInputs hi i (Suc n) digest =
     (let pubByte = publicInputs ! (hi - i) in
      digest_loop api publicInputs hi (i + 1) n (Add api digest (Mul api pubByte (2 ^ (8 * i)))))"

datatype circuit_error = ExpectedInputs nat

definition Define ::
    "frontend_api \<Rightarrow> ('pf, 'vd, 'cd) verifier_chip \<Rightarrow> ('pf, 'vd, 'cd) Plonky2xVerifierCircuit
       \<Rightarrow> circuit_error + assertions" where
  "Define api chip c =
     (let verified = Verify chip (CommonCircuitData c) (PlonkyProof (ProofWithPis c))
            (PublicInputLimbs (ProofWithPis c)) (VerifierData c);
          publicInputs = PublicInputLimbs (ProofWithPis c) in
      if length publicInputs \<noteq> 64 then Inl (ExpectedInputs (length publicInputs))
      else
        let inputDigest = digest_loop api publicInputs 31 0 32 0;
            outputDigest = digest_loop api publicInputs 63 0 32 0 in
        Inr (verified @ [(InputHash c, inputDigest), (OutputHash c, outputDigest),
          (VerifierDigest c, CircuitDigest chip (VerifierData c))]))"

section \<open>The assignment of the prover\<close>

text \<open>A proof as the JSON file has it: the public inputs are \<open>uint64\<close> values.\<close>

record 'r ProofWithPublicInputsRaw =
  RawProof :: 'r
  PublicInputs :: "uint64 list"

datatype input_error = PublicInputsLength | InputHashBits | OutputHashBits

definition getInputHashOutputHash :: "'r ProofWithPublicInputsRaw \<Rightarrow> input_error + (nat \<times> nat)" where
  "getInputHashOutputHash proofWithPis =
     (let publicInputs = PublicInputs proofWithPis in
      if length publicInputs \<noteq> 64 then Inl PublicInputsLength
      else
        let publicInputsBytes = map (\<lambda>v. ucast (v AND 0xFF)) publicInputs :: bytes;
            inputHash = be_nat (take 32 publicInputsBytes);
            outputHash = be_nat (take 32 (drop 32 publicInputsBytes)) in
        if 253 < bit_len inputHash then Inl InputHashBits
        else if 253 < bit_len outputHash then Inl OutputHashBits
        else Inr (inputHash, outputHash))"

section \<open>Arithmetic of the field\<close>

text \<open>A number in base 256, most significant digit first.\<close>

fun base256 :: "nat list \<Rightarrow> nat" where
  "base256 [] = 0"
| "base256 (x # xs) = x * 256 ^ length xs + base256 xs"

lemma base256_append: "base256 (xs @ ys) = base256 xs * 256 ^ length ys + base256 ys"
  by (induction xs) (simp_all add: algebra_simps power_add)

lemma base256_bytes: "base256 (map unat bs) = be_nat bs"
  by (induction bs) simp_all

text \<open>The documented contract of the API over the field of \<open>q\<close> elements.\<close>

locale frontend_field =
  fixes api :: frontend_api and q :: nat
  assumes add: "Add api a b mod q = (a + b) mod q"
    and mul: "Mul api a b mod q = (a * b) mod q"
begin

lemma digest_loop_value:
  assumes "i + n \<le> Suc hi" and "hi < length ps"
  shows "digest_loop api ps hi i n d mod q
    = (d + base256 (take n (drop (Suc hi - (i + n)) ps)) * 256 ^ i) mod q"
  using assms
proof (induction n arbitrary: i d)
  case (Suc n)
  let ?k = "Suc hi - (i + Suc n)" and ?b = "ps ! (hi - i)"
  let ?d = "Add api d (Mul api ?b (2 ^ (8 * i)))"
  have k: "?k + n = hi - i" "Suc hi - (Suc i + n) = ?k" using Suc.prems by simp_all
  have w: "take (Suc n) (drop ?k ps) = take n (drop ?k ps) @ [?b]"
    using Suc.prems k(1) by (subst take_Suc_conv_app_nth) simp_all
  have b: "base256 (take (Suc n) (drop ?k ps)) = base256 (take n (drop ?k ps)) * 256 + ?b"
    by (simp only: w base256_append) simp
  have "(2 :: nat) ^ (8 * i) = 256 ^ i" by (simp add: power_mult)
  then have d: "?d mod q = (d + ?b * 256 ^ i) mod q"
    using add [of d "Mul api ?b (2 ^ (8 * i))"] mul [of ?b "2 ^ (8 * i)"] by (metis mod_add_right_eq)
  have "digest_loop api ps hi i (Suc n) d mod q
      = (?d + base256 (take n (drop ?k ps)) * 256 ^ Suc i) mod q"
    using Suc.IH [of "Suc i" ?d] Suc.prems k(2) by (simp add: Let_def)
  also have "\<dots> = (d + ?b * 256 ^ i + base256 (take n (drop ?k ps)) * 256 ^ Suc i) mod q"
    using d by (metis mod_add_left_eq)
  also have "d + ?b * 256 ^ i + base256 (take n (drop ?k ps)) * 256 ^ Suc i
      = d + base256 (take (Suc n) (drop ?k ps)) * 256 ^ i"
    unfolding b by (simp add: algebra_simps)
  finally show ?case .
qed simp

lemma digests:
  assumes "length ps = 64"
  shows "digest_loop api ps 31 0 32 0 mod q = base256 (take 32 ps) mod q"
    and "digest_loop api ps 63 0 32 0 mod q = base256 (drop 32 ps) mod q"
  using digest_loop_value [of 0 32 31 ps 0] digest_loop_value [of 0 32 63 ps 0] assms by simp_all

end

text \<open>The API over the integers modulo \<open>q\<close>, and the order of the scalar field of BN254.\<close>

definition field_api :: "nat \<Rightarrow> frontend_api" where
  "field_api q = \<lparr>Add = (\<lambda>a b. (a + b) mod q), Mul = (\<lambda>a b. (a * b) mod q)\<rparr>"

interpretation modular: frontend_field "field_api q" q
  by unfold_locales (simp_all add: field_api_def)

definition bn254_r :: nat where
  "bn254_r = 21888242871839275222246405745257275088548364400416034343698204186575808495617"

text \<open>When every asserted pair is equal in the field, the assignment satisfies the circuit.\<close>

definition satisfied :: "nat \<Rightarrow> assertions \<Rightarrow> bool" where
  "satisfied q as = list_all (\<lambda>(a, b). a mod q = b mod q) as"

lemma satisfied_append [simp]: "satisfied q (as @ bs) \<longleftrightarrow> satisfied q as \<and> satisfied q bs"
  by (simp add: satisfied_def)

lemma satisfied_simps [simp]: "satisfied q []" "satisfied q ((a, b) # as) \<longleftrightarrow> a mod q = b mod q \<and> satisfied q as"
  by (simp_all add: satisfied_def)

text \<open>The limbs of the proof's public inputs, as \<open>DeserializeProofWithPublicInputs\<close> gives them.\<close>

definition limbs_of :: "'r ProofWithPublicInputsRaw \<Rightarrow> nat list" where
  "limbs_of raw = map unat (PublicInputs raw)"

lemma low_byte: "unat (ucast ((v :: uint64) AND 0xFF) :: byte) = unat v mod 256"
proof -
  have "v AND 0xFF = take_bit 8 v"
    by (simp add: take_bit_eq_mask mask_numeral)
  then show ?thesis
    by (simp add: unsigned_ucast_eq unsigned_take_bit_eq) (simp add: take_bit_eq_mod)
qed

lemma low_bytes: "be_nat (map (\<lambda>v. ucast ((v :: uint64) AND 0xFF)) vs) = base256 (map (\<lambda>v. unat v mod 256) vs)"
  by (induction vs) (simp_all add: low_byte)

lemma getInputHashOutputHash_Inr:
  "getInputHashOutputHash raw = Inr (i, o') \<longleftrightarrow>
     length (PublicInputs raw) = 64
     \<and> i = base256 (map (\<lambda>v. unat v mod 256) (take 32 (PublicInputs raw))) \<and> i < 2 ^ 253
     \<and> o' = base256 (map (\<lambda>v. unat v mod 256) (drop 32 (PublicInputs raw))) \<and> o' < 2 ^ 253"
  by (auto simp: getInputHashOutputHash_def Let_def take_map drop_map low_bytes bit_len_le_iff not_less
      simp flip: not_le)

text \<open>
  The assignment \<open>prove\<close> and the service make: the public variables from the public inputs and
  the verifier data. The common circuit data are not part of the assignment.
\<close>

definition assignment ::
    "('pf, 'vd, 'cd) verifier_chip \<Rightarrow> 'cd \<Rightarrow> 'pf ProofWithPublicInputs \<Rightarrow> 'vd \<Rightarrow> nat \<times> nat
       \<Rightarrow> ('pf, 'vd, 'cd) Plonky2xVerifierCircuit" where
  "assignment chip common proofWithPis verifierOnlyCircuitData hashes =
     \<lparr>VerifierDigest = CircuitDigest chip verifierOnlyCircuitData, InputHash = fst hashes,
      OutputHash = snd hashes, ProofWithPis = proofWithPis, VerifierData = verifierOnlyCircuitData,
      CommonCircuitData = common\<rparr>"

lemma Define_satisfied:
  assumes "frontend_field api q" and "Define api chip c = Inr as"
  shows "satisfied q as \<longleftrightarrow>
     satisfied q (Verify chip (CommonCircuitData c) (PlonkyProof (ProofWithPis c))
       (PublicInputLimbs (ProofWithPis c)) (VerifierData c))
     \<and> InputHash c mod q = base256 (take 32 (PublicInputLimbs (ProofWithPis c))) mod q
     \<and> OutputHash c mod q = base256 (drop 32 (PublicInputLimbs (ProofWithPis c))) mod q
     \<and> VerifierDigest c mod q = CircuitDigest chip (VerifierData c) mod q"
  using assms(2) frontend_field.digests [OF assms(1), of "PublicInputLimbs (ProofWithPis c)"]
  by (auto simp: Define_def Let_def split: if_splits)

lemma small_limbs: "\<forall>v \<in> set vs. unat v < 256 \<Longrightarrow> map (\<lambda>v. unat v mod 256) vs = map unat vs"
  by simp

section \<open>Properties\<close>

text \<open>
  C27: What the circuit states: its constraints hold of an assignment exactly if the plonky2
  proof is accepted by the verifier chip for the verifier data, the two hashes are the first
  and the last 32 public inputs read as big-endian numbers in the field, and the digest is that
  of the verifier data. The circuit is refused when there are not 64 public inputs.
\<close>

theorem circuit_statement:
  assumes "frontend_field api q"
  shows "(\<exists>as. Define api chip c = Inr as \<and> satisfied q as) \<longleftrightarrow>
     length (PublicInputLimbs (ProofWithPis c)) = 64
     \<and> satisfied q (Verify chip (CommonCircuitData c) (PlonkyProof (ProofWithPis c))
         (PublicInputLimbs (ProofWithPis c)) (VerifierData c))
     \<and> InputHash c mod q = base256 (take 32 (PublicInputLimbs (ProofWithPis c))) mod q
     \<and> OutputHash c mod q = base256 (drop 32 (PublicInputLimbs (ProofWithPis c))) mod q
     \<and> VerifierDigest c mod q = CircuitDigest chip (VerifierData c) mod q"
proof (cases "length (PublicInputLimbs (ProofWithPis c)) = 64")
  case True
  then obtain as where "Define api chip c = Inr as"
    by (simp add: Define_def Let_def)
  with Define_satisfied [OF assms this] True show ?thesis by simp
qed (simp add: Define_def Let_def)

text \<open>A chip whose verifier data is its digest, which accepts the proof 7.\<close>

definition example_chip :: "(nat, nat, unit) verifier_chip" where
  "example_chip = \<lparr>Verify = (\<lambda>cd pf ps vd. [(pf, 7)]), CircuitDigest = (\<lambda>vd. vd)\<rparr>"

definition example_raw :: "nat ProofWithPublicInputsRaw" where
  "example_raw = \<lparr>RawProof = 7, PublicInputs = replicate 31 0 @ [5] @ replicate 31 0 @ [9]\<rparr>"

definition example_circuit :: "(nat, nat, unit) Plonky2xVerifierCircuit" where
  "example_circuit = assignment example_chip ()
     \<lparr>PlonkyProof = 7, PublicInputLimbs = limbs_of example_raw\<rparr> 11 (5, 9)"

lemma base256_replicate_0 [simp]: "base256 (replicate n 0 @ xs) = base256 xs"
  by (induction n) simp_all

lemma example_raw_limbs:
  "length (limbs_of example_raw) = 64" "take 32 (limbs_of example_raw) = replicate 31 0 @ [5]"
  "drop 32 (limbs_of example_raw) = replicate 31 0 @ [9]"
  by (simp_all add: limbs_of_def example_raw_def)

theorem circuit_statement_witness:
  "\<exists>as. Define (field_api bn254_r) example_chip example_circuit = Inr as \<and> satisfied bn254_r as"
  by (subst circuit_statement [OF modular.frontend_field_axioms])
    (simp add: example_circuit_def assignment_def example_raw_limbs example_chip_def)

text \<open>
  C26: The prover's assignment is the circuit's: when the 64 public inputs are bytes,
  \<open>getInputHashOutputHash\<close> fails exactly if one of the two hashes has more than 253 bits, and
  otherwise the assignment made of its result satisfies the circuit exactly if the plonky2
  proof verifies.
\<close>

theorem honest_assignment_satisfies:
  assumes "frontend_field api q" and "length (PublicInputs raw) = 64"
    and "list_all (\<lambda>v. unat v < 256) (PublicInputs raw)" and "PublicInputLimbs pf = limbs_of raw"
  shows "case getInputHashOutputHash raw of
      Inl e \<Rightarrow> 2 ^ 253 \<le> base256 (take 32 (limbs_of raw)) \<or> 2 ^ 253 \<le> base256 (drop 32 (limbs_of raw))
    | Inr h \<Rightarrow> base256 (take 32 (limbs_of raw)) < 2 ^ 253 \<and> base256 (drop 32 (limbs_of raw)) < 2 ^ 253
        \<and> ((\<exists>as. Define api chip (assignment chip cd pf vd h) = Inr as \<and> satisfied q as)
           \<longleftrightarrow> satisfied q (Verify chip cd (PlonkyProof pf) (PublicInputLimbs pf) vd))"
proof -
  have m: "map (\<lambda>v. unat v mod 256) (take 32 (PublicInputs raw)) = take 32 (limbs_of raw)"
    "map (\<lambda>v. unat v mod 256) (drop 32 (PublicInputs raw)) = drop 32 (limbs_of raw)"
    using assms(3) by (auto simp: limbs_of_def take_map drop_map list_all_iff dest: in_set_takeD in_set_dropD)
  have l: "length (limbs_of raw) = 64" using assms(2) by (simp add: limbs_of_def)
  show ?thesis
  proof (cases "getInputHashOutputHash raw")
    case (Inl e)
    then have "\<nexists>i o'. getInputHashOutputHash raw = Inr (i, o')" by simp
    with Inl assms(2) show ?thesis
      unfolding getInputHashOutputHash_Inr m by auto
  next
    case (Inr h)
    obtain i o' where h: "h = (i, o')" by fastforce
    from Inr have *: "i = base256 (take 32 (limbs_of raw))" "i < 2 ^ 253"
      "o' = base256 (drop 32 (limbs_of raw))" "o' < 2 ^ 253"
      unfolding h getInputHashOutputHash_Inr m by blast+
    let ?c = "assignment chip cd pf vd h"
    obtain as where as: "Define api chip ?c = Inr as"
      using l assms(4) by (simp add: Define_def assignment_def Let_def)
    from Define_satisfied [OF assms(1) as] show ?thesis
      using * as Inr assms(4) by (simp add: assignment_def h)
  qed
qed

theorem honest_assignment_satisfies_witness:
  "getInputHashOutputHash example_raw = Inr (5, 9)
   \<and> (\<exists>as. Define (field_api bn254_r) example_chip (assignment example_chip ()
        \<lparr>PlonkyProof = 7, PublicInputLimbs = limbs_of example_raw\<rparr> 11 (5, 9)) = Inr as \<and> satisfied bn254_r as)"
proof -
  have h: "getInputHashOutputHash example_raw = Inr (5, 9)"
    by (subst getInputHashOutputHash_Inr) (simp add: example_raw_def)
  have "length (PublicInputs example_raw) = 64" "list_all (\<lambda>v. unat v < 256) (PublicInputs example_raw)"
    by (simp_all add: example_raw_def list_all_iff)
  from honest_assignment_satisfies [OF modular.frontend_field_axioms this, of
      "\<lparr>PlonkyProof = 7, PublicInputLimbs = limbs_of example_raw\<rparr>" bn254_r example_chip "()" 11]
  show ?thesis
    by (simp add: h example_chip_def)
qed

end
