(* ===== verification/Gnark_Files.thy ===== *)
theory Gnark_Files
  imports Gnark_Circuit
begin

text \<open>
  The files of the prover: \<open>go/setup.go\<close>, which compiles the circuit and writes the constraint
  system and the keys, \<open>NewService\<close> of \<open>go/service.go\<close>, which reads them, and the file names.
  gnark (compilation, key generation) and the outcome of every system call are the record
  \<open>setup_lib\<close>; the state is the disk and the environment variable that selects the range check.
\<close>

section \<open>Paths\<close>

text \<open>\<open>filepath.Join\<close> and \<open>filepath.Clean\<close> on slash-separated paths.\<close>

fun split_slash :: "string \<Rightarrow> string list" where
  "split_slash [] = [[]]"
| "split_slash (c # cs) =
     (if c = CHR ''/'' then [] # split_slash cs
      else (c # hd (split_slash cs)) # tl (split_slash cs))"

fun join_slash :: "string list \<Rightarrow> string" where
  "join_slash [] = []"
| "join_slash [p] = p"
| "join_slash (p # q # ps) = p @ ''/'' @ join_slash (q # ps)"

text \<open>The elements kept so far are a stack: \<open>..\<close> takes one off, or stays when there is none.\<close>

fun clean_parts :: "bool \<Rightarrow> string list \<Rightarrow> string list \<Rightarrow> string list" where
  "clean_parts rooted stack [] = rev stack"
| "clean_parts rooted stack (p # ps) =
     (if p = [] \<or> p = ''.'' then clean_parts rooted stack ps
      else if p = ''..'' then
        (case stack of
           [] \<Rightarrow> clean_parts rooted (if rooted then [] else [''..'']) ps
         | t # ts \<Rightarrow> clean_parts rooted (if t = ''..'' then p # stack else ts) ps)
      else clean_parts rooted (p # stack) ps)"

definition Clean :: "string \<Rightarrow> string" where
  "Clean path =
     (let rooted = path \<noteq> [] \<and> hd path = CHR ''/'';
          parts = clean_parts rooted [] (split_slash path) in
      if rooted then CHR ''/'' # join_slash parts
      else if parts = [] then ''.'' else join_slash parts)"

definition Join :: "string \<Rightarrow> string \<Rightarrow> string" where
  "Join dir name = Clean (if dir = [] then name else dir @ ''/'' @ name)"

definition r1csPath :: "string \<Rightarrow> string" where
  "r1csPath dataDir = Join dataDir ''r1cs.bin''"

definition verifyingKeyPath :: "string \<Rightarrow> string" where
  "verifyingKeyPath dataDir = Join dataDir ''vk.bin''"

definition provingKeyPath :: "string \<Rightarrow> string" where
  "provingKeyPath dataDir = Join dataDir ''pk.bin''"

definition commonCircuitData :: "string \<Rightarrow> string" where
  "commonCircuitData dummyDataDir = Join dummyDataDir ''common_circuit_data.json''"

definition proofWithPublicInputsFile :: "string \<Rightarrow> string" where
  "proofWithPublicInputsFile dataDir = Join dataDir ''proof_with_public_inputs.json''"

definition verifierOnlyCircuitDataFile :: "string \<Rightarrow> string" where
  "verifierOnlyCircuitDataFile dataDir = Join dataDir ''verifier_only_circuit_data.json''"

section \<open>The disk\<close>

text \<open>What a file holds: what was written to it, or nothing usable when a write failed.\<close>

datatype ('cs, 'pk, 'vk) data_file = R1CS 'cs | PK 'pk | VK 'vk | Solidity 'vk | Unfinished

record ('cs, 'pk, 'vk) disk =
  files :: "string \<Rightarrow> ('cs, 'pk, 'vk) data_file option"
  bit_range_check :: bool

record ('c, 'cs, 'pk, 'vk) setup_lib =
  ReadDummy :: "string \<Rightarrow> string \<Rightarrow> string \<Rightarrow> string + 'c"
  Compile :: "bool \<Rightarrow> 'c \<Rightarrow> string + 'cs"
  Groth16Setup :: "'cs \<Rightarrow> string + ('pk \<times> 'vk)"
  create_error :: "string \<Rightarrow> string option"
  write_error :: "string \<Rightarrow> string option"

definition os_Create :: "('c, 'cs, 'pk, 'vk) setup_lib \<Rightarrow> string \<Rightarrow> ('cs, 'pk, 'vk) disk
    \<Rightarrow> string option \<times> ('cs, 'pk, 'vk) disk" where
  "os_Create lib path d = (case create_error lib path of
     Some e \<Rightarrow> (Some e, d)
   | None \<Rightarrow> (None, d\<lparr>files := (files d)(path \<mapsto> Unfinished)\<rparr>))"

definition write_file :: "('c, 'cs, 'pk, 'vk) setup_lib \<Rightarrow> string \<Rightarrow> ('cs, 'pk, 'vk) data_file
    \<Rightarrow> ('cs, 'pk, 'vk) disk \<Rightarrow> string option \<times> ('cs, 'pk, 'vk) disk" where
  "write_file lib path content d = (case write_error lib path of
     Some e \<Rightarrow> (Some e, d)
   | None \<Rightarrow> (None, d\<lparr>files := (files d)(path \<mapsto> content)\<rparr>))"

section \<open>Setup\<close>

datatype ProvingSystem = PS_Groth16 | PS_Groth16Commitment

definition parseProvingSystem :: "string \<Rightarrow> string + ProvingSystem" where
  "parseProvingSystem ps =
     (if ps = ''groth16'' then Inr PS_Groth16
      else if ps = ''groth16-commitment'' then Inr PS_Groth16Commitment
      else Inl (''unknown proving system '' @ ps))"

datatype outcome = Returned "string option" | Exited nat | Panicked string

text \<open>
  The last lines of \<open>setup\<close>: the errors of creating and writing the proving key are dropped,
  and writing to the nil file of a failed creation does nothing.
\<close>

definition write_proving_key :: "('c, 'cs, 'pk, 'vk) setup_lib \<Rightarrow> string \<Rightarrow> 'pk
    \<Rightarrow> ('cs, 'pk, 'vk) disk \<Rightarrow> outcome \<times> ('cs, 'pk, 'vk) disk" where
  "write_proving_key lib dataDir pk d =
     (case os_Create lib (provingKeyPath dataDir) d of
        (Some e, d) \<Rightarrow> (Returned None, d)
      | (None, d) \<Rightarrow> (Returned None, snd (write_file lib (provingKeyPath dataDir) (PK pk) d)))"

definition go_setup :: "('c, 'cs, 'pk, 'vk) setup_lib \<Rightarrow> ProvingSystem \<Rightarrow> string \<Rightarrow> string
    \<Rightarrow> ('cs, 'pk, 'vk) disk \<Rightarrow> outcome \<times> ('cs, 'pk, 'vk) disk" where
  "go_setup lib ps dataDir dummyDataDir d0 =
     (let d = d0\<lparr>bit_range_check := (ps = PS_Groth16)\<rparr> in
      case ReadDummy lib (dummyDataDir @ ''/proof_with_public_inputs.json'')
             (dummyDataDir @ ''/verifier_only_circuit_data.json'') (commonCircuitData dummyDataDir) of
        Inl e \<Rightarrow> (Panicked e, d)
      | Inr circuit \<Rightarrow>
     (case Compile lib (bit_range_check d) circuit of
        Inl e \<Rightarrow> (Exited 1, d)
      | Inr cs \<Rightarrow>
     (case os_Create lib (r1csPath dataDir) d of
        (Some e, d) \<Rightarrow> (Returned (Some e), d)
      | (None, d) \<Rightarrow>
     (case write_file lib (r1csPath dataDir) (R1CS cs) d of
        (Some e, d) \<Rightarrow> (Returned (Some e), d)
      | (None, d) \<Rightarrow>
     (case Groth16Setup lib cs of
        Inl e \<Rightarrow> (Returned (Some e), d)
      | Inr (pk, vk) \<Rightarrow>
     (case os_Create lib (verifyingKeyPath dataDir) d of
        (Some e, d) \<Rightarrow> (Returned (Some e), d)
      | (None, d) \<Rightarrow>
     (let d = snd (write_file lib (verifyingKeyPath dataDir) (VK vk) d);
          sol = Join dataDir ''Plonky2Verifier.sol'' in
      case os_Create lib sol d of
        (Some e, d) \<Rightarrow> (Returned (Some e), d)
      | (None, d) \<Rightarrow>
     (case write_file lib sol (Solidity vk) d of
        (Some e, d) \<Rightarrow> (Returned (Some e), d)
      | (None, d) \<Rightarrow> write_proving_key lib dataDir pk d))))))))"

text \<open>\<open>go/utils.go\<close>: \<open>missing\<close> says for which paths \<open>os.IsNotExist\<close> holds of the error of \<open>os.Stat\<close>.\<close>

definition dirExists :: "(string \<Rightarrow> bool) \<Rightarrow> string \<Rightarrow> string option" where
  "dirExists missing path = (if missing path then Some (''directory '' @ path @ '' does not exist'') else None)"

text \<open>
  The command: \<open>missing\<close> is what \<open>dirExists\<close> tests, \<open>mkdir\<close> the error of \<open>os.MkdirAll\<close>. A missing
  dummy directory is only logged.
\<close>

definition setup_run :: "('c, 'cs, 'pk, 'vk) setup_lib \<Rightarrow> (string \<Rightarrow> bool) \<Rightarrow> (string \<Rightarrow> string option)
    \<Rightarrow> string \<Rightarrow> string \<Rightarrow> string \<Rightarrow> ('cs, 'pk, 'vk) disk \<Rightarrow> outcome \<times> ('cs, 'pk, 'vk) disk" where
  "setup_run lib missing mkdir system dataDir dummyDir d =
     (case parseProvingSystem system of
        Inl e \<Rightarrow> (Exited 1, d)
      | Inr ps \<Rightarrow>
        if dataDir = [] then (Panicked ''data directory is required'', d)
        else if dirExists missing dataDir \<noteq> None \<and> mkdir dataDir \<noteq> None then (Exited 1, d)
        else go_setup lib ps dataDir dummyDir d)"

section \<open>Starting the service\<close>

record ('cs, 'pk) Service =
  srv_cs :: 'cs
  srv_pk :: 'pk

definition read_r1cs :: "('cs, 'pk, 'vk) disk \<Rightarrow> string \<Rightarrow> string + 'cs" where
  "read_r1cs d path = (case files d path of
     None \<Rightarrow> Inl ''no such file''
   | Some (R1CS cs) \<Rightarrow> Inr cs
   | Some _ \<Rightarrow> Inl ''decoding'')"

definition read_pk :: "('cs, 'pk, 'vk) disk \<Rightarrow> string \<Rightarrow> string + 'pk" where
  "read_pk d path = (case files d path of
     None \<Rightarrow> Inl ''no such file''
   | Some (PK pk) \<Rightarrow> Inr pk
   | Some _ \<Rightarrow> Inl ''decoding'')"

definition NewService :: "string \<Rightarrow> ('cs, 'pk, 'vk) disk \<Rightarrow> string + ('cs, 'pk) Service" where
  "NewService dataDir d =
     rbind (read_r1cs d (r1csPath dataDir)) (\<lambda>cs.
     rbind (read_pk d (provingKeyPath dataDir)) (\<lambda>pk.
       Inr \<lparr>srv_cs = cs, srv_pk = pk\<rparr>))"

section \<open>Facts\<close>

text \<open>A file name: one element, which cleaning keeps.\<close>

definition plain :: "string \<Rightarrow> bool" where
  "plain name \<longleftrightarrow> name \<notin> {[], ''.'', ''..''} \<and> CHR ''/'' \<notin> set name"

lemma split_slash_ne: "split_slash s \<noteq> []"
  by (induction s) auto

lemma split_slash_append: "split_slash (a @ CHR ''/'' # b) = split_slash a @ split_slash b"
  by (induction a) (auto simp: split_slash_ne hd_append)

lemma split_slash_plain: "CHR ''/'' \<notin> set s \<Longrightarrow> split_slash s = [s]"
  by (induction s) auto

lemma clean_parts_snoc:
  "plain name \<Longrightarrow> clean_parts r st (ps @ [name]) = clean_parts r st ps @ [name]"
  by (induction r st ps rule: clean_parts.induct) (auto simp: plain_def split: list.splits)

lemma join_slash_snoc: "ps \<noteq> [] \<Longrightarrow> join_slash (ps @ [name]) = join_slash ps @ CHR ''/'' # name"
  by (induction ps rule: join_slash.induct) auto

text \<open>A file keeps its name in every directory.\<close>

lemma Join_ends: "\<exists>pre. \<forall>name. plain name \<longrightarrow> Join dir name = pre @ name"
proof (cases "dir = []")
  case True
  have "Join [] name = name" if "plain name" for name
  proof -
    have "CHR ''/'' \<notin> set name" and "name \<noteq> []" using that by (simp_all add: plain_def)
    then have "split_slash name = [name]" and "hd name \<noteq> CHR ''/''"
      by (auto simp: split_slash_plain dest: hd_in_set)
    then show ?thesis
      using clean_parts_snoc [OF that, of False "[]" "[]"] by (simp add: Join_def Clean_def Let_def)
  qed
  with True show ?thesis by (intro exI [of _ "[]"]) simp
next
  case False
  define r where "r = (hd dir = CHR ''/'')"
  define parts where "parts = clean_parts r [] (split_slash dir)"
  define pre where "pre = (if r then ''/'' else []) @ (if parts = [] then [] else join_slash parts @ ''/'')"
  have "Join dir name = pre @ name" if "plain name" for name
  proof -
    have "clean_parts r [] (split_slash (dir @ ''/'' @ name)) = parts @ [name]"
      using that by (simp add: split_slash_append split_slash_plain plain_def parts_def
          clean_parts_snoc [OF that])
    then show ?thesis
      using False by (cases "parts = []"; cases r) (simp_all add: Join_def Clean_def Let_def r_def
          hd_append pre_def join_slash_snoc)
  qed
  then show ?thesis by blast
qed

lemma Join_inj:
  assumes "plain m" and "plain n"
  shows "Join dir m = Join dir n \<longleftrightarrow> m = n"
  using Join_ends [of dir] assms by (metis same_append_eq)

lemma data_files_distinct [simp]:
  "r1csPath dir \<noteq> provingKeyPath dir" "provingKeyPath dir \<noteq> r1csPath dir"
  "r1csPath dir \<noteq> verifyingKeyPath dir" "verifyingKeyPath dir \<noteq> r1csPath dir"
  "verifyingKeyPath dir \<noteq> provingKeyPath dir" "provingKeyPath dir \<noteq> verifyingKeyPath dir"
  "r1csPath dir \<noteq> Join dir ''Plonky2Verifier.sol''" "Join dir ''Plonky2Verifier.sol'' \<noteq> r1csPath dir"
  "verifyingKeyPath dir \<noteq> Join dir ''Plonky2Verifier.sol''" "Join dir ''Plonky2Verifier.sol'' \<noteq> verifyingKeyPath dir"
  "provingKeyPath dir \<noteq> Join dir ''Plonky2Verifier.sol''" "Join dir ''Plonky2Verifier.sol'' \<noteq> provingKeyPath dir"
  by (simp_all add: r1csPath_def provingKeyPath_def verifyingKeyPath_def Join_inj plain_def)

section \<open>Properties\<close>

lemma setup_Returned_None:
  assumes "go_setup lib ps dataDir dummy d0 = (Returned None, d)"
  shows "\<exists>c cs pk vk d1. ReadDummy lib (dummy @ ''/proof_with_public_inputs.json'')
        (dummy @ ''/verifier_only_circuit_data.json'') (commonCircuitData dummy) = Inr c
    \<and> Compile lib (ps = PS_Groth16) c = Inr cs \<and> Groth16Setup lib cs = Inr (pk, vk)
    \<and> write_proving_key lib dataDir pk d1 = (Returned None, d)
    \<and> files d1 (r1csPath dataDir) = Some (R1CS cs)
    \<and> files d1 (Join dataDir ''Plonky2Verifier.sol'') = Some (Solidity vk)
    \<and> files d1 (provingKeyPath dataDir) = files d0 (provingKeyPath dataDir)"
  using assms
  by (auto simp: go_setup_def os_Create_def write_file_def Let_def split: sum.splits option.splits)
    (rule exI, erule conjI, simp)+

lemma write_proving_key_files:
  assumes "write_proving_key lib dataDir pk d1 = (r, d)"
  shows "files d q = (if q = provingKeyPath dataDir \<and> create_error lib q = None
     then if write_error lib q \<noteq> None then Some Unfinished else Some (PK pk) else files d1 q)"
proof -
  have "d = snd (write_proving_key lib dataDir pk d1)" using assms by simp
  then show ?thesis
    by (auto simp: write_proving_key_def os_Create_def write_file_def split: option.split)
qed

lemma setup_data_files:
  assumes "go_setup lib ps dataDir dummy d0 = (Returned None, d)"
  obtains cs pk vk where "Groth16Setup lib cs = Inr (pk, vk)"
    and "files d (r1csPath dataDir) = Some (R1CS cs)"
    and "files d (Join dataDir ''Plonky2Verifier.sol'') = Some (Solidity vk)"
    and "files d (provingKeyPath dataDir) =
      (if create_error lib (provingKeyPath dataDir) \<noteq> None then files d0 (provingKeyPath dataDir)
       else if write_error lib (provingKeyPath dataDir) \<noteq> None then Some Unfinished else Some (PK pk))"
proof -
  from setup_Returned_None [OF assms] obtain cs pk vk d1 where "Groth16Setup lib cs = Inr (pk, vk)"
    and w: "write_proving_key lib dataDir pk d1 = (Returned None, d)"
    and "files d1 (r1csPath dataDir) = Some (R1CS cs)"
    and "files d1 (Join dataDir ''Plonky2Verifier.sol'') = Some (Solidity vk)"
    and "files d1 (provingKeyPath dataDir) = files d0 (provingKeyPath dataDir)" by blast
  then show thesis
    by (intro that [of cs pk vk]) (simp_all add: write_proving_key_files [OF w])
qed

text \<open>
  C31: What a setup without an error leaves for the service: the constraint system and the
  Solidity verifier of one key generation are on the disk, in files that do not overwrite each
  other. The proving key is that of the same generation exactly as far as its file could be
  created and written, errors \<open>setup\<close> does not report: after a failed write the service does
  not start, and after a failed creation it starts with the key that was there before, if any.
\<close>

theorem setup_then_service:
  assumes "go_setup lib ps dataDir dummy d0 = (Returned None, d)"
  shows "\<exists>cs pk vk. Groth16Setup lib cs = Inr (pk, vk)
    \<and> files d (Join dataDir ''Plonky2Verifier.sol'') = Some (Solidity vk)
    \<and> NewService dataDir d =
      (if create_error lib (provingKeyPath dataDir) \<noteq> None
       then rbind (read_pk d0 (provingKeyPath dataDir)) (\<lambda>old. Inr \<lparr>srv_cs = cs, srv_pk = old\<rparr>)
       else if write_error lib (provingKeyPath dataDir) \<noteq> None then Inl ''decoding''
       else Inr \<lparr>srv_cs = cs, srv_pk = pk\<rparr>)"
  using assms
proof (rule setup_data_files)
  fix cs pk vk
  assume "Groth16Setup lib cs = Inr (pk, vk)" and "files d (r1csPath dataDir) = Some (R1CS cs)"
    and "files d (Join dataDir ''Plonky2Verifier.sol'') = Some (Solidity vk)"
    and "files d (provingKeyPath dataDir) =
      (if create_error lib (provingKeyPath dataDir) \<noteq> None then files d0 (provingKeyPath dataDir)
       else if write_error lib (provingKeyPath dataDir) \<noteq> None then Some Unfinished else Some (PK pk))"
  then show ?thesis
    by (intro exI [of _ cs] exI [of _ pk] exI [of _ vk])
      (auto simp: NewService_def read_r1cs_def read_pk_def)
qed

text \<open>A disk with the key 3 of an earlier setup, on which the file of the key cannot be created.\<close>

definition example_setup :: "(nat, nat, nat, nat) setup_lib" where
  "example_setup = \<lparr>ReadDummy = (\<lambda>p v c. Inr 1), Compile = (\<lambda>b c. Inr c), Groth16Setup = (\<lambda>cs. Inr (4, 5)),
     create_error = (\<lambda>path. if path = provingKeyPath ''data'' then Some ''permission denied'' else None),
     write_error = (\<lambda>path. None)\<rparr>"

definition example_disk :: "(nat, nat, nat) disk" where
  "example_disk = \<lparr>files = [provingKeyPath ''data'' \<mapsto> PK 3], bit_range_check = False\<rparr>"

theorem setup_then_service_witness:
  "\<exists>d cs. go_setup example_setup PS_Groth16 ''data'' ''dummy'' example_disk = (Returned None, d)
    \<and> NewService ''data'' d = Inr \<lparr>srv_cs = cs, srv_pk = 3\<rparr> \<and> Groth16Setup example_setup cs = Inr (4, 5)"
proof -
  have "fst (go_setup example_setup PS_Groth16 ''data'' ''dummy'' example_disk) = Returned None"
    by (simp add: go_setup_def example_setup_def os_Create_def write_file_def write_proving_key_def Let_def)
  then obtain d where d: "go_setup example_setup PS_Groth16 ''data'' ''dummy'' example_disk = (Returned None, d)"
    by (cases "go_setup example_setup PS_Groth16 ''data'' ''dummy'' example_disk") simp
  from setup_then_service [OF d] obtain cs where "NewService ''data'' d = Inr \<lparr>srv_cs = cs, srv_pk = 3\<rparr>"
    by (auto simp: example_setup_def example_disk_def read_pk_def)
  moreover have "Groth16Setup example_setup cs = Inr (4, 5)" by (simp add: example_setup_def)
  ultimately show ?thesis using d by blast
qed

end
