(* ===== verification/Gnark_Service.thy ===== *)
theory Gnark_Service
  imports Gnark_Files
begin

text \<open>
  The proving service, \<open>go/service.go\<close>, and the command \<open>prove\<close> of \<open>go/prove.go\<close>: the handler of
  a request in its two parts, before and inside the mutex, the interleavings of concurrent
  requests as a step relation, and the public inputs read out of gnark's witness. gnark and the
  deserializers of gnark-plonky2-verifier are the record \<open>prover_lib\<close>.
\<close>

section \<open>The library\<close>

text \<open>
  \<open>element_value\<close> is \<open>SetBytes\<close> of a field element followed by \<open>BigInt\<close>. \<open>groth16.Prove\<close> draws random
  numbers to blind its proof: they are its first argument, and two calls may get different ones.
\<close>

record ('pf, 'vd, 'cd, 'r, 'vr, 'cs, 'pk, 'w, 'p) prover_lib =
  chip :: "('pf, 'vd, 'cd) verifier_chip"
  no_common :: 'cd
  DeserializeProof :: "'r ProofWithPublicInputsRaw \<Rightarrow> 'pf ProofWithPublicInputs"
  DeserializeVerifierData :: "'vr \<Rightarrow> 'vd"
  NewWitness :: "('pf, 'vd, 'cd) Plonky2xVerifierCircuit \<Rightarrow> string + 'w"
  Groth16Prove :: "nat \<Rightarrow> 'cs \<Rightarrow> 'pk \<Rightarrow> 'w \<Rightarrow> string + 'p"
  PublicWitness :: "'w \<Rightarrow> string + 'w"
  MarshalBinary :: "'w \<Rightarrow> string + bytes"
  element_value :: "bytes \<Rightarrow> nat"
  MarshalSolidity :: "'p \<Rightarrow> bytes"

datatype service_error =
    DecodeRequest string
  | BadInputs input_error
  | GnarkError string
  | NbInputs nat
  | ReadError string
  | ServicePanic string

section \<open>Public inputs of the proof\<close>

definition nbPublicInputs :: nat where "nbPublicInputs = 3"

definition frBytes :: nat where "frBytes = 32"

record GeneralInputsAndProof =
  GInput :: "HexBigInt list"
  GProof :: bytes

fun witness_inputs :: "(bytes \<Rightarrow> nat) \<Rightarrow> bytes \<Rightarrow> nat \<Rightarrow> nat \<Rightarrow> HexBigInt list" where
  "witness_inputs el b i 0 = []"
| "witness_inputs el b i (Suc n) = el (take frBytes (drop (frBytes * i) b)) # witness_inputs el b (i + 1) n"

text \<open>\<open>bPublicWitness[12:]\<close> panics on fewer than 12 bytes; two dumps to the output are left out.\<close>

definition parseInputAndProof ::
    "('pf, 'vd, 'cd, 'r, 'vr, 'cs, 'pk, 'w, 'p) prover_lib \<Rightarrow> 'p \<Rightarrow> 'w \<Rightarrow> service_error + GeneralInputsAndProof" where
  "parseInputAndProof lib proof publicWitness =
     (let proofBytes = MarshalSolidity lib proof in
      case MarshalBinary lib publicWitness of
        Inl e \<Rightarrow> Inl (GnarkError e)
      | Inr bPublicWitness \<Rightarrow>
        if length bPublicWitness < 12 then Inl (ServicePanic ''slice bounds out of range'')
        else
          let bPublicWitness = drop 12 bPublicWitness;
              nbInputs = length bPublicWitness div frBytes in
          if nbInputs \<noteq> nbPublicInputs then Inl (NbInputs nbInputs)
          else Inr \<lparr>GInput = witness_inputs (element_value lib) bPublicWitness 0 nbInputs, GProof = proofBytes\<rparr>)"

text \<open>The program has its own \<open>HexBigInt\<close>, a copy of the relayer's.\<close>

definition prove_HexBigInt_Bytes :: "HexBigInt \<Rightarrow> bytes" where
  "prove_HexBigInt_Bytes b = be_bytes b"

definition prove_HexBigInt_MarshalJSON :: "HexBigInt \<Rightarrow> string" where
  "prove_HexBigInt_MarshalJSON b =
     (let bz = be_bytes b; hexString = ''0x'' @ hex_EncodeToString bz in json_string hexString)"

definition prove_HexBigInt_UnmarshalJSON :: "(string \<Rightarrow> string + string) \<Rightarrow> string \<Rightarrow> json_error + HexBigInt" where
  "prove_HexBigInt_UnmarshalJSON json_unquote data =
     (case json_unquote data of Inl e \<Rightarrow> Inl (JsonSyntax e) | Inr hexString \<Rightarrow>
       (case hex_DecodeString (TrimPrefix hexString ''0x'') of Inl e \<Rightarrow> Inl (JsonHex e)
        | Inr bz \<Rightarrow> Inr (be_nat bz)))"

lemma prove_HexBigInt_eq [simp]:
  "prove_HexBigInt_Bytes = HexBigInt_Bytes" "prove_HexBigInt_MarshalJSON = HexBigInt_MarshalJSON"
  "prove_HexBigInt_UnmarshalJSON = HexBigInt_UnmarshalJSON"
  by (simp_all add: fun_eq_iff prove_HexBigInt_Bytes_def prove_HexBigInt_MarshalJSON_def prove_HexBigInt_UnmarshalJSON_def
      HexBigInt_Bytes_def HexBigInt_MarshalJSON_def HexBigInt_UnmarshalJSON_def)

section \<open>A request\<close>

text \<open>\<open>base64.StdEncoding\<close>, the form of a byte slice in JSON.\<close>

definition base64_char :: "nat \<Rightarrow> char" where
  "base64_char n = (if n < 26 then char_of (65 + n) else if n < 52 then char_of (71 + n)
     else if n < 62 then char_of (n - 4) else if n = 62 then CHR ''+'' else CHR ''/'')"

fun base64 :: "bytes \<Rightarrow> string" where
  "base64 [] = []"
| "base64 [a] = [base64_char (unat a div 4), base64_char (unat a mod 4 * 16), CHR ''='', CHR ''='']"
| "base64 [a, b] = [base64_char (unat a div 4), base64_char (unat a mod 4 * 16 + unat b div 16),
     base64_char (unat b mod 16 * 4), CHR ''='']"
| "base64 (a # b # c # bs) = base64_char (unat a div 4) # base64_char (unat a mod 4 * 16 + unat b div 16)
     # base64_char (unat b mod 16 * 4 + unat c div 64) # base64_char (unat c mod 64) # base64 bs"

definition service_json :: "GeneralInputsAndProof \<Rightarrow> string" where
  "service_json g = json_object
     [(''input'', json_array (map prove_HexBigInt_MarshalJSON (GInput g))), (''proof'', json_string (base64 (GProof g)))]"

record ('r, 'vr) ProveRequest =
  ReqProof :: "'r ProofWithPublicInputsRaw"
  ReqVerifierData :: 'vr

text \<open>\<open>Aborted\<close>: the handler panicked, and the server closes the connection.\<close>

datatype response = Status nat service_error | Json string | Aborted

text \<open>Before the mutex is locked.\<close>

definition prepare ::
    "('pf, 'vd, 'cd, 'r, 'vr, 'cs, 'pk, 'w, 'p) prover_lib \<Rightarrow> (string \<Rightarrow> string + ('r, 'vr) ProveRequest)
       \<Rightarrow> string \<Rightarrow> response + 'w" where
  "prepare lib decode body = (case decode body of
     Inl e \<Rightarrow> Inl (Status 400 (DecodeRequest e))
   | Inr req \<Rightarrow>
     let proofWithPis = DeserializeProof lib (ReqProof req) in
     (case getInputHashOutputHash (ReqProof req) of
        Inl e \<Rightarrow> Inl (Status 400 (BadInputs e))
      | Inr hashes \<Rightarrow>
        let verifierOnlyCircuitData = DeserializeVerifierData lib (ReqVerifierData req) in
        (case NewWitness lib (assignment (chip lib) (no_common lib) proofWithPis verifierOnlyCircuitData hashes) of
           Inl e \<Rightarrow> Inl (Status 500 (GnarkError e))
         | Inr w \<Rightarrow> Inr w)))"

text \<open>The proof and its inputs, shared by the handler and the command.\<close>

definition prove_witness ::
    "('pf, 'vd, 'cd, 'r, 'vr, 'cs, 'pk, 'w, 'p) prover_lib \<Rightarrow> nat \<Rightarrow> 'cs \<Rightarrow> 'pk \<Rightarrow> 'w
       \<Rightarrow> service_error + GeneralInputsAndProof" where
  "prove_witness lib rnd cs pk w = (case Groth16Prove lib rnd cs pk w of
     Inl e \<Rightarrow> Inl (GnarkError e)
   | Inr proof \<Rightarrow> (case PublicWitness lib w of
       Inl e \<Rightarrow> Inl (GnarkError e)
     | Inr publicWitness \<Rightarrow> parseInputAndProof lib proof publicWitness))"

text \<open>From \<open>mu.Lock()\<close> on.\<close>

definition finish ::
    "('pf, 'vd, 'cd, 'r, 'vr, 'cs, 'pk, 'w, 'p) prover_lib \<Rightarrow> nat \<Rightarrow> ('cs, 'pk) Service \<Rightarrow> 'w \<Rightarrow> response" where
  "finish lib rnd s w = (case prove_witness lib rnd (srv_cs s) (srv_pk s) w of
     Inl (ServicePanic e) \<Rightarrow> Aborted
   | Inl e \<Rightarrow> Status 500 e
   | Inr g \<Rightarrow> Json (service_json g))"

definition handle_prove ::
    "('pf, 'vd, 'cd, 'r, 'vr, 'cs, 'pk, 'w, 'p) prover_lib \<Rightarrow> nat \<Rightarrow> ('cs, 'pk) Service
       \<Rightarrow> (string \<Rightarrow> string + ('r, 'vr) ProveRequest) \<Rightarrow> string \<Rightarrow> response" where
  "handle_prove lib rnd s decode body =
     (case prepare lib decode body of Inl r \<Rightarrow> r | Inr w \<Rightarrow> finish lib rnd s w)"

section \<open>The command\<close>

text \<open>The readers of gnark-plonky2-verifier panic on a file they cannot read.\<close>

definition prove ::
    "('pf, 'vd, 'cd, 'r, 'vr, 'cs, 'pk, 'w, 'p) prover_lib \<Rightarrow> nat
       \<Rightarrow> (string \<Rightarrow> string + 'r ProofWithPublicInputsRaw) \<Rightarrow> (string \<Rightarrow> string + 'vr)
       \<Rightarrow> ('cs, 'pk, 'vk) disk \<Rightarrow> string \<Rightarrow> string \<Rightarrow> service_error option" where
  "prove lib rnd read_proof read_verifier d dataDir proofDir =
     (case read_proof (proofWithPublicInputsFile proofDir) of
        Inl e \<Rightarrow> Some (ServicePanic e)
      | Inr raw \<Rightarrow>
     (let proofWithPis = DeserializeProof lib raw in
      case getInputHashOutputHash raw of
        Inl e \<Rightarrow> Some (BadInputs e)
      | Inr hashes \<Rightarrow>
     (case read_verifier (verifierOnlyCircuitDataFile proofDir) of
        Inl e \<Rightarrow> Some (ServicePanic e)
      | Inr vraw \<Rightarrow>
     (case read_r1cs d (r1csPath dataDir) of
        Inl e \<Rightarrow> Some (ReadError e)
      | Inr cs \<Rightarrow>
     (case read_pk d (provingKeyPath dataDir) of
        Inl e \<Rightarrow> Some (ReadError e)
      | Inr pk \<Rightarrow>
     (case NewWitness lib (assignment (chip lib) (no_common lib) proofWithPis (DeserializeVerifierData lib vraw) hashes) of
        Inl e \<Rightarrow> Some (GnarkError e)
      | Inr w \<Rightarrow> (case prove_witness lib rnd cs pk w of Inl e \<Rightarrow> Some e | Inr g \<Rightarrow> None)))))))"

section \<open>Concurrent requests\<close>

text \<open>
  \<open>net/http\<close> runs every handler in its own goroutine. A request is where its handler is; the
  mutex holds the number of the request that locked it.
\<close>

datatype 'w phase = Arrived string | Prepared 'w | Locked 'w | Answered response

record 'w server =
  phases :: "'w phase list"
  mutex :: "nat option"

definition server_start :: "string list \<Rightarrow> 'w server" where
  "server_start bodies = \<lparr>phases = map Arrived bodies, mutex = None\<rparr>"

definition after_prepare :: "response + 'w \<Rightarrow> 'w phase" where
  "after_prepare r = (case r of Inl x \<Rightarrow> Answered x | Inr w \<Rightarrow> Prepared w)"

inductive serve_step ::
    "('pf, 'vd, 'cd, 'r, 'vr, 'cs, 'pk, 'w, 'p) prover_lib \<Rightarrow> ('cs, 'pk) Service
       \<Rightarrow> (string \<Rightarrow> string + ('r, 'vr) ProveRequest) \<Rightarrow> 'w server \<Rightarrow> 'w server \<Rightarrow> bool"
  for lib srv decode where
  decoded: "i < length (phases s) \<Longrightarrow> phases s ! i = Arrived body \<Longrightarrow>
    serve_step lib srv decode s (s\<lparr>phases := (phases s)[i := after_prepare (prepare lib decode body)]\<rparr>)"
| locked: "i < length (phases s) \<Longrightarrow> phases s ! i = Prepared w \<Longrightarrow> mutex s = None \<Longrightarrow>
    serve_step lib srv decode s (s\<lparr>phases := (phases s)[i := Locked w], mutex := Some i\<rparr>)"
| answered: "i < length (phases s) \<Longrightarrow> phases s ! i = Locked w \<Longrightarrow>
    serve_step lib srv decode s (s\<lparr>phases := (phases s)[i := Answered (finish lib rnd srv w)], mutex := None\<rparr>)"

inductive_cases serve_stepE: "serve_step lib srv decode s s'"

section \<open>Facts\<close>

text \<open>
  The documented behaviour of gnark over the field of \<open>q\<close> elements: the binary form of a public
  witness is twelve bytes of counts and the public variables in 32 bytes each, reduced; a
  field element reads its bytes as a big-endian number, reduced.
\<close>

definition gnark_ok :: "('pf, 'vd, 'cd, 'r, 'vr, 'cs, 'pk, 'w, 'p) prover_lib \<Rightarrow> nat \<Rightarrow> bool" where
  "gnark_ok lib q \<longleftrightarrow>
     (\<forall>c w pw. NewWitness lib c = Inr w \<longrightarrow> PublicWitness lib w = Inr pw \<longrightarrow>
        (\<exists>counts. length counts = 12 \<and> MarshalBinary lib pw =
           Inr (counts @ concat (map (\<lambda>v. be_pad 32 (v mod q)) [VerifierDigest c, InputHash c, OutputHash c]))))
     \<and> (\<forall>bs. length bs = 32 \<longrightarrow> element_value lib bs = be_nat bs mod q)"

lemma parse_public:
  assumes ok: "gnark_ok lib q" and q: "0 < q" "q \<le> 2 ^ 256"
    and w: "NewWitness lib c = Inr w" "PublicWitness lib w = Inr pw"
  shows "parseInputAndProof lib p pw = Inr
    \<lparr>GInput = [VerifierDigest c mod q, InputHash c mod q, OutputHash c mod q], GProof = MarshalSolidity lib p\<rparr>"
proof -
  have l: "length (be_pad 32 (v mod q)) = 32" for v
    using q mod_less_divisor [OF q(1), of v] by (intro length_be_pad) simp
  with ok have el: "element_value lib (be_pad 32 (v mod q)) = v mod q" for v
    by (simp add: gnark_ok_def)
  define b where "b = be_pad 32 (VerifierDigest c mod q) @ be_pad 32 (InputHash c mod q) @ be_pad 32 (OutputHash c mod q)"
  from ok w obtain counts where c: "length counts = 12" and m: "MarshalBinary lib pw = Inr (counts @ b)"
    unfolding gnark_ok_def b_def by fastforce
  have "length b = 96" by (simp add: b_def l)
  moreover have "witness_inputs (element_value lib) b 0 (Suc (Suc (Suc 0)))
      = [VerifierDigest c mod q, InputHash c mod q, OutputHash c mod q]"
    by (simp add: frBytes_def l el b_def)
  ultimately show ?thesis
    by (simp add: parseInputAndProof_def m c Let_def nbPublicInputs_def frBytes_def numeral_3_eq_3
        del: witness_inputs.simps)
qed

text \<open>
  What the proofs below use of an answer, for a request that was decoded and prepared:
  \<open>service_answer\<close> derives it from \<open>handle_prove\<close>, for a library with \<open>gnark_ok\<close>. It models no code.
\<close>

definition answer ::
    "('pf, 'vd, 'cd, 'r, 'vr, 'cs, 'pk, 'w, 'p) prover_lib \<Rightarrow> nat \<Rightarrow> ('cs, 'pk) Service \<Rightarrow> nat
       \<Rightarrow> ('r, 'vr) ProveRequest \<Rightarrow> GeneralInputsAndProof \<Rightarrow> bool" where
  "answer lib rnd s q req g \<longleftrightarrow> (\<exists>h w pw p.
     getInputHashOutputHash (ReqProof req) = Inr h
     \<and> NewWitness lib (assignment (chip lib) (no_common lib) (DeserializeProof lib (ReqProof req))
          (DeserializeVerifierData lib (ReqVerifierData req)) h) = Inr w
     \<and> Groth16Prove lib rnd (srv_cs s) (srv_pk s) w = Inr p \<and> PublicWitness lib w = Inr pw
     \<and> g = \<lparr>GInput = [CircuitDigest (chip lib) (DeserializeVerifierData lib (ReqVerifierData req)) mod q, fst h, snd h],
            GProof = MarshalSolidity lib p\<rparr>)"

lemma hashes_small:
  assumes "getInputHashOutputHash raw = Inr h" and "2 ^ 253 \<le> q"
  shows "fst h < q" "snd h < q"
  using assms(2) getInputHashOutputHash_Inr [of raw "fst h" "snd h"] by (simp_all add: assms(1))

lemma prepared_answer:
  assumes ok: "gnark_ok lib q" and q: "2 ^ 253 \<le> q" "q \<le> 2 ^ 256"
    and dec: "decode body = Inr req" and w: "prepare lib decode body = Inr w"
  shows "prove_witness lib rnd (srv_cs s) (srv_pk s) w = Inr g \<longleftrightarrow> answer lib rnd s q req g"
proof -
  have "0 < q" using q(1) by (simp add: less_le_trans [OF zero_less_power])
  from w dec obtain h where h: "getInputHashOutputHash (ReqProof req) = Inr h"
    and nw: "NewWitness lib (assignment (chip lib) (no_common lib) (DeserializeProof lib (ReqProof req))
      (DeserializeVerifierData lib (ReqVerifierData req)) h) = Inr w"
    by (auto simp: prepare_def Let_def split: sum.splits)
  note small = hashes_small [OF h q(1)]
  define c where "c = assignment (chip lib) (no_common lib) (DeserializeProof lib (ReqProof req))
      (DeserializeVerifierData lib (ReqVerifierData req)) h"
  have "VerifierDigest c = CircuitDigest (chip lib) (DeserializeVerifierData lib (ReqVerifierData req))"
    and "InputHash c mod q = fst h" and "OutputHash c mod q = snd h"
    using small by (simp_all add: c_def assignment_def)
  with parse_public [OF ok \<open>0 < q\<close> q(2) nw [folded c_def]] nw [folded c_def] show ?thesis
    by (cases "Groth16Prove lib rnd (srv_cs s) (srv_pk s) w"; cases "PublicWitness lib w")
      (auto simp: prove_witness_def answer_def h c_def [symmetric])
qed

lemma handle_prove_Json:
  "handle_prove lib rnd s decode body = Json j \<longleftrightarrow>
     (\<exists>w g. prepare lib decode body = Inr w \<and> prove_witness lib rnd (srv_cs s) (srv_pk s) w = Inr g \<and> j = service_json g)"
  by (auto simp: handle_prove_def finish_def prepare_def Let_def split: sum.splits service_error.splits)

text \<open>The serving of requests: what an invariant says of the phase of a request, and the mutex.\<close>

fun phase_ok :: "('pf, 'vd, 'cd, 'r, 'vr, 'cs, 'pk, 'w, 'p) prover_lib \<Rightarrow> ('cs, 'pk) Service
       \<Rightarrow> (string \<Rightarrow> string + ('r, 'vr) ProveRequest) \<Rightarrow> string \<Rightarrow> 'w phase \<Rightarrow> bool" where
  "phase_ok lib srv decode body (Arrived b) = (b = body)"
| "phase_ok lib srv decode body (Prepared w) = (prepare lib decode body = Inr w)"
| "phase_ok lib srv decode body (Locked w) = (prepare lib decode body = Inr w)"
| "phase_ok lib srv decode body (Answered r) = (\<exists>rnd. r = handle_prove lib rnd srv decode body)"

definition holds_mutex :: "'w phase \<Rightarrow> bool" where
  "holds_mutex p = (case p of Locked w \<Rightarrow> True | _ \<Rightarrow> False)"

lemma holds_mutex_simps [simp]:
  "\<not> holds_mutex (Arrived b)" "\<not> holds_mutex (Prepared w)" "holds_mutex (Locked w)"
  "\<not> holds_mutex (Answered r)" "\<not> holds_mutex (after_prepare x)"
  by (auto simp: holds_mutex_def after_prepare_def split: sum.splits)

definition serve_inv :: "('pf, 'vd, 'cd, 'r, 'vr, 'cs, 'pk, 'w, 'p) prover_lib \<Rightarrow> ('cs, 'pk) Service
       \<Rightarrow> (string \<Rightarrow> string + ('r, 'vr) ProveRequest) \<Rightarrow> string list \<Rightarrow> 'w server \<Rightarrow> bool" where
  "serve_inv lib srv decode bodies s \<longleftrightarrow>
     list_all2 (phase_ok lib srv decode) bodies (phases s)
     \<and> (\<forall>i < length (phases s). holds_mutex (phases s ! i) \<longleftrightarrow> mutex s = Some i)
     \<and> (\<forall>i. mutex s = Some i \<longrightarrow> i < length (phases s))"

fun phase_rank :: "'w phase \<Rightarrow> nat" where
  "phase_rank (Arrived b) = 3"
| "phase_rank (Prepared w) = 2"
| "phase_rank (Locked w) = 1"
| "phase_rank (Answered r) = 0"

definition serve_rank :: "'w server \<Rightarrow> nat" where
  "serve_rank s = sum_list (map phase_rank (phases s))"

lemma serve_inv_start: "serve_inv lib srv decode bodies (server_start bodies)"
  by (simp add: serve_inv_def server_start_def list_all2_map2 list_all2_same)

lemma phase_ok_at:
  "list_all2 (phase_ok lib srv decode) bodies ps \<Longrightarrow> i < length ps \<Longrightarrow> phase_ok lib srv decode (bodies ! i) (ps ! i)"
  by (simp add: list_all2_conv_all_nth)

lemma phases_update:
  "list_all2 (phase_ok lib srv decode) bodies ps \<Longrightarrow> phase_ok lib srv decode (bodies ! i) p \<Longrightarrow>
    list_all2 (phase_ok lib srv decode) bodies (ps[i := p])"
  using list_all2_update_cong [of "phase_ok lib srv decode" bodies ps "bodies ! i" p i] by simp

lemma after_prepare_ok: "phase_ok lib srv decode body (after_prepare (prepare lib decode body))"
  by (auto simp: after_prepare_def handle_prove_def split: sum.splits)

lemma serve_inv_step:
  assumes "serve_step lib srv decode s s'" and inv: "serve_inv lib srv decode bodies s"
  shows "serve_inv lib srv decode bodies s'"
  using assms(1)
proof (cases rule: serve_step.cases)
  case (decoded i body)
  from phase_ok_at [of _ _ _ _ "phases s" i] decoded inv have "body = bodies ! i"
    by (fastforce simp: serve_inv_def)
  with decoded inv show ?thesis
    by (auto simp: serve_inv_def nth_list_update intro!: phases_update after_prepare_ok)
next
  case (locked i w)
  from phase_ok_at [of _ _ _ _ "phases s" i] locked inv have "prepare lib decode (bodies ! i) = Inr w"
    by (fastforce simp: serve_inv_def)
  with locked inv show ?thesis
    by (auto simp: serve_inv_def nth_list_update intro!: phases_update)
next
  case (answered i w rnd)
  from phase_ok_at [of _ _ _ _ "phases s" i] answered inv have "prepare lib decode (bodies ! i) = Inr w"
    by (fastforce simp: serve_inv_def)
  moreover from answered inv have "mutex s = Some i" by (auto simp: serve_inv_def)
  ultimately show ?thesis
    using answered inv
    by (auto simp: serve_inv_def nth_list_update handle_prove_def intro!: phases_update)
qed

lemma sum_list_update_less:
  "i < length xs \<Longrightarrow> (f x :: nat) < f (xs ! i) \<Longrightarrow> sum_list (map f (xs[i := x])) < sum_list (map f xs)"
  by (induction xs arbitrary: i) (auto split: nat.splits simp: nth_Cons)

lemma serve_rank_step: "serve_step lib srv decode s s' \<Longrightarrow> serve_rank s' < serve_rank s"
  by (erule serve_stepE)
    (auto simp: serve_rank_def after_prepare_def intro!: sum_list_update_less split: sum.splits)

interpretation serving: measured_steps "serve_step lib srv decode" "serve_inv lib srv decode bodies" serve_rank
  by unfold_locales (auto intro: serve_inv_step serve_rank_step)

text \<open>While a request is not answered, some request can go on: the mutex is always given back.\<close>

lemma serve_progress:
  assumes inv: "serve_inv lib srv decode bodies s" and i: "i < length (phases s)"
    and p: "\<forall>r. phases s ! i \<noteq> Answered r"
  shows "\<exists>s'. serve_step lib srv decode s s'"
proof (cases "mutex s")
  case None
  with inv i have "\<not> holds_mutex (phases s ! i)" by (simp add: serve_inv_def)
  then show ?thesis
    using p i None by (cases "phases s ! i") (auto intro: serve_step.intros)
next
  case (Some j)
  with inv have "j < length (phases s)" "holds_mutex (phases s ! j)" by (auto simp: serve_inv_def)
  then show ?thesis
    by (cases "phases s ! j") (auto intro: serve_step.intros)
qed

section \<open>Properties\<close>

text \<open>
  What the handler answers: a JSON document exactly if the request was decoded, its public
  inputs are 64 with both hashes of at most 253 bits, and gnark made a witness and a proof;
  the document holds the reduced digest of the request's circuit, the two hashes as they are, and
  the proof. Every other request gets an error status.
\<close>

theorem service_answer:
  assumes "gnark_ok lib q" and "2 ^ 253 \<le> q" and "q \<le> 2 ^ 256"
  shows "handle_prove lib rnd s decode body = Json j \<longleftrightarrow>
    (\<exists>req g. decode body = Inr req \<and> answer lib rnd s q req g \<and> j = service_json g)"
proof
  assume "handle_prove lib rnd s decode body = Json j"
  then obtain w g where w: "prepare lib decode body = Inr w"
    "prove_witness lib rnd (srv_cs s) (srv_pk s) w = Inr g" "j = service_json g"
    by (auto simp: handle_prove_Json)
  then obtain req where "decode body = Inr req" by (auto simp: prepare_def split: sum.splits)
  with w prepared_answer [OF assms this w(1)] show "\<exists>req g. decode body = Inr req \<and> answer lib rnd s q req g \<and> j = service_json g"
    by blast
next
  assume "\<exists>req g. decode body = Inr req \<and> answer lib rnd s q req g \<and> j = service_json g"
  then obtain req g where r: "decode body = Inr req" "answer lib rnd s q req g" "j = service_json g" by blast
  then obtain w where w: "prepare lib decode body = Inr w"
    by (auto simp: answer_def prepare_def Let_def)
  with r prepared_answer [OF assms r(1) w] show "handle_prove lib rnd s decode body = Json j"
    by (auto simp: handle_prove_Json)
qed

text \<open>A library whose witness is the assignment, a digest for verifier data, and a proof of equal bytes.\<close>

definition example_prover_lib ::
    "(nat, nat, unit, nat, nat, nat, nat, (nat, nat, unit) Plonky2xVerifierCircuit, nat) prover_lib" where
  "example_prover_lib =
     \<lparr>chip = example_chip, no_common = (),
      DeserializeProof = (\<lambda>raw. \<lparr>PlonkyProof = RawProof raw, PublicInputLimbs = limbs_of raw\<rparr>),
      DeserializeVerifierData = (\<lambda>v. v), NewWitness = Inr,
      Groth16Prove = (\<lambda>rnd cs pk w. if cs = pk then Inr rnd else Inl ''constraint''), PublicWitness = Inr,
      MarshalBinary = (\<lambda>c. Inr (replicate 12 0 @
        concat (map (\<lambda>v. be_pad 32 (v mod bn254_r)) [VerifierDigest c, InputHash c, OutputHash c]))),
      element_value = (\<lambda>bs. be_nat bs mod bn254_r), MarshalSolidity = (\<lambda>p. replicate 256 (word_of_nat p))\<rparr>"

lemma example_prover_ok: "gnark_ok example_prover_lib bn254_r"
  by (auto simp: gnark_ok_def example_prover_lib_def)

lemma bn254_bounds: "2 ^ 253 \<le> bn254_r" "bn254_r \<le> 2 ^ 256"
  by (simp_all add: bn254_r_def)

definition example_request :: "nat \<Rightarrow> nat \<Rightarrow> nat \<Rightarrow> (nat, nat) ProveRequest" where
  "example_request d i o' = \<lparr>ReqProof = \<lparr>RawProof = 7, PublicInputs = map ucast (be_pad 32 i @ be_pad 32 o')\<rparr>,
     ReqVerifierData = d\<rparr>"

definition example_service :: "(nat, nat) Service" where
  "example_service = \<lparr>srv_cs = 3, srv_pk = 3\<rparr>"

lemma public_input_bytes: "base256 (map (\<lambda>v. unat v mod 256) (map (ucast :: byte \<Rightarrow> uint64) bs)) = be_nat bs"
proof -
  have "unat (ucast b :: uint64) mod 256 = unat b" for b :: byte
    using unsigned_less [of b, where 'a = nat] by (simp add: unsigned_ucast_eq take_bit_nat_eq_self)
  then show ?thesis by (simp add: comp_def base256_bytes)
qed

lemma example_hashes:
  assumes "i < 2 ^ 253" and "o' < 2 ^ 253"
  shows "getInputHashOutputHash (ReqProof (example_request d i o')) = Inr (i, o')"
proof -
  have "length (be_pad 32 i) = 32" "length (be_pad 32 o') = 32"
    using assms by (auto intro!: length_be_pad)
  then have t: "take 32 (map ucast (be_pad 32 i @ be_pad 32 o')) = map (ucast :: byte \<Rightarrow> uint64) (be_pad 32 i)"
    "drop 32 (map ucast (be_pad 32 i @ be_pad 32 o')) = map (ucast :: byte \<Rightarrow> uint64) (be_pad 32 o')"
    "length (map (ucast :: byte \<Rightarrow> uint64) (be_pad 32 i @ be_pad 32 o')) = 64"
    by (simp_all add: take_map drop_map)
  show ?thesis
    unfolding getInputHashOutputHash_Inr example_request_def ProveRequest.simps ProofWithPublicInputsRaw.simps t
      public_input_bytes be_nat_be_pad
    using assms by blast
qed

lemma example_answer:
  assumes "i < 2 ^ 253" and "o' < 2 ^ 253"
  shows "answer example_prover_lib 1 example_service bn254_r (example_request d i o')
    \<lparr>GInput = [d mod bn254_r, i, o'], GProof = replicate 256 1\<rparr>"
  unfolding answer_def example_hashes [OF assms]
  by (simp add: example_request_def example_prover_lib_def example_service_def example_chip_def)

theorem service_answer_witness:
  "handle_prove example_prover_lib 1 example_service (\<lambda>body. Inr (example_request 11 5 9)) ''request'' =
     Json (service_json \<lparr>GInput = [11, 5, 9], GProof = replicate 256 1\<rparr>)"
proof (subst service_answer [OF example_prover_ok bn254_bounds])
  have "(11 :: nat) mod bn254_r = 11" by (simp add: bn254_r_def)
  with example_answer [of 5 9 11]
  have "answer example_prover_lib 1 example_service bn254_r (example_request 11 5 9)
      \<lparr>GInput = [11, 5, 9], GProof = replicate 256 1\<rparr>" by simp
  then show "\<exists>req g. Inr (example_request 11 5 9) = (Inr req :: string + _)
      \<and> answer example_prover_lib 1 example_service bn254_r req g
      \<and> service_json \<lparr>GInput = [11, 5, 9], GProof = replicate 256 1\<rparr> = service_json g"
    by blast
qed

text \<open>A JSON reader that reads plain strings.\<close>

definition reads_json :: "(string \<Rightarrow> string + string) \<Rightarrow> bool" where
  "reads_json u \<longleftrightarrow> (\<forall>s. (\<forall>c \<in> set s. c \<noteq> CHR 0x22 \<and> c \<noteq> CHR 0x5C \<and> 32 \<le> (of_char c :: nat) \<and> (of_char c :: nat) < 127)
    \<longrightarrow> u (json_string s) = Inr s)"

lemma decode_answered:
  assumes "reads_json u"
  shows "decode_inputs u 3 (map HexBigInt_MarshalJSON [a, b, c]) = Inr [a, b, c]"
proof -
  have "HexBigInt_UnmarshalJSON u (HexBigInt_MarshalJSON n) = Inr n" for n
    using assms unfolding reads_json_def by (rule HexBigInt_unmarshal_marshal)
  then show ?thesis by (simp add: eval_nat_numeral(3) numeral_2_eq_2)
qed

text \<open>
  Reading a JSON answer: \<open>json.Unmarshal\<close> gives back the members \<open>json.Marshal\<close> wrote, the
  inputs as the texts \<open>UnmarshalJSON\<close> is called with, the proof as the bytes of its base64 form.
\<close>

definition reads_answer :: "(string \<Rightarrow> (string list \<times> bytes) option) \<Rightarrow> bool" where
  "reads_answer parse \<longleftrightarrow> (\<forall>g. length (GInput g) = 3 \<longrightarrow>
     parse (service_json g) = Some (map HexBigInt_MarshalJSON (GInput g), GProof g))"

text \<open>
  C16: The two programs fit together. When the service answers a request with a JSON document and
  the relayer reads that document as the answer to its own query, with at least 256 bytes of
  proof, then the request was decoded, and \<open>Prove\<close> accepts the answer exactly if the inputs the relayer
  computes from the block hashes are the reduced digest of the request's circuit and the two
  numbers in the public inputs of its plonky2 proof; and it then returns these inputs. The inputs of
  the document are the ones \<open>parseInputAndProof\<close> cuts out of gnark's public witness.
\<close>

theorem service_answer_accepted:
  assumes lib: "gnark_ok lib q" "2 ^ 253 \<le> q" "q \<le> 2 ^ 256"
    and a: "handle_prove lib rnd s decode body = Json j"
    and read: "reads_answer parse" "parse j = Some (texts, prf)"
    and net: "http_get w (prove_url (ProverAddress zpc) trusted target) = Inr (texts, (prf, spare))"
      "reads_json (unquote w)"
    and big: "256 \<le> length prf"
    and zpc: "ZKProverType zpc = Groth16ProverType" "proveMock zpc trusted target = Inr m"
  shows "\<exists>req. decode body = Inr req \<and>
    ((\<exists>p. Prove w zpc trusted target = Inr \<lparr>ZKInput = ZKInput m, ZKProofOf = p\<rparr>) \<longleftrightarrow>
     ZKInput m = [CircuitDigest (chip lib) (DeserializeVerifierData lib (ReqVerifierData req)) mod q,
       base256 (map (\<lambda>v. unat v mod 256) (take 32 (PublicInputs (ReqProof req)))),
       base256 (map (\<lambda>v. unat v mod 256) (drop 32 (PublicInputs (ReqProof req))))])"
proof -
  from a obtain req g where req: "decode body = Inr req" and an: "answer lib rnd s q req g" and j: "j = service_json g"
    by (auto simp: service_answer [OF lib])
  from an obtain h where h: "getInputHashOutputHash (ReqProof req) = Inr h"
    and g: "GInput g = [CircuitDigest (chip lib) (DeserializeVerifierData lib (ReqVerifierData req)) mod q, fst h, snd h]"
    by (auto simp: answer_def)
  have r: "texts = map HexBigInt_MarshalJSON (GInput g)" "prf = GProof g"
    using read by (auto simp: reads_answer_def j g)
  have hs: "fst h = base256 (map (\<lambda>v. unat v mod 256) (take 32 (PublicInputs (ReqProof req))))"
    "snd h = base256 (map (\<lambda>v. unat v mod 256) (drop 32 (PublicInputs (ReqProof req))))"
    using getInputHashOutputHash_Inr [of "ReqProof req" "fst h" "snd h"] h by simp_all
  have "decode_inputs (unquote w) 3 texts = Inr (GInput g)"
    unfolding g r(1) by (rule decode_answered [OF net(2)])
  moreover have "\<exists>p. ParseGroth16Proof (prf, spare) = Inr p"
    using big by (simp add: ParseGroth16Proof_def fps_at_total)
  moreover have "ZKProverType zpc \<noteq> MockProverType"
    using zpc(1) by (simp add: Groth16ProverType_def MockProverType_def)
  ultimately have "(\<exists>p. Prove w zpc trusted target = Inr \<lparr>ZKInput = ZKInput m, ZKProofOf = p\<rparr>) \<longleftrightarrow> ZKInput m = GInput g"
    using zpc net(1) by (auto simp: Prove_Inr_iff)
  with req show ?thesis unfolding g hs by blast
qed

text \<open>
  A reader of the documents of the service: the text between the quotes, split at each of them,
  and the base64 form read back.
\<close>

fun split_at_char :: "char \<Rightarrow> string \<Rightarrow> string list" where
  "split_at_char c [] = [[]]"
| "split_at_char c (x # xs) = (if x = c then [] # split_at_char c xs
     else (case split_at_char c xs of [] \<Rightarrow> [[x]] | t # ts \<Rightarrow> (x # t) # ts))"

lemma split_at_char_append: "c \<notin> set a \<Longrightarrow> split_at_char c (a @ c # b) = a # split_at_char c b"
  by (induction a) auto

definition base64_value :: "char \<Rightarrow> nat" where
  "base64_value c = (let n = of_char c in if 97 \<le> n then n - 71 else if 65 \<le> n then n - 65
     else if 48 \<le> n then n + 4 else if n = 43 then 62 else 63)"

lemma base64_value_char [simp]: "n < 64 \<Longrightarrow> base64_value (base64_char n) = n"
  by (auto simp: base64_value_def base64_char_def Let_def)

lemma base64_char_plain [simp]: "n < 64 \<Longrightarrow> base64_char n \<noteq> CHR ''=''" "n < 64 \<Longrightarrow> base64_char n \<noteq> CHR 0x22"
proof -
  assume "n < 64"
  moreover have "of_char (base64_char n) \<noteq> (61 :: nat)" "of_char (base64_char n) \<noteq> (34 :: nat)" if "n < 64"
    using that by (auto simp: base64_char_def)
  ultimately show "base64_char n \<noteq> CHR ''=''" "base64_char n \<noteq> CHR 0x22" by auto
qed

fun unbase64 :: "string \<Rightarrow> bytes" where
  "unbase64 (a # b # c # d # cs) =
     word_of_nat (base64_value a * 4 + base64_value b div 16) #
     (if c = CHR ''='' then [] else word_of_nat (base64_value b mod 16 * 16 + base64_value c div 4) #
      (if d = CHR ''='' then [] else word_of_nat (base64_value c mod 4 * 64 + base64_value d) # unbase64 cs))"
| "unbase64 cs = []"

lemma high_digit: "m < k \<Longrightarrow> (n * k + m) div k = (n :: nat)"
  by simp

lemma low_digit: "m < k \<Longrightarrow> (n * k + m) mod k = (m :: nat)"
  by simp

text \<open>The four digits of three bytes.\<close>

lemma base64_digits [simp]:
  "unat (a :: byte) div 4 < 64" "unat (a :: byte) mod 4 * 16 < 64"
  "unat (a :: byte) mod 4 * 16 + unat (b :: byte) div 16 < 64"
  "unat (b :: byte) mod 16 * 4 < 64" "unat (b :: byte) mod 16 * 4 + unat (c :: byte) div 64 < 64"
  using byte_less [of a] byte_less [of b] byte_less [of c] by linarith+

lemma base64_bytes [simp]:
  "unat (a :: byte) div 4 * 4 + unat a mod 4 = unat a"
  "(unat (a :: byte) mod 4 * 16 + unat (b :: byte) div 16) div 16 = unat a mod 4"
  "(unat (a :: byte) mod 4 * 16 + unat (b :: byte) div 16) mod 16 = unat b div 16"
  "unat (b :: byte) div 16 * 16 + unat b mod 16 = unat b"
  "(unat (b :: byte) mod 16 * 4 + unat (c :: byte) div 64) div 4 = unat b mod 16"
  "(unat (b :: byte) mod 16 * 4 + unat (c :: byte) div 64) mod 4 = unat c div 64"
  "unat (c :: byte) div 64 * 64 + unat c mod 64 = unat c"
  using byte_less [of b] byte_less [of c]
  by (simp_all only: div_mult_mod_eq high_digit low_digit less_mult_imp_div_less)

lemma high_bits: "unat (b :: byte) div 16 mod 16 = unat b div 16" "unat (c :: byte) div 64 mod 4 = unat c div 64"
  using byte_less [of b] byte_less [of c] by (simp_all add: less_mult_imp_div_less)

lemma unbase64_base64: "unbase64 (base64 bs) = bs"
  by (induction bs rule: base64.induct) (simp_all add: high_bits del: of_nat_add of_nat_mult mod_mult_self3 mod_mult_self4)

lemma base64_unquoted: "CHR 0x22 \<notin> set (base64 bs)"
  by (induction bs rule: base64.induct) (simp_all add: base64_char_plain(2) [symmetric])

lemma hex_unquoted: "CHR 0x22 \<notin> set (hex_EncodeToString bs)"
proof (induction bs)
  case (Cons b bs)
  have "list_all (\<lambda>n. CHR 0x22 \<noteq> hex_char n) [0..<16]"
    by (simp add: upt_rec hex_char_def)
  then have "CHR 0x22 \<noteq> hex_char n" if "n < 16" for n
    using that by (simp add: list_all_iff)
  with Cons show ?case by (simp add: nibble_bounds)
qed simp

definition example_reader :: "string \<Rightarrow> (string list \<times> bytes) option" where
  "example_reader j = (let ts = split_at_char CHR 0x22 j in
     if length ts < 13 then None else Some (map json_string [ts ! 3, ts ! 5, ts ! 7], unbase64 (ts ! 11)))"

lemma example_reads_answer: "reads_answer example_reader"
proof -
  have "example_reader (service_json g) = Some (map HexBigInt_MarshalJSON (GInput g), GProof g)"
    if "length (GInput g) = 3" for g
  proof -
    from that obtain a b c where g: "GInput g = [a, b, c]"
      by (auto simp: numeral_3_eq_3 length_Suc_conv)
    let ?x = "\<lambda>n. ''0x'' @ hex_EncodeToString (be_bytes n)"
    have "service_json g = ''{'' @ CHR 0x22 # ''input'' @ CHR 0x22 # '':['' @ CHR 0x22 # ?x a @ CHR 0x22 # '','' @ CHR 0x22 #
        ?x b @ CHR 0x22 # '','' @ CHR 0x22 # ?x c @ CHR 0x22 # ''],'' @ CHR 0x22 # ''proof'' @ CHR 0x22 # '':'' @ CHR 0x22 #
        base64 (GProof g) @ CHR 0x22 # ''}''"
      by (simp add: service_json_def json_object_def json_array_def g HexBigInt_MarshalJSON_def json_string_def Let_def)
    then have "split_at_char CHR 0x22 (service_json g) = [''{'', ''input'', '':['', ?x a, '','', ?x b, '','', ?x c, ''],'',
        ''proof'', '':'', base64 (GProof g), ''}'']"
      by (simp add: split_at_char_append hex_unquoted base64_unquoted)
    then show ?thesis
      by (simp add: example_reader_def g HexBigInt_MarshalJSON_def unbase64_base64 Let_def)
  qed
  then show ?thesis by (simp add: reads_answer_def)
qed

text \<open>The service as the relayer of \<open>ZK_Prover\<close> sees it, for the request the skip circuit makes.\<close>

definition served :: "bool \<Rightarrow> nat" where
  "served out = public_inputs (replicate 32 1) (replicate 32 2) 5 (replicate 32 5) 7 (replicate 32 7) ! (if out then 2 else 1)"

definition service_net :: net where
  "service_net = \<lparr>http_get = (\<lambda>url. Inr (map HexBigInt_MarshalJSON
       [be_nat (replicate 32 2) mod bn254_r, served False, served True], (replicate 256 1, []))),
     unquote = plain_unquote\<rparr>"

theorem service_answer_accepted_witness:
  "\<exists>p. Prove service_net example_client 5 7 = Inr
     \<lparr>ZKInput = public_inputs (replicate 32 1) (replicate 32 2) 5 (replicate 32 5) 7 (replicate 32 7), ZKProofOf = p\<rparr>"
proof -
  let ?i = "public_inputs (replicate 32 1) (replicate 32 2) 5 (replicate 32 5) 7 (replicate 32 7)"
  let ?req = "example_request (be_nat (replicate 32 2)) (served False) (served True)"
  have small: "served b < 2 ^ 253" for b by (cases b) (simp_all add: served_def public_inputs_def)
  have m: "proveMock example_client 5 7 = Inr \<lparr>ZKInput = ?i, ZKProofOf = MockProof\<rparr>"
    by (simp add: example_client_def NewZKProverClient_def proveMock_def header_hash_def int64Ptr_def
        public_inputs_def be_nat_mask_digest into_array_exact skip_input_eq Let_def)
  have "replicate 32 (2 :: byte) = 2 # replicate 31 2"
    using replicate_Suc [of 31 "2 :: byte"] by simp
  then have "be_nat (replicate 32 2) < 3 * 256 ^ 31"
    using be_nat_less [of "replicate 31 2"] by simp
  then have "be_nat (replicate 32 2) < bn254_r" by (simp add: bn254_r_def)
  then have d: "?i = [be_nat (replicate 32 2) mod bn254_r, served False, served True]"
    by (simp add: served_def public_inputs_def)
  have h: "base256 (map (\<lambda>v. unat v mod 256) (take 32 (PublicInputs (ReqProof ?req)))) = served False"
    "base256 (map (\<lambda>v. unat v mod 256) (drop 32 (PublicInputs (ReqProof ?req)))) = served True"
    using example_hashes [OF small small, of "be_nat (replicate 32 2)" False True]
    by (simp_all add: getInputHashOutputHash_Inr)
  let ?g = "\<lparr>GInput = [be_nat (replicate 32 2) mod bn254_r, served False, served True], GProof = replicate 256 1\<rparr>"
  have a: "handle_prove example_prover_lib 1 example_service (\<lambda>body. Inr ?req) ''request'' = Json (service_json ?g)"
    using example_answer [OF small small] by (auto simp: service_answer [OF example_prover_ok bn254_bounds])
  have r: "example_reader (service_json ?g) = Some (map HexBigInt_MarshalJSON (GInput ?g), replicate 256 1)"
    using example_reads_answer by (simp add: reads_answer_def)
  have n: "http_get service_net (prove_url (ProverAddress example_client) 5 7) =
      Inr (map HexBigInt_MarshalJSON (GInput ?g), (replicate 256 1, []))" "reads_json (unquote service_net)"
    by (simp_all add: service_net_def reads_json_def plain_unquote_def json_string_def)
  have t: "ZKProverType example_client = Groth16ProverType"
    by (simp add: example_client_def NewZKProverClient_def Groth16ProverType_def)
  from service_answer_accepted [OF example_prover_ok bn254_bounds a example_reads_answer r n _ t m]
  show ?thesis
    unfolding h by (auto simp: h d [symmetric]) (simp add: d example_request_def example_prover_lib_def example_chip_def)
qed

text \<open>
  C25: Requests do not disturb each other: after any interleaving of their handlers at most one of
  them is between locking and unlocking the mutex, and what a request is answered depends on
  its body and on the randomness of its own proof alone; it is an answer \<open>handle_prove\<close> gives to it.
\<close>

theorem serve_mutual_exclusion:
  assumes "(serve_step lib srv decode ^^ n) (server_start bodies) s"
  shows "length (phases s) = length bodies
    \<and> (\<forall>i < length bodies. \<forall>j < length bodies. \<forall>v w. phases s ! i = Locked v \<longrightarrow> phases s ! j = Locked w \<longrightarrow> i = j)
    \<and> (\<forall>i < length bodies. \<forall>r. phases s ! i = Answered r \<longrightarrow>
         (\<exists>rnd. r = handle_prove lib rnd srv decode (bodies ! i)))"
proof -
  have inv: "serve_inv lib srv decode bodies s"
    by (rule serving.run_inv [OF assms serve_inv_start])
  then have l: "length (phases s) = length bodies"
    by (auto simp: serve_inv_def dest: list_all2_lengthD)
  have "mutex s = Some i" if "phases s ! i = Locked v" "i < length bodies" for i v
    using inv that l by (metis serve_inv_def holds_mutex_simps(3))
  moreover have "\<exists>rnd. r = handle_prove lib rnd srv decode (bodies ! i)" if "phases s ! i = Answered r" "i < length bodies" for i r
    using phase_ok_at [of lib srv decode bodies "phases s" i] inv that l by (simp add: serve_inv_def)
  ultimately show ?thesis
    using l by (intro conjI allI impI) (simp, metis option.inject, simp)
qed

text \<open>A run of two requests up to the first lock.\<close>

definition example_decode :: "string \<Rightarrow> string + (nat, nat) ProveRequest" where
  "example_decode body = (if body = ''bad'' then Inl ''json'' else Inr (example_request 11 5 9))"

definition example_circuit_119 :: "(nat, nat, unit) Plonky2xVerifierCircuit" where
  "example_circuit_119 = assignment example_chip ()
     (DeserializeProof example_prover_lib (ReqProof (example_request 11 5 9))) 11 (5, 9)"

lemma example_prepared: "prepare example_prover_lib example_decode ''good'' = Inr example_circuit_119"
proof -
  have "getInputHashOutputHash (ReqProof (example_request 11 5 9)) = Inr (5, 9)"
    by (rule example_hashes) simp_all
  then show ?thesis
    by (simp add: prepare_def example_decode_def example_circuit_119_def example_prover_lib_def example_request_def)
qed

lemma example_run:
  "(serve_step example_prover_lib example_service example_decode ^^ 2) (server_start [''good'', ''good''])
     \<lparr>phases = [Locked example_circuit_119, Arrived ''good''], mutex = Some 0\<rparr>"
proof -
  let ?s = "\<lparr>phases = [Prepared example_circuit_119, Arrived ''good''], mutex = None\<rparr>"
  have "serve_step example_prover_lib example_service example_decode (server_start [''good'', ''good''])
      (server_start [''good'', ''good'']\<lparr>phases :=
        (phases (server_start [''good'', ''good'']))[0 := after_prepare (prepare example_prover_lib example_decode ''good'')]\<rparr>)"
    by (rule serve_step.decoded) (simp_all add: server_start_def)
  then have 1: "serve_step example_prover_lib example_service example_decode (server_start [''good'', ''good'']) ?s"
    by (simp add: server_start_def example_prepared after_prepare_def)
  have "serve_step example_prover_lib example_service example_decode ?s
      (?s\<lparr>phases := (phases ?s)[0 := Locked example_circuit_119], mutex := Some 0\<rparr>)"
    by (rule serve_step.locked) simp_all
  with 1 show ?thesis by (auto simp: numeral_2_eq_2)
qed

theorem serve_mutual_exclusion_witness:
  "\<exists>s. (serve_step example_prover_lib example_service example_decode ^^ 2) (server_start [''good'', ''good'']) s
    \<and> phases s ! 0 = Locked example_circuit_119 \<and> (\<forall>w. phases s ! 1 \<noteq> Locked w)"
  using serve_mutual_exclusion [OF example_run] example_run by fastforce

text \<open>
  Every request is answered: a run of the handlers has at most three steps for each request,
  and as long as a request is not answered some step is possible, whatever the errors on the way;
  so every run that goes on ends with the answer of each request. The mutex is never left locked.
\<close>

theorem serve_terminates:
  assumes "(serve_step lib srv decode ^^ n) (server_start bodies) s"
  shows "n \<le> 3 * length bodies
    \<and> ((\<exists>s'. serve_step lib srv decode s s')
       \<or> list_all2 (\<lambda>b p. \<exists>rnd. p = Answered (handle_prove lib rnd srv decode b)) bodies (phases s) \<and> mutex s = None)"
proof (intro conjI)
  show "n \<le> 3 * length bodies"
    using serving.run_length [OF assms serve_inv_start]
    by (simp add: serve_rank_def server_start_def comp_def sum_list_triv)
  have inv: "serve_inv lib srv decode bodies s"
    by (rule serving.run_inv [OF assms serve_inv_start])
  then have l: "length (phases s) = length bodies"
    by (auto simp: serve_inv_def dest: list_all2_lengthD)
  have "list_all2 (\<lambda>b p. \<exists>rnd. p = Answered (handle_prove lib rnd srv decode b)) bodies (phases s) \<and> mutex s = None"
    if stuck: "\<nexists>s'. serve_step lib srv decode s s'"
  proof -
    have a: "\<exists>rnd. phases s ! i = Answered (handle_prove lib rnd srv decode (bodies ! i))" if "i < length bodies" for i
    proof -
      have "i < length (phases s)" using that l by simp
      then obtain r where "phases s ! i = Answered r" using serve_progress [OF inv] stuck by blast
      with phase_ok_at [of lib srv decode bodies "phases s" i] inv that l show ?thesis
        by (simp add: serve_inv_def)
    qed
    have "mutex s \<noteq> Some i" for i
      using inv a [of i] l by (metis holds_mutex_simps(4) serve_inv_def)
    then show ?thesis using a l by (auto simp: list_all2_conv_all_nth)
  qed
  then show "(\<exists>s'. serve_step lib srv decode s s')
      \<or> list_all2 (\<lambda>b p. \<exists>rnd. p = Answered (handle_prove lib rnd srv decode b)) bodies (phases s) \<and> mutex s = None" by blast
qed

theorem serve_terminates_witness:
  "\<exists>s'. serve_step example_prover_lib example_service example_decode
     \<lparr>phases = [Locked example_circuit_119, Arrived ''good''], mutex = Some 0\<rparr> s'"
  using serve_terminates [OF example_run] by simp

text \<open>
  C37: The command and the service are the same prover: on files that can be read, \<open>prove\<close>
  succeeds exactly when a service started on the same data directory answers a request with
  the same proof and verifier data, with the same randomness, with a JSON document, and otherwise
  reports an error.
\<close>

theorem prove_agrees_with_service:
  assumes "read_proof (proofWithPublicInputsFile proofDir) = Inr raw"
    and "read_verifier (verifierOnlyCircuitDataFile proofDir) = Inr vraw"
    and "NewService dataDir d = Inr srv" and "decode body = Inr \<lparr>ReqProof = raw, ReqVerifierData = vraw\<rparr>"
  shows "prove lib rnd read_proof read_verifier d dataDir proofDir = None
    \<longleftrightarrow> (\<exists>j. handle_prove lib rnd srv decode body = Json j)"
proof -
  from assms(3) have "read_r1cs d (r1csPath dataDir) = Inr (srv_cs srv)"
    and "read_pk d (provingKeyPath dataDir) = Inr (srv_pk srv)"
    by (auto simp: NewService_def rbind_eq_Inr_iff)
  with assms show ?thesis
    by (cases "getInputHashOutputHash raw")
      (auto simp: prove_def handle_prove_Json prepare_def Let_def split: sum.splits)
qed

definition proved_disk :: "(nat, nat, nat) disk" where
  "proved_disk = \<lparr>files = [r1csPath ''data'' \<mapsto> R1CS 3, provingKeyPath ''data'' \<mapsto> PK 3], bit_range_check = False\<rparr>"

theorem prove_agrees_with_service_witness:
  "prove example_prover_lib 1 (\<lambda>f. Inr (ReqProof (example_request 11 5 9))) (\<lambda>f. Inr 11) proved_disk ''data'' ''proof'' = None"
proof (subst prove_agrees_with_service)
  show "NewService ''data'' proved_disk = Inr example_service"
    by (simp add: NewService_def proved_disk_def read_r1cs_def read_pk_def example_service_def)
  show "Inr (example_request 11 5 9) =
      (Inr \<lparr>ReqProof = ReqProof (example_request 11 5 9), ReqVerifierData = 11\<rparr> :: string + _)"
    by (simp add: example_request_def)
  have "prove_witness example_prover_lib 1 3 3 example_circuit_119 =
      Inr \<lparr>GInput = [11 mod bn254_r, 5 mod bn254_r, 9 mod bn254_r], GProof = replicate 256 1\<rparr>"
    using parse_public [OF example_prover_ok _ bn254_bounds(2), of example_circuit_119 example_circuit_119 example_circuit_119 1]
    by (simp add: prove_witness_def example_prover_lib_def example_circuit_119_def assignment_def
        example_chip_def bn254_r_def)
  with example_prepared show "\<exists>j. handle_prove example_prover_lib 1 example_service (\<lambda>body. Inr (example_request 11 5 9)) ''good'' = Json j"
    by (auto simp: handle_prove_Json example_service_def prepare_def example_decode_def)
qed simp_all

end
