(* ===== verification/Command_Trees.thy ===== *)
theory Command_Trees
  imports Gnark_Service Light_Commands
begin

text \<open>
  The command lines of the two programs: \<open>go/main.go\<close> with the commands of \<open>setup.go\<close>, \<open>prove.go\<close> and
  \<open>service.go\<close>, and the commands of the relayer's module, \<open>go/relay/cmd\<close>. cobra's commands are data,
  the help texts left out. viper is a parameter, the record \<open>viper_lib\<close>, and so is cobra's
  \<open>Execute\<close>. A flag is identified by its command's name and its own: the programs bind flags of
  the same name for several commands.
\<close>

section \<open>Commands and flags\<close>

datatype flag_default = StringDefault string | Int64Default int | BytesDefault bytes | BoolDefault bool

record pflag =
  pf_name :: string
  pf_short :: string
  pf_default :: flag_default

datatype args_check = ArbitraryArgs | ExactArgs nat | RangeArgs nat nat

fun args_ok :: "args_check \<Rightarrow> string list \<Rightarrow> bool" where
  "args_ok ArbitraryArgs args \<longleftrightarrow> True"
| "args_ok (ExactArgs n) args \<longleftrightarrow> length args = n"
| "args_ok (RangeArgs m n) args \<longleftrightarrow> m \<le> length args \<and> length args \<le> n"

datatype 'run command = Command (cmd_use: string) (cmd_aliases: "string list") (cmd_args: args_check)
  (cmd_flags: "pflag list") (cmd_required: "string list") (cmd_run: "'run option") (cmd_children: "'run command list")

type_synonym flag_ref = "string \<times> string"

text \<open>A command that only has a name and a \<open>RunE\<close>.\<close>

definition run_command :: "string \<Rightarrow> 'run \<Rightarrow> 'run command" where
  "run_command name run = Command name [] ArbitraryArgs [] [] (Some run) []"

text \<open>\<open>Flags().StringP\<close> and its like, \<open>Flags().Lookup\<close>, \<open>MarkFlagRequired\<close> and \<open>AddCommand\<close>.\<close>

definition add_flag :: "string \<Rightarrow> string \<Rightarrow> flag_default \<Rightarrow> 'run command \<Rightarrow> 'run command" where
  "add_flag name short dflt c = Command (cmd_use c) (cmd_aliases c) (cmd_args c)
     (cmd_flags c @ [\<lparr>pf_name = name, pf_short = short, pf_default = dflt\<rparr>]) (cmd_required c) (cmd_run c) (cmd_children c)"

definition Lookup :: "'run command \<Rightarrow> string \<Rightarrow> flag_ref option" where
  "Lookup c name = (if name \<in> set (map pf_name (cmd_flags c)) then Some (cmd_use c, name) else None)"

definition MarkFlagRequired :: "string \<Rightarrow> 'run command \<Rightarrow> 'run command" where
  "MarkFlagRequired name c =
     (if name \<in> set (map pf_name (cmd_flags c))
      then Command (cmd_use c) (cmd_aliases c) (cmd_args c) (cmd_flags c) (cmd_required c @ [name]) (cmd_run c) (cmd_children c)
      else c)"

definition AddCommand :: "'run command list \<Rightarrow> 'run command \<Rightarrow> 'run command" where
  "AddCommand cs c = Command (cmd_use c) (cmd_aliases c) (cmd_args c) (cmd_flags c) (cmd_required c) (cmd_run c)
     (cmd_children c @ cs)"

definition flag_refs :: "'run command \<Rightarrow> flag_ref list" where
  "flag_refs c = map (\<lambda>f. (cmd_use c, pf_name f)) (cmd_flags c)"

text \<open>
  viper, with its bindings as a state: binding a key to a flag, binding all flags of a command under
  their names, and the value of a key, where the second argument gives the flags' values.
\<close>

record 'v viper_lib =
  BindPFlag :: "string \<Rightarrow> flag_ref option \<Rightarrow> 'v \<Rightarrow> string option \<times> 'v"
  BindPFlags :: "flag_ref list \<Rightarrow> 'v \<Rightarrow> string option \<times> 'v"
  GetString :: "'v \<Rightarrow> (flag_ref \<Rightarrow> string) \<Rightarrow> string \<Rightarrow> string"

text \<open>A function that makes a command may panic, and changes the bindings.\<close>

type_synonym ('v, 'run) maker = "'v \<Rightarrow> string + ('run command \<times> 'v)"

definition bind_flag :: "'v viper_lib \<Rightarrow> string \<Rightarrow> 'run command \<Rightarrow> ('v, 'run) maker" where
  "bind_flag vl name cmd v = (case BindPFlag vl name (Lookup cmd name) v of
     (Some e, v') \<Rightarrow> Inl e | (None, v') \<Rightarrow> Inr (cmd, v'))"

section \<open>The prover's program\<close>

definition flagDataDir :: string where "flagDataDir = ''data''"
definition flagProofPath :: string where "flagProofPath = ''proof''"
definition flagDummyPlonky2DataDir :: string where "flagDummyPlonky2DataDir = ''dummydata''"
definition flagProvingSystem :: string where "flagProvingSystem = ''proving-system''"
definition flagAddr :: string where "flagAddr = ''addr''"

definition provingSystemFlag :: "'v viper_lib \<Rightarrow> 'run command \<Rightarrow> ('v, 'run) maker" where
  "provingSystemFlag vl cmd v = bind_flag vl flagProvingSystem (add_flag flagProvingSystem ''s'' (StringDefault []) cmd) v"

definition dataDirFlag :: "'v viper_lib \<Rightarrow> 'run command \<Rightarrow> ('v, 'run) maker" where
  "dataDirFlag vl cmd v = bind_flag vl flagDataDir (add_flag flagDataDir ''d'' (StringDefault []) cmd) v"

definition proofFlag :: "'v viper_lib \<Rightarrow> 'run command \<Rightarrow> ('v, 'run) maker" where
  "proofFlag vl cmd v = bind_flag vl flagProofPath (add_flag flagProofPath ''p'' (StringDefault []) cmd) v"

definition dummyPlonky2DataDirFlag :: "'v viper_lib \<Rightarrow> 'run command \<Rightarrow> ('v, 'run) maker" where
  "dummyPlonky2DataDirFlag vl cmd v =
     bind_flag vl flagDummyPlonky2DataDir (add_flag flagDummyPlonky2DataDir [] (StringDefault []) cmd) v"

definition addrFlag :: "'v viper_lib \<Rightarrow> 'run command \<Rightarrow> ('v, 'run) maker" where
  "addrFlag vl cmd v = bind_flag vl flagAddr (add_flag flagAddr ''a'' (StringDefault '':3030'') cmd) v"

text \<open>
  A \<open>RunE\<close> reads viper's values and acts on the disk. The functions the commands call are
  arguments: \<open>setup_run\<close>, \<open>prove\<close> and \<open>service_run\<close> with their libraries.
\<close>

type_synonym ('v, 'd, 'res) run_fun = "'v \<Rightarrow> (flag_ref \<Rightarrow> string) \<Rightarrow> 'd \<Rightarrow> 'res \<times> 'd"

definition setupCmd ::
    "'v viper_lib \<Rightarrow> (string \<Rightarrow> string \<Rightarrow> string \<Rightarrow> 'd \<Rightarrow> 'res \<times> 'd) \<Rightarrow> ('v, ('v, 'd, 'res) run_fun) maker" where
  "setupCmd vl run v =
     (let cmd = run_command ''setup'' (\<lambda>v vals. run (GetString vl v vals flagProvingSystem)
                  (GetString vl v vals flagDataDir) (GetString vl v vals flagDummyPlonky2DataDir)) in
      rbind (provingSystemFlag vl cmd v) (\<lambda>(cmd, v).
      rbind (dataDirFlag vl cmd v) (\<lambda>(cmd, v).
      rbind (dummyPlonky2DataDirFlag vl cmd v) (\<lambda>(cmd, v).
        Inr (MarkFlagRequired flagDummyPlonky2DataDir (MarkFlagRequired flagDataDir (MarkFlagRequired flagProvingSystem cmd)), v)))))"

definition proveCmd ::
    "'v viper_lib \<Rightarrow> (string \<Rightarrow> string \<Rightarrow> 'd \<Rightarrow> 'res \<times> 'd) \<Rightarrow> ('v, ('v, 'd, 'res) run_fun) maker" where
  "proveCmd vl run v =
     (let cmd = run_command ''prove'' (\<lambda>v vals. run (GetString vl v vals flagDataDir) (GetString vl v vals flagProofPath)) in
      rbind (dataDirFlag vl cmd v) (\<lambda>(cmd, v).
      rbind (proofFlag vl cmd v) (\<lambda>(cmd, v).
        Inr (MarkFlagRequired flagProofPath (MarkFlagRequired flagDataDir cmd), v))))"

definition serviceCmd ::
    "'v viper_lib \<Rightarrow> (string \<Rightarrow> string \<Rightarrow> 'd \<Rightarrow> 'res \<times> 'd) \<Rightarrow> ('v, ('v, 'd, 'res) run_fun) maker" where
  "serviceCmd vl run v =
     (let cmd = run_command ''service'' (\<lambda>v vals. run (GetString vl v vals flagDataDir) (GetString vl v vals flagAddr)) in
      rbind (dataDirFlag vl cmd v) (\<lambda>(cmd, v). addrFlag vl cmd v))"

text \<open>\<open>main\<close>: the three commands in order, their parent, and what runs before every command.\<close>

definition rootCmd :: "'run command" where
  "rootCmd = Command ''gnark-plonky2-verifier'' [] ArbitraryArgs [] [] None []"

definition main_commands ::
    "'v viper_lib \<Rightarrow> (string \<Rightarrow> string \<Rightarrow> string \<Rightarrow> 'd \<Rightarrow> 'res \<times> 'd) \<Rightarrow> (string \<Rightarrow> string \<Rightarrow> 'd \<Rightarrow> 'res \<times> 'd)
       \<Rightarrow> (string \<Rightarrow> string \<Rightarrow> 'd \<Rightarrow> 'res \<times> 'd) \<Rightarrow> ('v, ('v, 'd, 'res) run_fun) maker" where
  "main_commands vl run_setup run_prove run_service v =
     rbind (setupCmd vl run_setup v) (\<lambda>(s, v).
     rbind (proveCmd vl run_prove v) (\<lambda>(p, v).
     rbind (serviceCmd vl run_service v) (\<lambda>(srv, v).
       Inr (AddCommand [s, p, srv] rootCmd, v))))"

definition PersistentPreRunE :: "'v viper_lib \<Rightarrow> 'run command \<Rightarrow> 'v \<Rightarrow> string option \<times> 'v" where
  "PersistentPreRunE vl cmd v = (case BindPFlags vl (flag_refs cmd) v of
     (Some e, v') \<Rightarrow> (Some (''failed to bind the flag set to the configuration: '' @ e), v')
   | (None, v') \<Rightarrow> (None, v'))"

text \<open>\<open>main\<close> panics on any error; \<open>Execute\<close> is cobra's, with the arguments of the process in it.\<close>

type_synonym ('v, 'd, 'res) executor =
  "('v, 'd, 'res) run_fun command \<Rightarrow> (('v, 'd, 'res) run_fun command \<Rightarrow> 'v \<Rightarrow> string option \<times> 'v)
     \<Rightarrow> 'v \<Rightarrow> 'd \<Rightarrow> (string + 'res) \<times> 'd"

text \<open>A command's function returns an error or nil; \<open>panicked\<close> is how \<open>main\<close> ends.\<close>

definition panicked :: "string option \<Rightarrow> string + unit" where
  "panicked res = (case res of None \<Rightarrow> Inr () | Some e \<Rightarrow> Inl e)"

definition go_main ::
    "'v viper_lib \<Rightarrow> ('v, 'd, string option) executor \<Rightarrow> (string \<Rightarrow> string \<Rightarrow> string \<Rightarrow> 'd \<Rightarrow> string option \<times> 'd)
       \<Rightarrow> (string \<Rightarrow> string \<Rightarrow> 'd \<Rightarrow> string option \<times> 'd) \<Rightarrow> (string \<Rightarrow> string \<Rightarrow> 'd \<Rightarrow> string option \<times> 'd) \<Rightarrow> 'v \<Rightarrow> 'd
       \<Rightarrow> (string + unit) \<times> 'd" where
  "go_main vl execute run_setup run_prove run_service v d =
     (case main_commands vl run_setup run_prove run_service v of
        Inl e \<Rightarrow> (Inl e, d)
      | Inr (root, v) \<Rightarrow> (case execute root (PersistentPreRunE vl) v d of
          (Inl e, d') \<Rightarrow> (Inl e, d')
        | (Inr err, d') \<Rightarrow> (panicked err, d')))"

section \<open>The service\<close>

text \<open>
  \<open>Start\<close> registers two handlers with \<open>net/http\<close> and listens; the body of \<open>/health\<close> is empty and its
  status 200. Another path is answered by the default multiplexer. The handler of a request draws the
  randomness of its own proof, so the listener gets the multiplexer as a function of it.
\<close>

datatype route_response = HealthOK | ProveAnswer response | NotFound

definition Start_mux ::
    "('pf, 'vd, 'cd, 'r, 'vr, 'cs, 'pk, 'w, 'p) prover_lib \<Rightarrow> nat \<Rightarrow> ('cs, 'pk) Service
       \<Rightarrow> (string \<Rightarrow> string + ('r, 'vr) ProveRequest) \<Rightarrow> string \<Rightarrow> string \<Rightarrow> route_response" where
  "Start_mux lib rnd s decode path body =
     (if path = ''/health'' then HealthOK
      else if path = ''/prove'' then ProveAnswer (handle_prove lib rnd s decode body)
      else NotFound)"

definition Start ::
    "((nat \<Rightarrow> string \<Rightarrow> string \<Rightarrow> route_response) \<Rightarrow> string \<Rightarrow> string option)
       \<Rightarrow> ('pf, 'vd, 'cd, 'r, 'vr, 'cs, 'pk, 'w, 'p) prover_lib \<Rightarrow> (string \<Rightarrow> string + ('r, 'vr) ProveRequest)
       \<Rightarrow> ('cs, 'pk) Service \<Rightarrow> string \<Rightarrow> string option" where
  "Start ListenAndServe lib decode s addr = ListenAndServe (\<lambda>rnd. Start_mux lib rnd s decode) addr"

definition service_run ::
    "((nat \<Rightarrow> string \<Rightarrow> string \<Rightarrow> route_response) \<Rightarrow> string \<Rightarrow> string option)
       \<Rightarrow> ('pf, 'vd, 'cd, 'r, 'vr, 'cs, 'pk, 'w, 'p) prover_lib \<Rightarrow> (string \<Rightarrow> string + ('r, 'vr) ProveRequest)
       \<Rightarrow> string \<Rightarrow> string \<Rightarrow> ('cs, 'pk, 'vk) disk \<Rightarrow> string option" where
  "service_run ListenAndServe lib decode dataDir addr d =
     (case NewService dataDir d of
        Inl e \<Rightarrow> Some e
      | Inr srv \<Rightarrow> Start ListenAndServe lib decode srv addr)"

section \<open>The relayer's commands\<close>

definition flagHeight :: string where "flagHeight = ''height''"
definition flagHash :: string where "flagHash = ''hash''"
definition flagForce :: string where "flagForce = ''force''"

definition lightFlags :: "'v viper_lib \<Rightarrow> 'run command \<Rightarrow> ('v, 'run) maker" where
  "lightFlags vl cmd v =
     (let cmd = add_flag flagHash ''x'' (BytesDefault []) (add_flag flagHeight [] (Int64Default (- 1)) cmd) in
      rbind (bind_flag vl flagHeight cmd v) (\<lambda>(cmd, v). bind_flag vl flagHash cmd v))"

definition forceFlag :: "'v viper_lib \<Rightarrow> 'run command \<Rightarrow> ('v, 'run) maker" where
  "forceFlag vl cmd v = bind_flag vl flagForce (add_flag flagForce ''f'' (BoolDefault False) cmd) v"

text \<open>What a command prints: nothing that depends on the state, two heights, or a document.\<close>

datatype 'h light_output = Done | Headers 'h 'h | Document string

text \<open>\<open>args[n]\<close> panics when there are too few arguments; cobra checks their number before a \<open>RunE\<close>.\<close>

definition arg :: "string list \<Rightarrow> nat \<Rightarrow> ('s, 'db, string) effect" where
  "arg args n = (if n < length args then give (args ! n) else fail (LightPanic ''index out of range''))"

type_synonym ('s, 'db, 'h) light_run = "string list \<Rightarrow> ('s, 'db, 'h light_output) effect"

definition initLightCmd ::
    "'v viper_lib \<Rightarrow> fraction \<Rightarrow> ProverConfig \<Rightarrow> ('s, 'db, 'c, 'lb, 'h) light_lib \<Rightarrow> chains \<Rightarrow> light_flags
       \<Rightarrow> ('v, ('s, 'db, 'h) light_run) maker" where
  "initLightCmd vl frac cfg lib get_chain fl v =
     (let cmd = Command ''init [chain-id]'' [] (ExactArgs 1) [] []
        (Some (\<lambda>args. ebind (arg args 0) (\<lambda>id. ebind (initLight frac cfg lib get_chain fl id) (\<lambda>_. give Done)))) [] in
      rbind (lightFlags vl cmd v) (\<lambda>(cmd, v). forceFlag vl cmd v))"

definition updateLightCmd ::
    "fraction \<Rightarrow> ProverConfig \<Rightarrow> ('s, 'db, 'c, 'lb, 'h) light_lib \<Rightarrow> chains \<Rightarrow> ('s, 'db, 'h) light_run command" where
  "updateLightCmd frac cfg lib get_chain = Command ''update [chain-id]'' [''u''] (ExactArgs 1) [] []
     (Some (\<lambda>args. ebind (arg args 0) (\<lambda>id. ebind (updateLight frac cfg lib get_chain id) (\<lambda>(bh, ah). give (Headers bh ah))))) []"

text \<open>The switch on \<open>len(args)\<close>: for another number the header stays nil.\<close>

definition lightHeaderCmd ::
    "fraction \<Rightarrow> ProverConfig \<Rightarrow> ('s, 'db, 'c, 'lb, 'h) light_lib \<Rightarrow> chains \<Rightarrow> ('h option \<Rightarrow> string + string)
       \<Rightarrow> ('s, 'db, 'h) light_run command" where
  "lightHeaderCmd frac cfg lib get_chain json = Command ''header [chain-id] [[height]]'' [''hdr''] (RangeArgs 1 2) [] []
     (Some (\<lambda>args. ebind (arg args 0) (\<lambda>id.
        if length args = 1 then
          ebind (lightHeader frac cfg lib get_chain (\<lambda>h. json (Some h)) id None) (\<lambda>out. give (Document out))
        else if length args = 2 then
          ebind (lightHeader frac cfg lib get_chain (\<lambda>h. json (Some h)) id (Some (args ! 1))) (\<lambda>out. give (Document out))
        else ebind (get_prover get_chain True id) (\<lambda>_. ebind (flag (json None)) (\<lambda>out. give (Document out)))))) []"

definition deleteLightCmd ::
    "('s, 'db, 'c, 'lb, 'h) light_lib \<Rightarrow> chains \<Rightarrow> ('s, 'db, 'h) light_run command" where
  "deleteLightCmd lib get_chain = Command ''delete [chain-id]'' [''d''] (ExactArgs 1) [] []
     (Some (\<lambda>args. ebind (arg args 0) (\<lambda>id. ebind (deleteLight lib get_chain id) (\<lambda>_. give Done)))) []"

definition lightCmd ::
    "'v viper_lib \<Rightarrow> fraction \<Rightarrow> ProverConfig \<Rightarrow> ('s, 'db, 'c, 'lb, 'h) light_lib \<Rightarrow> chains \<Rightarrow> light_flags
       \<Rightarrow> ('h option \<Rightarrow> string + string) \<Rightarrow> ('v, ('s, 'db, 'h) light_run) maker" where
  "lightCmd vl frac cfg lib get_chain fl json v =
     (let cmd = AddCommand [lightHeaderCmd frac cfg lib get_chain json] (Command ''light'' [''l''] ArbitraryArgs [] [] None []) in
      rbind (initLightCmd vl frac cfg lib get_chain fl v) (\<lambda>(init, v).
        Inr (AddCommand [deleteLightCmd lib get_chain]
          (AddCommand [updateLightCmd frac cfg lib get_chain] (AddCommand [init] cmd)), v)))"

definition TendermintZKCmd ::
    "'v viper_lib \<Rightarrow> fraction \<Rightarrow> ProverConfig \<Rightarrow> ('s, 'db, 'c, 'lb, 'h) light_lib \<Rightarrow> chains \<Rightarrow> light_flags
       \<Rightarrow> ('h option \<Rightarrow> string + string) \<Rightarrow> ('v, ('s, 'db, 'h) light_run) maker" where
  "TendermintZKCmd vl frac cfg lib get_chain fl json v =
     (let cmd = Command ''tendermintzk'' [] ArbitraryArgs [] [] None [] in
      rbind (lightCmd vl frac cfg lib get_chain fl json v) (\<lambda>(light, v). Inr (AddCommand [light] cmd, v)))"

text \<open>The module, \<open>go/relay/module/module.go\<close>.\<close>

definition Module_Name :: string where "Module_Name = ''tendermint-zk-prover''"

definition GetCmd ::
    "'v viper_lib \<Rightarrow> fraction \<Rightarrow> ProverConfig \<Rightarrow> ('s, 'db, 'c, 'lb, 'h) light_lib \<Rightarrow> chains \<Rightarrow> light_flags
       \<Rightarrow> ('h option \<Rightarrow> string + string) \<Rightarrow> ('v, ('s, 'db, 'h) light_run) maker" where
  "GetCmd = TendermintZKCmd"

section \<open>Facts\<close>

text \<open>
  The documented behaviour of viper: a key bound to a flag has the flag's value, other keys keep
  theirs, binding no flag is an error; binding flags binds each under its name.
\<close>

definition viper_ok :: "'v viper_lib \<Rightarrow> bool" where
  "viper_ok vl \<longleftrightarrow>
     (\<forall>name ref v. fst (BindPFlag vl name (Some ref) v) = None
        \<and> (\<forall>vals key. GetString vl (snd (BindPFlag vl name (Some ref) v)) vals key =
             (if key = name then vals ref else GetString vl v vals key)))
     \<and> (\<forall>name v. fst (BindPFlag vl name None v) \<noteq> None)
     \<and> (\<forall>refs v. distinct (map snd refs) \<longrightarrow> fst (BindPFlags vl refs v) = None
        \<and> (\<forall>vals key. GetString vl (snd (BindPFlags vl refs v)) vals key =
             (case map_of (map (\<lambda>r. (snd r, r)) refs) key of Some ref \<Rightarrow> vals ref | None \<Rightarrow> GetString vl v vals key)))"

text \<open>
  The documented behaviour of cobra when the arguments of the process select the child \<open>name\<close>
  and give values to the flags in \<open>given\<close>: what is to run before goes first and may stop it, then the
  required flags are checked, then the command runs.
\<close>

definition cobra_selects ::
    "('v, 'd, 'res) executor \<Rightarrow> string \<Rightarrow> (flag_ref \<Rightarrow> string) \<Rightarrow> string set \<Rightarrow> bool" where
  "cobra_selects execute name vals given \<longleftrightarrow> (\<forall>root pre v d c run.
     c \<in> set (cmd_children root) \<longrightarrow> distinct (map cmd_use (cmd_children root)) \<longrightarrow> cmd_use c = name \<longrightarrow> cmd_run c = Some run \<longrightarrow>
     (case pre c v of
        (Some e, v') \<Rightarrow> \<exists>e'. execute root pre v d = (Inl e', d)
      | (None, v') \<Rightarrow> if set (cmd_required c) \<subseteq> given
          then execute root pre v d = (let (res, d') = run v' vals d in (Inr res, d'))
          else \<exists>e'. execute root pre v d = (Inl e', d)))"

lemma add_flag_simps [simp]:
  "cmd_use (add_flag n s f c) = cmd_use c" "cmd_run (add_flag n s f c) = cmd_run c"
  "cmd_flags (add_flag n s f c) = cmd_flags c @ [\<lparr>pf_name = n, pf_short = s, pf_default = f\<rparr>]"
  "cmd_required (add_flag n s f c) = cmd_required c" "cmd_children (add_flag n s f c) = cmd_children c"
  "cmd_args (add_flag n s f c) = cmd_args c"
  by (simp_all add: add_flag_def)

lemma MarkFlagRequired_simps [simp]:
  "cmd_use (MarkFlagRequired n c) = cmd_use c" "cmd_run (MarkFlagRequired n c) = cmd_run c"
  "cmd_flags (MarkFlagRequired n c) = cmd_flags c"
  "cmd_required (MarkFlagRequired n c) =
     (if n \<in> pf_name ` set (cmd_flags c) then cmd_required c @ [n] else cmd_required c)"
  by (simp_all add: MarkFlagRequired_def)

lemma AddCommand_simps [simp]: "cmd_children (AddCommand cs c) = cmd_children c @ cs"
  by (simp add: AddCommand_def)

lemma run_command_simps [simp]:
  "cmd_use (run_command n r) = n" "cmd_run (run_command n r) = Some r" "cmd_flags (run_command n r) = []"
  "cmd_required (run_command n r) = []"
  by (simp_all add: run_command_def)

text \<open>The bindings after a flag of a command was bound.\<close>

definition bound :: "'v viper_lib \<Rightarrow> string \<Rightarrow> string \<Rightarrow> 'v \<Rightarrow> 'v" where
  "bound vl use name v = snd (BindPFlag vl name (Some (use, name)) v)"

lemma bind_flag_eq:
  assumes "viper_ok vl" and "name \<in> pf_name ` set (cmd_flags cmd)"
  shows "bind_flag vl name cmd v = Inr (cmd, bound vl (cmd_use cmd) name v)"
proof -
  from assms(1) have "fst (BindPFlag vl name (Some (cmd_use cmd, name)) v) = None"
    unfolding viper_ok_def by blast
  with assms(2) show ?thesis
    by (cases "BindPFlag vl name (Some (cmd_use cmd, name)) v") (simp add: bind_flag_def Lookup_def bound_def)
qed

lemma GetString_bound:
  assumes "viper_ok vl"
  shows "GetString vl (bound vl use name v) vals key = (if key = name then vals (use, name) else GetString vl v vals key)"
  using assms unfolding viper_ok_def bound_def by blast

lemmas flag_makers = provingSystemFlag_def dataDirFlag_def proofFlag_def dummyPlonky2DataDirFlag_def addrFlag_def
lemmas flag_names = flagDataDir_def flagProofPath_def flagDummyPlonky2DataDir_def flagProvingSystem_def flagAddr_def

text \<open>What the three constructors make.\<close>

definition setup_made :: "'v viper_lib \<Rightarrow> (string \<Rightarrow> string \<Rightarrow> string \<Rightarrow> 'd \<Rightarrow> 'res \<times> 'd) \<Rightarrow> ('v, 'd, 'res) run_fun command" where
  "setup_made vl run = Command ''setup'' [] ArbitraryArgs
     [\<lparr>pf_name = ''proving-system'', pf_short = ''s'', pf_default = StringDefault []\<rparr>,
      \<lparr>pf_name = ''data'', pf_short = ''d'', pf_default = StringDefault []\<rparr>,
      \<lparr>pf_name = ''dummydata'', pf_short = [], pf_default = StringDefault []\<rparr>]
     [''proving-system'', ''data'', ''dummydata'']
     (Some (\<lambda>v vals. run (GetString vl v vals ''proving-system'') (GetString vl v vals ''data'') (GetString vl v vals ''dummydata''))) []"

definition prove_made :: "'v viper_lib \<Rightarrow> (string \<Rightarrow> string \<Rightarrow> 'd \<Rightarrow> 'res \<times> 'd) \<Rightarrow> ('v, 'd, 'res) run_fun command" where
  "prove_made vl run = Command ''prove'' [] ArbitraryArgs
     [\<lparr>pf_name = ''data'', pf_short = ''d'', pf_default = StringDefault []\<rparr>,
      \<lparr>pf_name = ''proof'', pf_short = ''p'', pf_default = StringDefault []\<rparr>] [''data'', ''proof'']
     (Some (\<lambda>v vals. run (GetString vl v vals ''data'') (GetString vl v vals ''proof''))) []"

definition service_made :: "'v viper_lib \<Rightarrow> (string \<Rightarrow> string \<Rightarrow> 'd \<Rightarrow> 'res \<times> 'd) \<Rightarrow> ('v, 'd, 'res) run_fun command" where
  "service_made vl run = Command ''service'' [] ArbitraryArgs
     [\<lparr>pf_name = ''data'', pf_short = ''d'', pf_default = StringDefault []\<rparr>,
      \<lparr>pf_name = ''addr'', pf_short = ''a'', pf_default = StringDefault '':3030''\<rparr>] []
     (Some (\<lambda>v vals. run (GetString vl v vals ''data'') (GetString vl v vals ''addr''))) []"

lemma setupCmd_eq:
  "viper_ok vl \<Longrightarrow> setupCmd vl run v = Inr (setup_made vl run,
     bound vl ''setup'' ''dummydata'' (bound vl ''setup'' ''data'' (bound vl ''setup'' ''proving-system'' v)))"
  by (simp add: setupCmd_def Let_def flag_makers flag_names bind_flag_eq setup_made_def)
    (simp add: MarkFlagRequired_def add_flag_def run_command_def)

lemma proveCmd_eq:
  "viper_ok vl \<Longrightarrow> proveCmd vl run v = Inr (prove_made vl run, bound vl ''prove'' ''proof'' (bound vl ''prove'' ''data'' v))"
  by (simp add: proveCmd_def Let_def flag_makers flag_names bind_flag_eq prove_made_def)
    (simp add: MarkFlagRequired_def add_flag_def run_command_def)

lemma serviceCmd_eq:
  "viper_ok vl \<Longrightarrow> serviceCmd vl run v = Inr (service_made vl run, bound vl ''service'' ''addr'' (bound vl ''service'' ''data'' v))"
  by (simp add: serviceCmd_def Let_def flag_makers flag_names bind_flag_eq service_made_def)
    (simp add: MarkFlagRequired_def add_flag_def run_command_def)

text \<open>After the constructors every shared key is bound to the flag of the command made last.\<close>

lemma main_commands_eq:
  assumes "viper_ok vl"
  obtains v' where "main_commands vl rs rp rv v =
      Inr (AddCommand [setup_made vl rs, prove_made vl rp, service_made vl rv] rootCmd, v')"
    and "\<And>vals. GetString vl v' vals ''data'' = vals (''service'', ''data'')"
    and "\<And>vals. GetString vl v' vals ''proof'' = vals (''prove'', ''proof'')"
proof (rule that)
  let ?v = "bound vl ''service'' ''addr'' (bound vl ''service'' ''data'' (bound vl ''prove'' ''proof'' (bound vl ''prove'' ''data''
    (bound vl ''setup'' ''dummydata'' (bound vl ''setup'' ''data'' (bound vl ''setup'' ''proving-system'' v))))))"
  show "main_commands vl rs rp rv v = Inr (AddCommand [setup_made vl rs, prove_made vl rp, service_made vl rv] rootCmd, ?v)"
    by (simp add: main_commands_def setupCmd_eq proveCmd_eq serviceCmd_eq assms)
  show "GetString vl ?v vals ''data'' = vals (''service'', ''data'')" and "GetString vl ?v vals ''proof'' = vals (''prove'', ''proof'')"
    for vals by (simp_all add: GetString_bound [OF assms])
qed

text \<open>Before its \<open>RunE\<close> a command binds its own flags again.\<close>

lemma PreRun_values:
  assumes "viper_ok vl" and "distinct (map pf_name (cmd_flags c))"
  shows "\<exists>v'. PersistentPreRunE vl c v = (None, v')
    \<and> (\<forall>vals. \<forall>key \<in> pf_name ` set (cmd_flags c). GetString vl v' vals key = vals (cmd_use c, key))"
proof -
  let ?refs = "flag_refs c"
  have names: "map snd ?refs = map pf_name (cmd_flags c)" by (simp add: flag_refs_def)
  have "fst (BindPFlags vl ?refs v) = None" and get: "\<And>vals key. GetString vl (snd (BindPFlags vl ?refs v)) vals key =
      (case map_of (map (\<lambda>r. (snd r, r)) ?refs) key of Some ref \<Rightarrow> vals ref | None \<Rightarrow> GetString vl v vals key)"
    using assms unfolding viper_ok_def names [symmetric] by blast+
  moreover have "map_of (map (\<lambda>r. (snd r, r)) ?refs) key = Some (cmd_use c, key)"
    if "key \<in> pf_name ` set (cmd_flags c)" for key
  proof (rule map_of_is_SomeI)
    show "distinct (map fst (map (\<lambda>r. (snd r, r)) ?refs))" using assms(2) by (simp add: names comp_def)
    show "(key, cmd_use c, key) \<in> set (map (\<lambda>r. (snd r, r)) ?refs)" using that by (auto simp: flag_refs_def)
  qed
  ultimately show ?thesis
    by (cases "BindPFlags vl ?refs v") (simp add: PersistentPreRunE_def)
qed

lemma cobra_selectsD:
  assumes "cobra_selects execute name vals given" and "c \<in> set (cmd_children root)"
    and "distinct (map cmd_use (cmd_children root))" and "cmd_use c = name" and "cmd_run c = Some run"
  shows "case pre c v of
        (Some e, v') \<Rightarrow> \<exists>e'. execute root pre v d = (Inl e', d)
      | (None, v') \<Rightarrow> if set (cmd_required c) \<subseteq> given
          then execute root pre v d = (let (res, d') = run v' vals d in (Inr res, d'))
          else \<exists>e'. execute root pre v d = (Inl e', d)"
  by (rule assms(1) [unfolded cobra_selects_def, rule_format, OF assms(2-5)])

lemma main_selected:
  assumes "viper_ok vl" and "cobra_selects execute (cmd_use c) vals given"
    and "c \<in> {setup_made vl rs, prove_made vl rp, service_made vl rv}" and "cmd_run c = Some run"
  shows "\<exists>v'. (\<forall>key \<in> pf_name ` set (cmd_flags c). GetString vl v' vals key = vals (cmd_use c, key))
    \<and> (if set (cmd_required c) \<subseteq> given
       then go_main vl execute rs rp rv v d = (let (res, d') = run v' vals d in (panicked res, d'))
       else \<exists>e. go_main vl execute rs rp rv v d = (Inl e, d))"
proof -
  obtain v1 where main: "main_commands vl rs rp rv v =
      Inr (AddCommand [setup_made vl rs, prove_made vl rp, service_made vl rv] rootCmd, v1)"
    by (rule main_commands_eq [OF assms(1)])
  have "distinct (map pf_name (cmd_flags c))"
    using assms(3) by (auto simp: setup_made_def prove_made_def service_made_def)
  then obtain v' where pre: "PersistentPreRunE vl c v1 = (None, v')"
      and get: "\<forall>vals. \<forall>key \<in> pf_name ` set (cmd_flags c). GetString vl v' vals key = vals (cmd_use c, key)"
    using PreRun_values [OF assms(1), of c v1] by blast
  let ?root = "AddCommand [setup_made vl rs, prove_made vl rp, service_made vl rv] rootCmd"
  have kids: "c \<in> set (cmd_children ?root)"
    using assms(3) by auto
  have dist: "distinct (map cmd_use (cmd_children ?root))"
    by (simp add: rootCmd_def setup_made_def prove_made_def service_made_def)
  have "if set (cmd_required c) \<subseteq> given
      then go_main vl execute rs rp rv v d = (let (res, d') = run v' vals d in (panicked res, d'))
      else \<exists>e. go_main vl execute rs rp rv v d = (Inl e, d)"
    using cobra_selectsD [OF assms(2) kids dist refl assms(4), of "PersistentPreRunE vl" v1 d]
    unfolding go_main_def main sum.case prod.case pre option.case
    by (cases "run v' vals d") (auto split: if_splits)
  with get show ?thesis by blast
qed

lemmas made_defs = setup_made_def prove_made_def service_made_def

text \<open>With the arguments cobra lets through, \<open>header\<close> never asks for the JSON form of a nil header.\<close>

lemma ebind_give: "ebind (give x) f = f x"
  by (simp add: ebind_def give_def fun_eq_iff)

lemma arg_first: "length args = Suc k \<Longrightarrow> arg args 0 = give (args ! 0)"
  by (simp add: arg_def)

lemma lightHeaderCmd_run:
  assumes "args_ok (cmd_args (lightHeaderCmd frac cfg lib get_chain json)) args"
    and "cmd_run (lightHeaderCmd frac cfg lib get_chain json) = Some run"
  shows "run args = ebind (lightHeader frac cfg lib get_chain (\<lambda>h. json (Some h)) (args ! 0)
      (if length args = 1 then None else Some (args ! 1))) (\<lambda>out. give (Document out))"
proof -
  have "length args = 1 \<or> length args = 2" using assms(1) by (auto simp: lightHeaderCmd_def)
  with assms(2) show ?thesis
    by (auto simp: lightHeaderCmd_def arg_first ebind_give eval_nat_numeral)
qed

lemma lightCmd_made:
  "viper_ok vl \<Longrightarrow> \<exists>c v'. lightCmd vl frac cfg lib get_chain fl json v = Inr (c, v')
    \<and> map cmd_use (cmd_children c) = [''header [chain-id] [[height]]'', ''init [chain-id]'', ''update [chain-id]'', ''delete [chain-id]'']"
  by (simp add: lightCmd_def initLightCmd_def lightFlags_def forceFlag_def Let_def bind_flag_eq
      lightHeaderCmd_def updateLightCmd_def deleteLightCmd_def)

section \<open>Properties\<close>

text \<open>
  C30: The program runs what its arguments say: for each of the three commands, if all its required flags
  are given, \<open>main\<close> runs the command's function on the values of that command's own flags, although
  the flag \<open>data\<close> was last bound for \<open>service\<close>, and panics with the error the function returns, if it returns one; if a required
  flag is missing, it panics and leaves the disk alone. \<open>service\<close> requires none.
\<close>

theorem main_runs_selected:
  assumes "viper_ok vl" and "cobra_selects execute name vals given"
  shows "(name = ''setup'' \<longrightarrow> (if {''proving-system'', ''data'', ''dummydata''} \<subseteq> given
        then go_main vl execute rs rp rv v d = (let (res, d') = rs (vals (''setup'', ''proving-system''))
               (vals (''setup'', ''data'')) (vals (''setup'', ''dummydata'')) d in (panicked res, d'))
        else \<exists>e. go_main vl execute rs rp rv v d = (Inl e, d)))
    \<and> (name = ''prove'' \<longrightarrow> (if {''data'', ''proof''} \<subseteq> given
        then go_main vl execute rs rp rv v d =
               (let (res, d') = rp (vals (''prove'', ''data'')) (vals (''prove'', ''proof'')) d in (panicked res, d'))
        else \<exists>e. go_main vl execute rs rp rv v d = (Inl e, d)))
    \<and> (name = ''service'' \<longrightarrow> go_main vl execute rs rp rv v d =
               (let (res, d') = rv (vals (''service'', ''data'')) (vals (''service'', ''addr'')) d in (panicked res, d')))"
proof (intro conjI impI)
  assume n: "name = ''setup''"
  show "if {''proving-system'', ''data'', ''dummydata''} \<subseteq> given
        then go_main vl execute rs rp rv v d = (let (res, d') = rs (vals (''setup'', ''proving-system''))
               (vals (''setup'', ''data'')) (vals (''setup'', ''dummydata'')) d in (panicked res, d'))
        else \<exists>e. go_main vl execute rs rp rv v d = (Inl e, d)"
    using main_selected [of vl execute "setup_made vl rs" vals given rs rp rv _ v d] assms n
    by (auto simp: made_defs)
next
  assume n: "name = ''prove''"
  show "if {''data'', ''proof''} \<subseteq> given
        then go_main vl execute rs rp rv v d =
               (let (res, d') = rp (vals (''prove'', ''data'')) (vals (''prove'', ''proof'')) d in (panicked res, d'))
        else \<exists>e. go_main vl execute rs rp rv v d = (Inl e, d)"
    using main_selected [of vl execute "prove_made vl rp" vals given rs rp rv _ v d] assms n
    by (auto simp: made_defs)
next
  assume n: "name = ''service''"
  show "go_main vl execute rs rp rv v d =
               (let (res, d') = rv (vals (''service'', ''data'')) (vals (''service'', ''addr'')) d in (panicked res, d'))"
    using main_selected [of vl execute "service_made vl rv" vals given rs rp rv _ v d] assms n
    by (auto simp: made_defs)
qed

text \<open>A viper that keeps its bindings in a list, and a cobra that selects \<open>prove\<close>.\<close>

definition example_viper :: "(string \<times> flag_ref) list viper_lib" where
  "example_viper =
     \<lparr>BindPFlag = (\<lambda>name ref v. case ref of None \<Rightarrow> (Some ''nil flag'', v) | Some r \<Rightarrow> (None, (name, r) # v)),
      BindPFlags = (\<lambda>refs v. (None, map (\<lambda>r. (snd r, r)) refs @ v)),
      GetString = (\<lambda>v vals key. case map_of v key of Some r \<Rightarrow> vals r | None \<Rightarrow> [])\<rparr>"

lemma example_viper_ok: "viper_ok example_viper"
  by (auto simp: viper_ok_def example_viper_def map_add_def split: option.splits)

definition example_execute :: "string \<Rightarrow> (flag_ref \<Rightarrow> string) \<Rightarrow> string set \<Rightarrow> ('v, 'd, 'res) executor" where
  "example_execute name vals given root pre v d = (case find (\<lambda>c. cmd_use c = name) (cmd_children root) of
     None \<Rightarrow> (Inl ''unknown command'', d)
   | Some c \<Rightarrow> (case pre c v of
        (Some e, v') \<Rightarrow> (Inl e, d)
      | (None, v') \<Rightarrow> if set (cmd_required c) \<subseteq> given
          then (case cmd_run c of None \<Rightarrow> (Inl ''help'', d) | Some run \<Rightarrow> let (res, d') = run v' vals d in (Inr res, d'))
          else (Inl ''required flag(s) not set'', d)))"

lemma find_unique: "x \<in> set xs \<Longrightarrow> distinct (map f xs) \<Longrightarrow> find (\<lambda>y. f y = f x) xs = Some x"
  by (induction xs) auto

lemma example_execute_selects: "cobra_selects (example_execute name vals given) name vals given"
  unfolding cobra_selects_def
proof (intro allI impI)
  fix root :: "('v, 'd, 'res) run_fun command" and pre v d c run
  assume c: "c \<in> set (cmd_children root)" "distinct (map cmd_use (cmd_children root))" "cmd_use c = name" "cmd_run c = Some run"
  have "find (\<lambda>c. cmd_use c = name) (cmd_children root) = Some c"
    using find_unique [OF c(1,2)] c(3) by simp
  then show "case pre c v of (Some e, v') \<Rightarrow> \<exists>e'. example_execute name vals given root pre v d = (Inl e', d)
      | (None, v') \<Rightarrow> if set (cmd_required c) \<subseteq> given
          then example_execute name vals given root pre v d = (let (res, d') = run v' vals d in (Inr res, d'))
          else \<exists>e'. example_execute name vals given root pre v d = (Inl e', d)"
    using c(4) by (cases "pre c v") (simp add: example_execute_def split: option.split)
qed

definition example_values :: "flag_ref \<Rightarrow> string" where
  "example_values r = (if r = (''prove'', ''data'') then ''keys'' else if r = (''prove'', ''proof'') then ''run1''
     else if r = (''service'', ''data'') then [] else snd r)"

theorem main_runs_selected_witness:
  "go_main example_viper (example_execute ''prove'' example_values {''data'', ''proof''}) (\<lambda>s a b d. (Some (s @ a @ b), d))
     (\<lambda>a b d. (Some (a @ b), d + 1)) (\<lambda>a b d. (None, d)) [] (0 :: nat) = (Inl ''keysrun1'', 1)"
  using main_runs_selected [OF example_viper_ok example_execute_selects, of "''prove''" "{''data'', ''proof''}"
      example_values "\<lambda>s a b d. (Some (s @ a @ b), d)" "\<lambda>a b d. (Some (a @ b), d + 1)" "\<lambda>a b d. (None, d)" "[]" "0 :: nat"]
  by (simp add: example_values_def panicked_def)

end
