(* ===== verification/Spec2Isabelle.thy ===== *)
theory Spec2Isabelle
  imports Relay_Runs Contract_Clients Contract_Messages Command_Trees
begin

text \<open>
  A model of the Go programs of \<open>datachainlab/tendermint-zk-ibc\<close>, an IBC light client for Tendermint
  chains whose headers are checked by zero-knowledge proofs, and the theorems that make them
  correct.

  \<^bold>\<open>The system.\<close> A relayer (\<open>go/relay\<close>) keeps a local light client of a Tendermint chain and
  creates and updates a client on another chain, the Solidity contract of \<open>contracts\<close>. To create it,
  it sends a client state and a consensus state made of a header its local light client verified. To
  update it, it asks a proving service for a proof that the validators of a trusted height signed
  the target height, waits for it, and sends the proof with the block hash, and with the fields of
  the header that the contract stores together with their Merkle siblings. The proof is a Groth16
  proof of a circuit that verifies a plonky2 proof (\<open>go/circuit.go\<close>); its three public inputs are the digest
  of the plonky2 circuit and the truncated hashes of its input and output. The service and its setup are
  the programs of \<open>go\<close>.

  \<^bold>\<open>The theories\<close>, in the order in which they build on each other:
  \<^item> \<open>Go_Prelude\<close>, \<open>Go_Std\<close>, \<open>Sha256\<close>: results with errors, machine integers, \<open>copy\<close> and slices,
    the locale \<open>measured_steps\<close> of the state machines; the parts of Go's standard library the code
    uses (hexadecimal, big integers, durations); SHA-256, executable.
  \<^item> \<open>Proto_Wire\<close>, \<open>Proto_Message\<close>, \<open>Client_Messages\<close>, \<open>Prover_Config\<close>: the generated protobuf code of
    \<open>TendermintZKLightClient.pb.go\<close> and \<open>config.pb.go\<close> with its backwards writer and its field loop, and
    \<open>config.go\<close>. The locales \<open>pb_decoder\<close> and \<open>pb_message\<close> are the contract between the generated
    field functions and the generic loop and writer; every message interprets them. Shown: round trips,
    sizes, unknown fields, malformed input, termination on every byte string.
  \<^item> \<open>Groth16_Proofs\<close>, \<open>ZK_Prover\<close>, \<open>Async_Prove\<close>: \<open>zkp\<close> and \<open>zkprover.go\<close>: parsing and ABI form of proofs,
    the inputs the relayer expects, the check of the service's answer, and the goroutine with its
    channel, ticker and timeout as a step relation over all interleavings; its steps carry the time at which
    they happen, in nanoseconds, and the ticker drops the ticks the loop is too slow for.
  \<^item> \<open>Simple_Tree\<close>, \<open>Relay_Prover\<close>, \<open>State_Proofs\<close>: \<open>tree.go\<close>, \<open>prover.go\<close>, \<open>proof.go\<close>: the siblings of the header
    fields and the root that the contract computes, the prover's operations, membership proofs.
  \<^item> \<open>Light_Client\<close>, \<open>Light_Commands\<close>, \<open>Client_Interfaces\<close>: \<open>tendermint.go\<close>, \<open>cmd/light.go\<close>, \<open>lightclient.go\<close>,
    \<open>types.go\<close>: the database of the local light client and what opens and closes it (a database that does not close is a panic), the commands on it,
    the getters and the JSON form of the messages.
  \<^item> \<open>Update_Contract\<close>, \<open>Update_Safety\<close>, \<open>Contract_Codec\<close>: the contract as the receiving side of the relayer:
    \<open>initializeClient\<close>, \<open>updateState\<close> and the conversion of messages; the four contracts for the proof systems,
    which check a proof before \<open>updateState\<close>; the codec of the messages in the contract and the functions that take
    or return bytes. Shown: the stored blocks are valid if accepted proofs are sound, and what the relayer
    encodes is what the contract decodes, and the other way round. These theories speak of one client.
  \<^item> \<open>Contract_Clients\<close>, \<open>Contract_Messages\<close>: the storage of all clients of one contract, with the locale
    \<open>separated\<close>: what each client sees is what its own calls make of a contract with that client alone; and the rest of the
    contract's codec, which the client does not call, with its agreement with the relayer's.
  \<^item> \<open>Tree_Verifier\<close>, \<open>Absence_Proofs\<close>, \<open>Proof_Soundness\<close>: \<open>verifyMembership\<close> and \<open>verifyNonMembership\<close> with the two proof
    formats of \<open>TendermintTreeVerifier.sol\<close>. Shown: the relayer's proofs are accepted, and whatever is accepted
    is true of the trees behind the app hash if nothing hashed collides. The locale \<open>proof_loop\<close> is what
    both formats' loops share, \<open>hashed_tree\<close> what a path of hashes says of a tree, \<open>verifier_setting\<close> the verifier with a
    hash function and a runtime; both formats' trees are sublocales.
  \<^item> \<open>Gnark_Circuit\<close>, \<open>Gnark_Files\<close>, \<open>Gnark_Service\<close>: \<open>circuit.go\<close>, \<open>setup.go\<close>, \<open>prove.go\<close>, \<open>service.go\<close>: what the circuit
    states, the assignment of the prover, the files of the setup, the handler of the service and
    concurrent requests, each with the randomness of its own proof. The locale \<open>frontend_field\<close> is the contract of gnark's API.
  \<^item> \<open>Command_Trees\<close>: \<open>main.go\<close>, the commands and flags of \<open>setup.go\<close>, \<open>prove.go\<close>, \<open>service.go\<close>, \<open>cmd\<close> and \<open>module\<close>, with the
    keys that viper shares between commands; which function runs on which flag values.
  \<^item> \<open>Client_Creation\<close>, \<open>Self_Client\<close>, \<open>Relay_Update\<close>, \<open>Relay_Runs\<close> and this theory: properties across components, the creation
    of a client, the check the Tendermint chain makes of it (\<open>e2e/chains/tendermint/simapp/ibc.go\<close>), its update from the
    relayer to the contract, and its life through any number of updates that anybody may submit
    (\<open>client_history\<close>). Shown for every such history: the states the client stores are headers of the
    chain, the relayer can go on from the latest one, what the relayer proves is accepted, and what the client
    accepts is true of the chain.

  \<^bold>\<open>Conventions.\<close> A Go function that returns an error is a function into a sum, \<open>Inl\<close> the error; panics
  are constructors of the error types. A 64-bit integer is a \<open>64 word\<close>, an \<open>int64\<close> that is only read an \<open>int\<close>,
  a \<open>big.Int\<close> a \<open>nat\<close>. Definitions have the names of the code where HOL allows it (\<open>go_setup\<close> is
  \<open>setup\<close>, \<open>skip_step\<close> a round of \<open>skipTendermintZKLightClient\<close>).

  \<^bold>\<open>Bounds.\<close> No definition has fuel that a caller could choose too small: \<open>read_varint\<close> reads the ten bytes
  the code reads, the field loop ends because every field takes a byte, a run of the wait loop has at most
  63 steps (at most 61 ticks of ten seconds, the return of the prover and the timer), a run of the
  service three steps for each request, and \<open>retry.Do\<close> five attempts (\<open>rtyAttNum\<close>).

  \<^bold>\<open>Parameters.\<close> Code outside the repository is an argument: the codec of \<open>Height\<close>, the marshalers of
  CometBFT's header fields (\<open>marshalers\<close>), the chain and the counterparty (\<open>chain\<close>, \<open>counterparty\<close>), CometBFT's
  light client and its database (\<open>light_lib\<close>), ics23 and the queries of proofs (\<open>state_lib\<close>), go-ethereum's packer
  (\<open>abi\<close>, \<open>existence_abi\<close>), the varints of \<open>ProtoBufRuntime\<close> (\<open>proto_runtime\<close>), its readers and writers of fields and the codecs of \<open>Height\<close>
  and \<open>Any\<close> (\<open>sol_codec\<close>, \<open>int_codec\<close>), the generated pairing verifiers (the arguments of a \<open>prover_contract\<close>), HTTP and the JSON syntax
  (\<open>net\<close>), viper (\<open>viper_lib\<close>) and cobra's choice of a command, gnark and its API (\<open>prover_lib\<close>, \<open>setup_lib\<close>,
  \<open>frontend_api\<close>). What a theorem needs of them is a named hypothesis with the documented
  behaviour (\<open>abi_ok\<close>, \<open>marshalers_ok\<close>, \<open>retry_ok\<close>, \<open>closes\<close>, \<open>ics23_checks\<close>, \<open>runtime_ok\<close>, \<open>runtime_reads\<close>, \<open>runtime_spans\<close>, \<open>decodes_ok\<close>, \<open>encodes_ok\<close>, \<open>ints_ok\<close>,
  \<open>viper_ok\<close>, \<open>cobra_selects\<close>, \<open>gnark_ok\<close>, \<open>reads_answer\<close>, \<open>frontend_field\<close>), and the witnesses instantiate them. \<open>chain_ok\<close> is about the
  chain: its headers are well formed and their hashes are the Merkle roots of their fields. \<open>ics23_checks\<close> allows
  varints that are longer than need be and, for paths with an escape, another key; the theorems on proofs of
  states therefore speak of paths without a percent sign and of a runtime that reads varints as Go does
  (\<open>runtime_reads\<close>). Two hypotheses are about cryptography: \<open>proof_sound\<close>, that the proofs submitted to a contract
  have the statement of its two circuits when the contract's verifier accepts them, which idealises the knowledge soundness
  of Groth16 and plonky2 and is asked of the submitted messages only (\<open>sound_updates\<close> for a history); and that the hash function is
  injective on the strings a theorem names. The theorems on histories have no such hypothesis on hashes but conclude that otherwise two
  of the named strings collide.

  \<^bold>\<open>Not modelled.\<close> Logging, profiling and help texts; the descriptors of the generated code; the functions of the contract's
  generated codec that copy a message into storage, which nothing calls, and its \<open>nil\<close> and \<open>isNil\<close>, which are assembly on memory
  addresses; the generated pairing verifiers and the Rust circuits;
  helpers without a caller (\<open>errKeyExists\<close>, \<open>errKeyDoesntExist\<close>); the rest of the
  chain of the end-to-end tests (\<open>e2e\<close>), which wires cosmos-sdk modules together and has a copy of the
  generated messages.
\<close>

section \<open>From the relayer to the contract\<close>

text \<open>
  C1: End to end. When the relayer got a proof for an update from a height the contract trusts,
  in any interleaving of the wait and with any type of prover, the message it builds is
  converted by the contract without a revert. A contract of the proof's kind decodes the very proof the
  service sent, and takes the update exactly if its verifier accepts that proof for the inputs the relayer
  expects and each of the three inputs is zero or has 32 significant bytes; it then stores exactly that
  header. Otherwise the update is refused although the proof is right: the relayer sends the inputs without their leading
  zero bytes and the contract reads them from the left.
\<close>

theorem relayed_update_accepted_iff:
  assumes setting: "update_setting ms lib ch zpc c h trusted hdr"
    and cp: "cp_latest_height cp = Inr cph" "cp_client_height cp cph = Inr latest" "RevisionHeight latest = trusted"
    and lt: "trusted < RevisionHeight (tm_height h)"
    and wait: "wait_reach {Prove w zpc trusted (RevisionHeight (tm_height h))} s" "waiter s = GotProof proof"
    and abi: "abi_ok a"
    and now: "now \<le> unat (cTimestamp (cConsensusStates c trusted)) + unat (cTrustingPeriod c)"
  shows "\<exists>msg. SetupHeadersForUpdate Sum256 ms lib a ch cp (TmHeader h) (waiter s) = Inr msg
    \<and> (\<exists>i zk. convertUpdateStateMessage msg = Inr (i, zk))
    \<and> (\<forall>pc abi_bytes. serves pc (ZKProofOf proof) \<longrightarrow>
        ((\<exists>c'. update_client a abi_bytes pc c now msg = Inr c')
          \<longleftrightarrow> checked_by pc (ZKProofOf proof) (ZKInput proof) \<and> list_all aligned (ZKInput proof))
        \<and> (\<forall>c'. update_client a abi_bytes pc c now msg = Inr c' \<longrightarrow> c' = store_header ch hdr (RevisionHeight (tm_height h)) c))"
  by (rule relayed_update_verified [OF assms])

theorem relayed_update_accepted_iff_witness:
  "\<exists>proof msg. SetupHeadersForUpdate Sum256 example_marshalers example_lib static_abi example_chain
      example_counterparty (TmHeader example_tm_header) (GotProof proof) = Inr msg
    \<and> ((\<exists>c'. update_client static_abi Inr (MockContract Sum256) example_contract 1700000100 msg = Inr c')
      \<longleftrightarrow> list_all aligned (ZKInput proof))"
proof -
  obtain r where reach: "wait_reach {Prove example_net example_zpc 5 (RevisionHeight (tm_height example_tm_header))} (got_state r)"
      and r: "ZKProofOf r = MockProof"
    using example_wait by blast
  have "\<exists>msg. SetupHeadersForUpdate Sum256 example_marshalers example_lib static_abi example_chain
      example_counterparty (TmHeader example_tm_header) (waiter (got_state r)) = Inr msg
    \<and> (\<exists>i zk. convertUpdateStateMessage msg = Inr (i, zk))
    \<and> (\<forall>pc abi_bytes. serves pc (ZKProofOf r) \<longrightarrow>
        ((\<exists>c'. update_client static_abi abi_bytes pc example_contract 1700000100 msg = Inr c')
          \<longleftrightarrow> checked_by pc (ZKProofOf r) (ZKInput r) \<and> list_all aligned (ZKInput r))
        \<and> (\<forall>c'. update_client static_abi abi_bytes pc example_contract 1700000100 msg = Inr c'
          \<longrightarrow> c' = store_header example_chain example_target (RevisionHeight (tm_height example_tm_header)) example_contract))"
  proof (rule relayed_update_accepted_iff [OF example_setting _ _ _ _ reach _ static_abi_ok])
    show "cp_latest_height example_counterparty = Inr \<lparr>RevisionNumber = 0, RevisionHeight = 100\<rparr>"
      and "cp_client_height example_counterparty \<lparr>RevisionNumber = 0, RevisionHeight = 100\<rparr> =
        Inr \<lparr>RevisionNumber = 0, RevisionHeight = 5\<rparr>"
      and "RevisionHeight \<lparr>RevisionNumber = 0, RevisionHeight = 5\<rparr> = 5"
      by (simp_all add: example_counterparty_def)
  qed (simp_all add: got_state_def example_tm_header_def example_contract_def)
  then obtain msg where msg: "SetupHeadersForUpdate Sum256 example_marshalers example_lib static_abi example_chain
        example_counterparty (TmHeader example_tm_header) (GotProof r) = Inr msg"
      and "(\<exists>c'. update_client static_abi Inr (MockContract Sum256) example_contract 1700000100 msg = Inr c')
        \<longleftrightarrow> list_all aligned (ZKInput r)"
    by (auto simp: got_state_def r dest!: spec [of _ "MockContract Sum256"])
  then show ?thesis by blast
qed

section \<open>From the creation of a client to its first update\<close>

text \<open>
  C2: A client's life up to its first update: a prover made from a configuration creates the two states,
  the contract initializes the client with them, and the relayer sends an update to a later header after
  it got a proof. If the chain still has the created header's block hash at its height, the contract of the
  proof's kind converts the message and takes the update exactly if its verifier accepts the proof for the inputs
  the relayer expects and each of them is zero or has 32 significant bytes, and then stores that header: the digests, heights and hashes that
  the two programs keep apart agree.
\<close>

theorem created_client_updated:
  assumes new: "NewProver ch config = Inr pr"
    and created: "CreateInitialLightClientState frac lib update_light_client pr height = Inr (cs, cons)"
    and init: "initializeClient c0 cs cons = Inr c"
    and chain: "tm_client ch (sint (RevisionHeight (LatestHeight cs))) = Inr (BlockHash cons)"
      "BlockHash cons \<noteq> replicate 32 0"
    and header: "header_setting ms lib ch h hdr"
    and cp: "cp_latest_height cp = Inr cph" "cp_client_height cp cph = Inr (LatestHeight cs)"
    and lt: "RevisionHeight (LatestHeight cs) < RevisionHeight (tm_height h)"
    and wait: "wait_reach {Prove w (zkProverClient pr) (RevisionHeight (LatestHeight cs)) (RevisionHeight (tm_height h))} s"
      "waiter s = GotProof proof"
    and abi: "abi_ok a"
    and now: "now \<le> unat (Timestamp cons) + unat (TrustingPeriod cs)"
  shows "\<exists>msg. SetupHeadersForUpdate Sum256 ms lib a ch cp (TmHeader h) (waiter s) = Inr msg
    \<and> (\<exists>i zk. convertUpdateStateMessage msg = Inr (i, zk))
    \<and> (\<forall>pc abi_bytes. serves pc (ZKProofOf proof) \<longrightarrow>
        ((\<exists>c'. update_client a abi_bytes pc c now msg = Inr c')
          \<longleftrightarrow> checked_by pc (ZKProofOf proof) (ZKInput proof) \<and> list_all aligned (ZKInput proof))
        \<and> (\<forall>c'. update_client a abi_bytes pc c now msg = Inr c' \<longrightarrow> c' = store_header ch hdr (RevisionHeight (tm_height h)) c))"
proof (rule relayed_update_verified [OF _ cp refl lt wait abi])
  note n = NewProver_client [OF new] and i = initializeClient_digests [OF init]
  from created n have d: "StepVerifierDigest cs = ZKStepVerifierDigest (zkProverClient pr)"
      "SkipVerifierDigest cs = ZKSkipVerifierDigest (zkProverClient pr)"
      "length (StepVerifierDigest cs) = 32" "length (SkipVerifierDigest cs) = 32"
    by (auto simp: CreateInitialLightClientState_Inr)
  show "update_setting ms lib ch (zkProverClient pr) c h (RevisionHeight (LatestHeight cs)) hdr"
    unfolding update_setting_def using n i d chain header by (simp add: bytes32_exact)
  show "now \<le> unat (cTimestamp (cConsensusStates c (RevisionHeight (LatestHeight cs)))) + unat (cTrustingPeriod c)"
    using i now by simp
qed

theorem created_client_updated_witness:
  "\<exists>pr c proof msg. NewProver example_chain life_config = Inr pr
    \<and> initializeClient (new_contract (be_nat (replicate 32 1)) (be_nat (replicate 32 2)) 0)
        (fst life_states) (snd life_states) = Inr c
    \<and> SetupHeadersForUpdate Sum256 example_marshalers example_lib static_abi example_chain
        example_counterparty (TmHeader example_tm_header) (GotProof proof) = Inr msg
    \<and> ((\<exists>c'. update_client static_abi Inr (MockContract Sum256) c 1700000100 msg = Inr c')
      \<longleftrightarrow> list_all aligned (ZKInput proof))"
proof -
  let ?pr = "\<lparr>pr_config = life_config, zkProverClient = example_zpc\<rparr>"
  let ?c0 = "new_contract (be_nat (replicate 32 1)) (be_nat (replicate 32 2)) 0"
  have pr: "NewProver example_chain life_config = Inr ?pr"
    by (simp add: NewProver_def life_digests example_zpc_def NewZKProverClient_def) (simp add: life_config_def)
  have "UnixNano \<lparr>unix_seconds = 1700000000, nanosecond = 7\<rparr> = 1700000000000000007"
    by (simp add: UnixNano_def)
  then obtain c where c: "initializeClient ?c0 (fst life_states) (snd life_states) = Inr c"
      and ts: "Timestamp (snd life_states) = 1700000000000000007"
    by (simp add: initializeClient_def life_states_def life_header_def new_contract_def bytes32_exact)
  have h: "tm_client example_chain 5 = Inr (replicate 32 5)"
    by (simp add: tm_client_def example_chain_def) (simp add: example_header_def)
  obtain r where reach: "wait_reach {Prove example_net example_zpc 5 (RevisionHeight (tm_height example_tm_header))} (got_state r)"
      and r: "ZKProofOf r = MockProof"
    using example_wait by blast
  have five: "LatestHeight (fst life_states) = \<lparr>RevisionNumber = 0, RevisionHeight = 5\<rparr>"
    by (simp add: life_states_def life_header_def)
  have "\<exists>msg. SetupHeadersForUpdate Sum256 example_marshalers example_lib static_abi example_chain
      example_counterparty (TmHeader example_tm_header) (waiter (got_state r)) = Inr msg
    \<and> (\<exists>i zk. convertUpdateStateMessage msg = Inr (i, zk))
    \<and> (\<forall>pc abi_bytes. serves pc (ZKProofOf r) \<longrightarrow>
        ((\<exists>c'. update_client static_abi abi_bytes pc c 1700000100 msg = Inr c')
          \<longleftrightarrow> checked_by pc (ZKProofOf r) (ZKInput r) \<and> list_all aligned (ZKInput r))
        \<and> (\<forall>c'. update_client static_abi abi_bytes pc c 1700000100 msg = Inr c'
          \<longrightarrow> c' = store_header example_chain example_target (RevisionHeight (tm_height example_tm_header)) c))"
  proof (rule created_client_updated [OF pr life_created c _ _ _ _ _ _ _ _ static_abi_ok])
    show "tm_client example_chain (sint (RevisionHeight (LatestHeight (fst life_states)))) = Inr (BlockHash (snd life_states))"
      using h by (simp add: five) (simp add: life_states_def)
    show "BlockHash (snd life_states) \<noteq> replicate 32 0" by (simp add: life_states_def)
    show "header_setting example_marshalers example_lib example_chain example_tm_header example_target"
      using example_setting by (simp add: update_setting_def)
    show "cp_latest_height example_counterparty = Inr \<lparr>RevisionNumber = 0, RevisionHeight = 100\<rparr>"
      and "cp_client_height example_counterparty \<lparr>RevisionNumber = 0, RevisionHeight = 100\<rparr> = Inr (LatestHeight (fst life_states))"
      by (simp_all add: example_counterparty_def five)
    show "wait_reach {Prove example_net (zkProverClient ?pr) (RevisionHeight (LatestHeight (fst life_states)))
        (RevisionHeight (tm_height example_tm_header))} (got_state r)"
      using reach by (simp add: five)
  qed (simp_all add: five got_state_def example_tm_header_def ts)
  then obtain msg where msg: "SetupHeadersForUpdate Sum256 example_marshalers example_lib static_abi example_chain
        example_counterparty (TmHeader example_tm_header) (GotProof r) = Inr msg"
      and "(\<exists>c'. update_client static_abi Inr (MockContract Sum256) c 1700000100 msg = Inr c')
        \<longleftrightarrow> list_all aligned (ZKInput r)"
    by (auto simp: got_state_def r dest!: spec [of _ "MockContract Sum256"])
  with pr c show ?thesis by blast
qed

end
